(* ===== verification/Errors.thy ===== *)
theory Errors
  imports Prelude
begin

text \<open>
  The error type of the crate (\<^verbatim>\<open>src/error.rs\<close>) and the part of \<^verbatim>\<open>std::io::Error\<close> the sources
  look at: its kind and its message.  The \<^verbatim>\<open>&'static str\<close> payloads are kept, because the frame
  reader tells one malformed-packet error from the others by its message.
\<close>

datatype ErrorKind =
    Interrupted
  | WouldBlock
  | TimedOut
  | WriteZero
  | InvalidData
  | InvalidInput
  | NotConnected
  | KindConnectionRefused
  | UnexpectedEof
  | KindOther
  | OtherKind nat

datatype io_error = IoError (io_kind: ErrorKind) (io_message: string)

type_synonym 'a io_result = "io_error + 'a"

datatype error =
    InvalidOptions string
  | MalformedPacket string
  | InvalidPacketType u8
  | InvalidQoS u8
  | InvalidReasonCode u8
  | ConnectionRefused u8
  | ServerDisconnected u8
  | PacketTooLarge (ptl_size: nat) (ptl_max: nat)
  | StringTooLong nat
  | BinaryTooLong nat
  | Timeout string
  | KeepAliveTimeout
  | UnexpectedPacket string
  | AckRejected (ack_packet: string) (ack_reason_code: u8)
  | QueueFull string
  | ClientClosed
  | Serialize string
  | Deserialize string
  | ConnectionClosed
  | Io io_error

type_synonym 'a result = "error + 'a"

text \<open>\<^verbatim>\<open>impl From<std::io::Error> for Error\<close>: what \<^verbatim>\<open>?\<close> does with an I/O result.\<close>

definition from_io :: "'a io_result \<Rightarrow> 'a result" where
  "from_io r = (case r of Inl e \<Rightarrow> Err (Io e) | Inr x \<Rightarrow> Ok x)"

text \<open>\<^verbatim>\<open>Error::source\<close>: only an I/O error has a cause.\<close>

definition error_source :: "error \<Rightarrow> io_error option" where
  "error_source e = (case e of Io error \<Rightarrow> Some error | _ \<Rightarrow> None)"

lemma from_io_simps [simp]:
  "from_io (Ok x) = Ok x"
  "from_io (Err e) = Err (Io e)"
  by (simp_all add: from_io_def)

lemma from_io_eq [result_iffs]:
  "from_io r = Ok x \<longleftrightarrow> r = Ok x"
  "from_io r = Err e \<longleftrightarrow> (\<exists>i. r = Err i \<and> e = Io i)"
  by (cases r; auto)+

end
