(* ===== verification/Wire_Types.thy ===== *)
theory Wire_Types
  imports Errors
begin

text \<open>
  The control packet types, quality-of-service levels and the fixed header
  (\<^verbatim>\<open>src/codec/types.rs\<close>).  \<open>PacketType_as_u8\<close> and \<open>QoS_as_u8\<close> are the \<^verbatim>\<open>repr(u8)\<close> discriminants
  that \<^verbatim>\<open>as u8\<close> reads.
\<close>

datatype PacketType =
    PT_Connect
  | PT_ConnAck
  | PT_Publish
  | PT_PubAck
  | PT_PubRec
  | PT_PubRel
  | PT_PubComp
  | PT_Subscribe
  | PT_SubAck
  | PT_Unsubscribe
  | PT_UnsubAck
  | PT_PingReq
  | PT_PingResp
  | PT_Disconnect
  | PT_Auth

fun PacketType_as_u8 :: "PacketType \<Rightarrow> u8" where
  "PacketType_as_u8 PT_Connect = 1"
| "PacketType_as_u8 PT_ConnAck = 2"
| "PacketType_as_u8 PT_Publish = 3"
| "PacketType_as_u8 PT_PubAck = 4"
| "PacketType_as_u8 PT_PubRec = 5"
| "PacketType_as_u8 PT_PubRel = 6"
| "PacketType_as_u8 PT_PubComp = 7"
| "PacketType_as_u8 PT_Subscribe = 8"
| "PacketType_as_u8 PT_SubAck = 9"
| "PacketType_as_u8 PT_Unsubscribe = 10"
| "PacketType_as_u8 PT_UnsubAck = 11"
| "PacketType_as_u8 PT_PingReq = 12"
| "PacketType_as_u8 PT_PingResp = 13"
| "PacketType_as_u8 PT_Disconnect = 14"
| "PacketType_as_u8 PT_Auth = 15"

definition PacketType_from_u8 :: "u8 \<Rightarrow> PacketType result" where
  "PacketType_from_u8 val =
    (if val = 1 then Ok PT_Connect
     else if val = 2 then Ok PT_ConnAck
     else if val = 3 then Ok PT_Publish
     else if val = 4 then Ok PT_PubAck
     else if val = 5 then Ok PT_PubRec
     else if val = 6 then Ok PT_PubRel
     else if val = 7 then Ok PT_PubComp
     else if val = 8 then Ok PT_Subscribe
     else if val = 9 then Ok PT_SubAck
     else if val = 10 then Ok PT_Unsubscribe
     else if val = 11 then Ok PT_UnsubAck
     else if val = 12 then Ok PT_PingReq
     else if val = 13 then Ok PT_PingResp
     else if val = 14 then Ok PT_Disconnect
     else if val = 15 then Ok PT_Auth
     else Err (InvalidPacketType val))"

datatype QoS = AtMostOnce | AtLeastOnce

fun QoS_as_u8 :: "QoS \<Rightarrow> u8" where
  "QoS_as_u8 AtMostOnce = 0"
| "QoS_as_u8 AtLeastOnce = 1"

definition QoS_from_u8 :: "u8 \<Rightarrow> QoS result" where
  "QoS_from_u8 val =
    (if val = 0 then Ok AtMostOnce
     else if val = 1 then Ok AtLeastOnce
     else Err (InvalidQoS val))"

record FixedHeader =
  packet_type :: PacketType
  flags :: u8
  remaining_length :: u32

text \<open>Both enumerations are read back from their discriminants, and from nothing else.\<close>

lemma PacketType_from_as_u8 [simp]: "PacketType_from_u8 (PacketType_as_u8 t) = Ok t"
  by (cases t) (simp_all add: PacketType_from_u8_def)

lemma PacketType_from_u8_Ok: "PacketType_from_u8 v = Ok t \<longleftrightarrow> v = PacketType_as_u8 t"
proof
  assume "PacketType_from_u8 v = Ok t"
  then show "v = PacketType_as_u8 t"
    by (auto simp: PacketType_from_u8_def split: if_splits)
qed simp

lemma PacketType_as_u8_range: "1 \<le> PacketType_as_u8 t \<and> PacketType_as_u8 t \<le> 15"
  by (cases t) simp_all

lemma PacketType_from_u8_Err:
  "PacketType_from_u8 v = Err e \<longleftrightarrow> e = InvalidPacketType v \<and> (\<forall>t. v \<noteq> PacketType_as_u8 t)"
proof (cases "PacketType_from_u8 v")
  case (Inl a)
  then have "a = InvalidPacketType v"
    by (auto simp: PacketType_from_u8_def split: if_splits)
  with Inl show ?thesis
    using PacketType_from_u8_Ok [of v] by auto
next
  case (Inr b)
  then show ?thesis using PacketType_from_u8_Ok [of v] by auto
qed

lemma QoS_from_as_u8 [simp]: "QoS_from_u8 (QoS_as_u8 q) = Ok q"
  by (cases q) (simp_all add: QoS_from_u8_def)

lemma QoS_from_u8_Ok: "QoS_from_u8 v = Ok q \<longleftrightarrow> v = QoS_as_u8 q"
  by (cases q) (auto simp: QoS_from_u8_def)

end
