(* ===== verification/Decode.thy ===== *)
theory Decode
  imports Wire_Types
begin

text \<open>
  The cursor and the wire decoders of \<^verbatim>\<open>src/codec/decode.rs\<close>.  A read returns the value with the
  moved cursor; on an error the cursor is abandoned, as every caller in the crate does.  The
  lemmas state each read over \<open>remaining_bytes\<close>, the bytes that are left; the locale
  \<open>stream_reader\<close> is the contract all reads share: they move forward inside the buffer, and more
  bytes behind what they consumed change neither the value nor an error other than running out
  of data.
\<close>

section \<open>Cursor\<close>

record Cursor =
  cur_buf :: bytes
  cur_pos :: nat

definition Cursor_new :: "bytes \<Rightarrow> Cursor" where
  "Cursor_new buf = \<lparr>cur_buf = buf, cur_pos = 0\<rparr>"

definition position :: "Cursor \<Rightarrow> nat" where
  "position c = cur_pos c"

definition remaining :: "Cursor \<Rightarrow> nat" where
  "remaining c = length (cur_buf c) - cur_pos c"

text \<open>\<^verbatim>\<open>&self.buf[self.pos..]\<close>; the slice exists because no read moves past the end.\<close>

definition remaining_bytes :: "Cursor \<Rightarrow> bytes" where
  "remaining_bytes c = drop (cur_pos c) (cur_buf c)"

text \<open>\<^verbatim>\<open>self.pos += n\<close>.\<close>

definition advance :: "Cursor \<Rightarrow> nat \<Rightarrow> Cursor" where
  "advance c n = c\<lparr>cur_pos := cur_pos c + n\<rparr>"

definition eof_error :: error where
  "eof_error = MalformedPacket ''unexpected end of data''"

definition ensure :: "Cursor \<Rightarrow> nat \<Rightarrow> unit result" where
  "ensure c n = (if remaining c < n then Err eof_error else Ok ())"

definition read_u8 :: "Cursor \<Rightarrow> (u8 \<times> Cursor) result" where
  "read_u8 c = and_then (ensure c 1) (\<lambda>_.
     Ok (cur_buf c ! cur_pos c, advance c 1))"

definition read_u16 :: "Cursor \<Rightarrow> (u16 \<times> Cursor) result" where
  "read_u16 c = and_then (ensure c 2) (\<lambda>_.
     Ok (u16_from_be_bytes (cur_buf c ! cur_pos c) (cur_buf c ! (cur_pos c + 1)), advance c 2))"

definition read_u32 :: "Cursor \<Rightarrow> (u32 \<times> Cursor) result" where
  "read_u32 c = and_then (ensure c 4) (\<lambda>_.
     Ok (u32_from_be_bytes (cur_buf c ! cur_pos c) (cur_buf c ! (cur_pos c + 1))
           (cur_buf c ! (cur_pos c + 2)) (cur_buf c ! (cur_pos c + 3)), advance c 4))"

definition read_bytes :: "Cursor \<Rightarrow> nat \<Rightarrow> (bytes \<times> Cursor) result" where
  "read_bytes c n = and_then (ensure c n) (\<lambda>_.
     Ok (take n (drop (cur_pos c) (cur_buf c)), advance c n))"

lemma cursor_basics [simp]:
  "cur_buf (advance c n) = cur_buf c"
  "cur_pos (advance c n) = cur_pos c + n"
  "advance (advance c m) n = advance c (m + n)"
  "advance c 0 = c"
  "remaining_bytes (advance c n) = drop n (remaining_bytes c)"
  "remaining (advance c n) = remaining c - n"
  "remaining_bytes (Cursor_new bs) = bs"
  "remaining (Cursor_new bs) = length bs"
  "position (Cursor_new bs) = 0"
  "position (advance c n) = position c + n"
  by (simp_all add: advance_def remaining_bytes_def remaining_def Cursor_new_def position_def
      add.commute)

lemma advance_eq_iff [simp]: "advance c m = advance c n \<longleftrightarrow> m = n"
  by (metis add_left_cancel cursor_basics(2))

lemma advance_same [simp]: "c = advance c n \<longleftrightarrow> n = 0" "advance c n = c \<longleftrightarrow> n = 0"
  by (metis add_cancel_right_right cursor_basics(2,4))+

lemma length_remaining_bytes [simp]: "length (remaining_bytes c) = remaining c"
  by (simp add: remaining_bytes_def remaining_def)

lemma remaining_eq_append [simp]: "remaining_bytes c = xs @ ys \<Longrightarrow> remaining c = length xs + length ys"
  by (metis length_append length_remaining_bytes)

lemma remaining_eq_Cons: "remaining_bytes c = b # ys \<Longrightarrow> remaining c = Suc (length ys)"
  by (metis length_Cons length_remaining_bytes)

lemma nth_remaining: "i < remaining c \<Longrightarrow> cur_buf c ! (cur_pos c + i) = remaining_bytes c ! i"
  by (simp add: remaining_bytes_def remaining_def)

lemma read_u8_eq:
  "read_u8 c = (case remaining_bytes c of [] \<Rightarrow> Err eof_error | b # _ \<Rightarrow> Ok (b, advance c 1))"
proof (cases "remaining_bytes c")
  case Nil
  then have "remaining c = 0" by (metis length_remaining_bytes list.size(3))
  then show ?thesis using Nil by (simp add: read_u8_def ensure_def)
next
  case (Cons b bs)
  then have "0 < remaining c" by (simp add: remaining_eq_Cons)
  then show ?thesis
    using Cons nth_remaining [of 0 c] by (simp add: read_u8_def ensure_def)
qed

lemma read_bytes_eq:
  "read_bytes c n =
     (if remaining c < n then Err eof_error else Ok (take n (remaining_bytes c), advance c n))"
  by (simp add: read_bytes_def ensure_def remaining_bytes_def)

lemma read_u16_eq:
  "read_u16 c =
     (if remaining c < 2 then Err eof_error
      else Ok (u16_from_be_bytes (remaining_bytes c ! 0) (remaining_bytes c ! 1), advance c 2))"
  using nth_remaining [of 0 c] nth_remaining [of 1 c] by (simp add: read_u16_def ensure_def)

lemma read_u32_eq:
  "read_u32 c =
     (if remaining c < 4 then Err eof_error
      else Ok (u32_from_be_bytes (remaining_bytes c ! 0) (remaining_bytes c ! 1)
                 (remaining_bytes c ! 2) (remaining_bytes c ! 3), advance c 4))"
  using nth_remaining [of 0 c] nth_remaining [of 1 c] nth_remaining [of 2 c] nth_remaining [of 3 c]
  by (simp add: read_u32_def ensure_def)

section \<open>The contract of a read\<close>

locale reader =
  fixes get :: "Cursor \<Rightarrow> ('a \<times> Cursor) result"
  assumes get_advance: "get c = Ok (x, c') \<Longrightarrow> \<exists>n \<le> remaining c. c' = advance c n"
    and get_extend: "get c = Ok (x, advance c n) \<Longrightarrow> remaining_bytes d = remaining_bytes c @ ys
          \<Longrightarrow> get d = Ok (x, advance d n)"
begin

lemma get_bounds:
  assumes "get c = Ok (x, c')" and "cur_pos c \<le> length (cur_buf c)"
  shows "cur_buf c' = cur_buf c \<and> cur_pos c \<le> cur_pos c' \<and> cur_pos c' \<le> length (cur_buf c')"
  using get_advance [OF assms(1)] assms(2) by (auto simp: remaining_def)

lemma get_cases:
  assumes "get c = Ok (x, c')"
  obtains n where "c' = advance c n" "n \<le> remaining c" "get c = Ok (x, advance c n)"
  using get_advance [OF assms] assms by auto

lemma get_suffix:
  assumes "get c = Ok (x, advance c n)" and "remaining_bytes d = remaining_bytes c"
  shows "get d = Ok (x, advance d n)"
  using get_extend [OF assms(1), of d "[]"] assms(2) by simp

end

text \<open>
  Most reads can only fail for want of data; any other error is final.
\<close>

locale stream_reader = reader +
  assumes get_error: "get c = Err e \<Longrightarrow> e \<noteq> eof_error \<Longrightarrow> remaining_bytes d = remaining_bytes c @ ys
          \<Longrightarrow> get d = Err e"
begin

lemma get_more_data:
  assumes "remaining_bytes d = remaining_bytes c @ ys" and "get c \<noteq> Err eof_error"
  shows "get d = (case get c of Inl e \<Rightarrow> Err e | Inr (x, c') \<Rightarrow> Ok (x, advance d (cur_pos c' - cur_pos c)))"
proof (cases "get c")
  case (Inl e)
  then show ?thesis using get_error [OF Inl _ assms(1)] assms(2) by auto
next
  case (Inr p)
  obtain x c' where p: "p = (x, c')" by (cases p)
  from get_advance [of c x c'] Inr p obtain n where n: "c' = advance c n" by auto
  then show ?thesis using get_extend [of c x n, OF _ assms(1)] Inr p by simp
qed

end

text \<open>The contract is kept by sequencing, so composed reads inherit it.\<close>

lemma reader_bind:
  assumes f: "reader f" and g: "\<And>x. reader (g x)"
  shows "reader (\<lambda>c. and_then (f c) (\<lambda>(x, c). g x c))"
proof (unfold_locales, goal_cases)
  case (1 c y c')
  then obtain x c1 where 1: "f c = Ok (x, c1)" "g x c1 = Ok (y, c')"
    by (auto simp: result_iffs)
  obtain m where m: "m \<le> remaining c" "c1 = advance c m" using reader.get_advance [OF f 1(1)] by auto
  obtain n where n: "n \<le> remaining c1" "c' = advance c1 n" using reader.get_advance [OF g 1(2)] by auto
  from m n show ?case by (intro exI [of _ "m + n"]) auto
next
  case (2 c y k d ys)
  then obtain x c1 where 1: "f c = Ok (x, c1)" "g x c1 = Ok (y, advance c k)"
    by (auto simp: result_iffs)
  obtain m where m: "m \<le> remaining c" "c1 = advance c m" using reader.get_advance [OF f 1(1)] by auto
  obtain n where n: "n \<le> remaining c1" "advance c k = advance c1 n" using reader.get_advance [OF g 1(2)] by auto
  have k: "k = m + n" using m n by simp
  have "f d = Ok (x, advance d m)" using reader.get_extend [OF f _ 2(2)] 1(1) m(2) by simp
  moreover have "remaining_bytes (advance d m) = remaining_bytes c1 @ ys"
    using 2(2) m by simp
  then have "g x (advance d m) = Ok (y, advance (advance d m) n)"
    using reader.get_extend [OF g, of x c1 y n "advance d m" ys] 1(2) n(2) by simp
  ultimately show ?case using k by simp
qed

lemma stream_reader_bind:
  assumes f: "stream_reader f" and g: "\<And>x. stream_reader (g x)"
  shows "stream_reader (\<lambda>c. and_then (f c) (\<lambda>(x, c). g x c))"
proof -
  have rf: "reader f" and rg: "\<And>x. reader (g x)"
    using f g by (simp_all add: stream_reader_def)
  show ?thesis
  proof (rule stream_reader.intro)
    show "reader (\<lambda>c. and_then (f c) (\<lambda>(x, c). g x c))"
      using rf rg by (rule reader_bind)
  next
    show "stream_reader_axioms (\<lambda>c. and_then (f c) (\<lambda>(x, c). g x c))"
    proof (rule stream_reader_axioms.intro)
      fix c e d ys
      assume err: "and_then (f c) (\<lambda>(x, c). g x c) = Err e" and ne: "e \<noteq> eof_error"
        and d: "remaining_bytes d = remaining_bytes c @ ys"
      show "and_then (f d) (\<lambda>(x, c). g x c) = Err e"
      proof (cases "f c")
        case (Inl a)
        then show ?thesis using err stream_reader.get_error [OF f Inl _ d] ne by simp
      next
        case (Inr p)
        obtain x c1 where p: "p = (x, c1)" by (cases p)
        with Inr err have gx: "g x c1 = Err e" by simp
        from reader.get_advance [OF rf, of c x c1] Inr p obtain m
          where m: "m \<le> remaining c" "c1 = advance c m" by auto
        have "f d = Ok (x, advance d m)" using reader.get_extend [OF rf _ d] Inr p m by simp
        moreover have "remaining_bytes (advance d m) = remaining_bytes c1 @ ys" using d m by simp
        then have "g x (advance d m) = Err e" using stream_reader.get_error [OF g gx ne] by simp
        ultimately show ?thesis by simp
      qed
    qed
  qed
qed

lemma stream_reader_pure: "stream_reader (\<lambda>c. Ok (y, c))"
  by unfold_locales auto

lemma stream_reader_fail: "stream_reader (\<lambda>c. Err e)"
  by unfold_locales auto

lemma stream_reader_lift: "(\<And>x. stream_reader (g x)) \<Longrightarrow> stream_reader (\<lambda>c. and_then r (\<lambda>x. g x c))"
  by (cases r) (simp_all add: stream_reader_fail)

lemma stream_reader_if:
  "stream_reader f \<Longrightarrow> stream_reader g \<Longrightarrow> stream_reader (\<lambda>c. if b then f c else g c)"
  by (cases b) simp_all

lemmas stream_reader_intros =
  stream_reader_bind stream_reader_pure stream_reader_fail stream_reader_if stream_reader_lift

interpretation u8: stream_reader read_u8
  by unfold_locales (auto simp: read_u8_eq remaining_eq_Cons  split: list.splits intro!: exI [of _ "Suc 0"])

interpretation u16: stream_reader read_u16
  by unfold_locales (auto simp: read_u16_eq nth_append remaining_eq_append split: if_splits)

interpretation u32: stream_reader read_u32
  by unfold_locales (auto simp: read_u32_eq nth_append remaining_eq_append split: if_splits)

interpretation raw: stream_reader "\<lambda>c. read_bytes c n"
  by unfold_locales (auto simp: read_bytes_eq remaining_eq_append split: if_splits)

section \<open>Variable-length integers, strings and binary data\<close>

text \<open>
  The loop of \<^verbatim>\<open>read_variable_int\<close>.  The arithmetic is that of \<^verbatim>\<open>u32\<close>; that it never wraps is
  proved below.
\<close>

function read_variable_int_loop :: "Cursor \<Rightarrow> u32 \<Rightarrow> u32 \<Rightarrow> (u32 \<times> Cursor) result" where
  "read_variable_int_loop c value multiplier =
     and_then (read_u8 c) (\<lambda>(byte, c').
       let value' = value + (ucast byte AND 0x7F) * multiplier
       in if byte AND 0x80 = 0 then Ok (value', c')
          else
            let multiplier' = multiplier * 128
            in if multiplier' > 128 * 128 * 128
               then Err (MalformedPacket ''variable int too long'')
               else read_variable_int_loop c' value' multiplier')"
  by pat_completeness auto
termination
proof (relation "measure (\<lambda>(c, value, multiplier). remaining c)", goal_cases)
  case (2 c v m x byte c' v' m')
  then show ?case by (auto simp: read_u8_eq remaining_eq_Cons split: list.splits)
qed simp

declare read_variable_int_loop.simps [simp del]

definition read_variable_int :: "Cursor \<Rightarrow> (u32 \<times> Cursor) result" where
  "read_variable_int c = read_variable_int_loop c 0 1"

definition read_string :: "Cursor \<Rightarrow> (rstr \<times> Cursor) result" where
  "read_string c =
     and_then (read_u16 c) (\<lambda>(len, c).
     and_then (read_bytes c (unat len)) (\<lambda>(bs, c).
       if 0 \<in> set bs then Err (MalformedPacket ''MQTT string contains null'')
       else if utf8_valid bs then Ok (bs, c)
       else Err (MalformedPacket ''invalid UTF-8'')))"

definition read_binary :: "Cursor \<Rightarrow> (bytes \<times> Cursor) result" where
  "read_binary c =
     and_then (read_u16 c) (\<lambda>(len, c).
     and_then (read_bytes c (unat len)) (\<lambda>(bs, c). Ok (bs, c)))"

lemma and_0x80_eq_0: "(b :: u8) AND 0x80 = 0 \<longleftrightarrow> unat b < 128"
proof -
  have "b AND 0x80 = 0 \<longleftrightarrow> \<not> bit b 7"
    using and_exp_eq_0_iff_not_bit [of b 7] by simp
  also have "\<dots> \<longleftrightarrow> \<not> bit (unat b) 7"
    by (simp add: bit_unsigned_iff)
  also have "\<dots> \<longleftrightarrow> unat b div 128 = 0"
  proof -
    have "unat b div 128 < 2"
      using unat_u8_bound [of b] by (intro less_mult_imp_div_less) simp
    then have "unat b div 128 = 0 \<or> unat b div 128 = 1" by arith
    then show ?thesis by (auto simp: bit_nat_def)
  qed
  also have "\<dots> \<longleftrightarrow> unat b < 128" by (simp add: div_eq_0_iff)
  finally show ?thesis .
qed

text \<open>
  The reference parser of a variable-length integer works on natural numbers, with the number of
  further bytes it may read; the cursor's loop computes the same value without wrapping around.
\<close>

fun vint_parse :: "nat \<Rightarrow> bytes \<Rightarrow> (nat \<times> nat) result" where
  "vint_parse n [] = Err eof_error"
| "vint_parse n (b # bs) =
    (if unat b < 128 then Ok (unat b, 1)
     else case n of
       0 \<Rightarrow> Err (MalformedPacket ''variable int too long'')
     | Suc m \<Rightarrow> and_then (vint_parse m bs) (\<lambda>(v, len). Ok (unat b mod 128 + 128 * v, Suc len)))"

lemma vint_parse_bounds:
  "vint_parse n bs = Ok (v, len) \<Longrightarrow> v < 128 ^ Suc n \<and> 0 < len \<and> len \<le> Suc n \<and> len \<le> length bs"
proof (induction n bs arbitrary: v len rule: vint_parse.induct)
  case (2 n b bs)
  show ?case
  proof (cases "unat b < 128")
    case True
    have "(1::nat) \<le> 128 ^ n" by simp
    then have "128 \<le> (128::nat) ^ Suc n" by (metis mult.right_neutral mult_le_mono2 power_Suc)
    with True 2 show ?thesis by auto
  next
    case False
    with 2 obtain m v' len' where m: "n = Suc m" and p: "vint_parse m bs = Ok (v', len')"
      and v: "v = unat b mod 128 + 128 * v'" and len: "len = Suc len'"
      by (auto simp: result_iffs split: nat.splits)
    from 2(1) [OF False m p] have IH: "v' < 128 ^ Suc m" "0 < len'" "len' \<le> Suc m" "len' \<le> length bs"
      by auto
    have "128 * (v' + 1) \<le> 128 * 128 ^ Suc m"
      using IH(1) by (intro mult_le_mono2) simp
    moreover have "unat b mod 128 + 128 * v' < 128 * (v' + 1)" by simp
    ultimately have "unat b mod 128 + 128 * v' < 128 ^ Suc n"
      unfolding m power_Suc [of _ "Suc m"] by (rule order.strict_trans2 [rotated])
    with IH m v len show ?thesis by simp
  qed
qed simp

lemma vint_multiplier_gt:
  "k \<le> 3 \<Longrightarrow> (128 * 128 * 128 :: u32) < word_of_nat (128 ^ k) * 128 \<longleftrightarrow> k = 3"
  by (cases "k = 0"; cases "k = 1"; cases "k = 2"; cases "k = 3") (auto simp: numeral_3_eq_3)

lemma read_variable_int_loop_eq:
  assumes "k + n = 3"
  shows "read_variable_int_loop c v (word_of_nat (128 ^ k)) =
    and_then (vint_parse n (remaining_bytes c)) (\<lambda>(w, len).
      Ok (v + word_of_nat (w * 128 ^ k), advance c len))"
  using assms
proof (induction n arbitrary: c v k)
  case 0
  then have "k = 3" by simp
  have m: "((128 * 128 * 128) :: u32) < word_of_nat (128 ^ k) * 128" using vint_multiplier_gt [of k] \<open>k = 3\<close> by simp
  have d: "ucast b AND 0x7F = (word_of_nat (unat b mod 128) :: u32)" for b :: u8
    by (rule word_unat_eq_iff [THEN iffD2]) (simp add: word_to_nat)
  show ?case
    using m
    by (subst read_variable_int_loop.simps)
       (auto simp: read_u8_eq and_0x80_eq_0 d  split: list.splits)
next
  case (Suc n)
  then have m: "\<not> ((128 * 128 * 128) :: u32) < word_of_nat (128 ^ k) * 128"
    using vint_multiplier_gt [of k] by auto
  have d: "ucast b AND 0x7F = (word_of_nat (unat b mod 128) :: u32)" for b :: u8
    by (rule word_unat_eq_iff [THEN iffD2]) (simp add: word_to_nat)
  have e: "word_of_nat (128 ^ k) * 128 = (word_of_nat (128 ^ Suc k) :: u32)" by simp
  show ?case
  proof (cases "remaining_bytes c")
    case Nil
    then show ?thesis by (subst read_variable_int_loop.simps) (simp add: read_u8_eq)
  next
    case (Cons b bs)
    have "read_variable_int_loop c v (word_of_nat (128 ^ k)) =
      (if unat b < 128 then Ok (v + word_of_nat (unat b * 128 ^ k), advance c 1)
       else read_variable_int_loop (advance c 1) (v + word_of_nat (unat b mod 128 * 128 ^ k)) (word_of_nat (128 ^ Suc k)))"
      using m Cons unfolding e
      by (subst read_variable_int_loop.simps) (auto simp add: read_u8_eq and_0x80_eq_0 d Let_def mult.commute)
    moreover have "read_variable_int_loop (advance c 1) (v + word_of_nat (unat b mod 128 * 128 ^ k)) (word_of_nat (128 ^ Suc k))
      = and_then (vint_parse n bs) (\<lambda>(w, len). Ok (v + word_of_nat ((unat b mod 128 + 128 * w) * 128 ^ k), advance c (Suc len)))"
      using Suc.IH [of "Suc k" "advance c 1"] Suc.prems Cons
      by (auto simp: and_then_def algebra_simps split: sum.splits)
    ultimately show ?thesis using Cons
      by (auto simp: and_then_def split: sum.splits)
  qed
qed

lemma read_variable_int_eq:
  "read_variable_int c =
     and_then (vint_parse 3 (remaining_bytes c)) (\<lambda>(v, len). Ok (word_of_nat v, advance c len))"
  using read_variable_int_loop_eq [of 0 3 c 0]
  by (simp add: read_variable_int_def cong del: and_then_weak_cong)

lemma vint_parse_extend: "vint_parse n bs = Ok p \<Longrightarrow> vint_parse n (bs @ ys) = Ok p"
proof (induction n bs arbitrary: p rule: vint_parse.induct)
  case (2 n b bs)
  then show ?case by (cases n) (auto simp: result_iffs split: if_splits)
qed simp

lemma vint_parse_error:
  "vint_parse n bs = Err e \<Longrightarrow> e \<noteq> eof_error \<Longrightarrow> vint_parse n (bs @ ys) = Err e"
proof (induction n bs rule: vint_parse.induct)
  case (2 n b bs)
  then show ?case by (cases n) (auto simp: result_iffs split: if_splits)
qed simp

interpretation vint: stream_reader read_variable_int
proof (unfold_locales, goal_cases)
  case (1 c x c')
  then show ?case by (auto simp: read_variable_int_eq result_iffs dest!: vint_parse_bounds)
next
  case (2 c x n d ys)
  then show ?case by (auto simp: read_variable_int_eq result_iffs dest: vint_parse_extend)
next
  case (3 c e d ys)
  then show ?case by (auto simp: read_variable_int_eq result_iffs dest: vint_parse_error)
qed

interpretation str: stream_reader read_string
  unfolding read_string_def
  by (intro stream_reader_intros u16.stream_reader_axioms raw.stream_reader_axioms)

interpretation bin: stream_reader read_binary
  unfolding read_binary_def
  by (intro stream_reader_intros u16.stream_reader_axioms raw.stream_reader_axioms)

section \<open>Fixed header\<close>

definition validate_fixed_header :: "FixedHeader \<Rightarrow> unit result" where
  "validate_fixed_header header =
    (case packet_type header of
       PT_Publish \<Rightarrow>
         (let qos = drop_bit 1 (flags header) AND 0x03
          in if qos = 0x03 then Err (InvalidQoS qos)
             else if qos = 0 \<and> flags header AND 0x08 \<noteq> 0
                  then Err (MalformedPacket ''QoS 0 PUBLISH has DUP flag'')
             else Ok ())
     | t \<Rightarrow>
         (let expected = (if t = PT_PubRel \<or> t = PT_Subscribe \<or> t = PT_Unsubscribe then 0x02 else 0x00)
          in if flags header \<noteq> expected
             then Err (MalformedPacket ''invalid fixed-header flags'')
             else Ok ()))"

definition decode_fixed_header :: "bytes \<Rightarrow> (FixedHeader \<times> nat) result" where
  "decode_fixed_header data =
     and_then (read_u8 (Cursor_new data)) (\<lambda>(first_byte, cur).
     and_then (PacketType_from_u8 (drop_bit 4 first_byte)) (\<lambda>ptype.
     let fl = first_byte AND 0x0F in
     and_then (read_variable_int cur) (\<lambda>(len, cur).
     let header = \<lparr>packet_type = ptype, flags = fl, remaining_length = len\<rparr> in
     and_then (validate_fixed_header header) (\<lambda>_.
     Ok (header, position cur)))))"


text \<open>The fixed header as one read, and how it behaves when more bytes arrive.\<close>

definition read_fixed_header :: "Cursor \<Rightarrow> (FixedHeader \<times> Cursor) result" where
  "read_fixed_header c =
     and_then (read_u8 c) (\<lambda>(first_byte, c).
     and_then (PacketType_from_u8 (drop_bit 4 first_byte)) (\<lambda>ptype.
     and_then (read_variable_int c) (\<lambda>(len, c).
     and_then (validate_fixed_header
         \<lparr>packet_type = ptype, flags = first_byte AND 0x0F, remaining_length = len\<rparr>) (\<lambda>_.
     Ok (\<lparr>packet_type = ptype, flags = first_byte AND 0x0F, remaining_length = len\<rparr>, c)))))"

lemma decode_fixed_header_eq:
  "decode_fixed_header data =
     and_then (read_fixed_header (Cursor_new data)) (\<lambda>(header, c). Ok (header, position c))"
  by (auto simp: decode_fixed_header_def read_fixed_header_def and_then_def Let_def
      split: sum.splits)

interpretation fh: stream_reader read_fixed_header
  unfolding read_fixed_header_def
  by (intro stream_reader_intros u8.stream_reader_axioms vint.stream_reader_axioms)

lemma vint_parse_eof: "vint_parse n bs = Err eof_error \<Longrightarrow> length bs \<le> n"
  by (induction n bs rule: vint_parse.induct) (auto simp: result_iffs eof_error_def split: if_splits nat.splits)

lemma decode_fixed_header_eof:
  assumes "decode_fixed_header data = Err eof_error"
  shows "length data < 5"
proof (cases data)
  case (Cons b bs)
  have v: "validate_fixed_header h \<noteq> Err eof_error" for h
    by (auto simp: validate_fixed_header_def eof_error_def Let_def split: PacketType.splits)
  have "vint_parse 3 bs = Err eof_error"
    using assms Cons v
    by (auto simp: decode_fixed_header_def read_u8_eq result_iffs PacketType_from_u8_Err read_variable_int_eq
        eof_error_def Let_def)
  then show ?thesis using vint_parse_eof [of 3 bs] Cons by simp
qed simp

lemmas [eval_defs] = read_u8_eq read_u16_eq read_u32_eq read_bytes_eq read_variable_int_eq
  Cursor_new_def remaining_bytes_def remaining_def position_def advance_def

end
