(* ===== verification/Encode.thy ===== *)
theory Encode
  imports Decode
begin

unbundle bit_operations_syntax

text \<open>
  The wire encoders of \<^verbatim>\<open>src/codec/encode.rs\<close>: an encoder takes the buffer it appends to and
  returns the extended buffer.  The locale \<open>field_codec\<close> is the contract between an encoder and
  the decoder of the same field (append only, read back what was written, whatever follows); it
  is interpreted for variable-length integers, 16-bit integers, strings and binary data, and
  gives each of them the round trip and the prefix property.
\<close>

section \<open>Encoders\<close>

definition VARIABLE_INT_MAX :: u32 where
  "VARIABLE_INT_MAX = 268435455"

text \<open>The loop of \<^verbatim>\<open>encode_variable_int\<close>: seven bits per byte, low bits first.\<close>

function encode_variable_int_loop :: "bytes \<Rightarrow> u32 \<Rightarrow> bytes" where
  "encode_variable_int_loop buf value =
    (let byte = (ucast (value AND 0x7F) :: u8);
         value' = drop_bit 7 value;
         byte' = (if value' > 0 then byte OR 0x80 else byte);
         buf' = buf @ [byte']
     in if value' = 0 then buf' else encode_variable_int_loop buf' value')"
  by pat_completeness auto
termination
proof (relation "measure (\<lambda>(buf, value). unat value)", goal_cases)
  case (2 buf v byte v' byte' buf')
  then have "unat (drop_bit 7 v) \<noteq> 0"
    by (simp add: unat_eq_zero)
  then show ?case
    using 2 by (simp add: unat_drop_bit)
qed simp

declare encode_variable_int_loop.simps [simp del]

definition encode_variable_int :: "bytes \<Rightarrow> u32 \<Rightarrow> bytes result" where
  "encode_variable_int buf value =
    (if value > VARIABLE_INT_MAX
     then Err (PacketTooLarge (unat value) (unat VARIABLE_INT_MAX))
     else Ok (encode_variable_int_loop buf value))"

definition variable_int_len :: "u32 \<Rightarrow> nat" where
  "variable_int_len value =
    (if value \<le> 127 then 1
     else if value \<le> 16383 then 2
     else if value \<le> 2097151 then 3
     else 4)"

definition encode_string :: "bytes \<Rightarrow> rstr \<Rightarrow> bytes result" where
  "encode_string buf s =
    (let len = length s
     in if len > 65535 then Err (StringTooLong len)
        else if 0 \<in> set s then Err (MalformedPacket ''MQTT string contains null'')
        else Ok (buf @ u16_to_be_bytes (word_of_nat len) @ s))"

definition encode_binary :: "bytes \<Rightarrow> bytes \<Rightarrow> bytes result" where
  "encode_binary buf data =
    (let len = length data
     in if len > 65535 then Err (BinaryTooLong len)
        else Ok (buf @ u16_to_be_bytes (word_of_nat len) @ data))"

definition encode_u16 :: "bytes \<Rightarrow> u16 \<Rightarrow> bytes" where
  "encode_u16 buf val = buf @ u16_to_be_bytes val"

definition encode_fixed_header :: "bytes \<Rightarrow> PacketType \<Rightarrow> u8 \<Rightarrow> u32 \<Rightarrow> bytes result" where
  "encode_fixed_header buf ptype fl len =
    (if fl > 0x0F then Err (MalformedPacket ''fixed-header flags exceed four bits'')
     else
       and_then (validate_fixed_header
           \<lparr>packet_type = ptype, flags = fl, remaining_length = len\<rparr>) (\<lambda>_.
       let type_byte = push_bit 4 (PacketType_as_u8 ptype) OR fl
       in encode_variable_int (buf @ [type_byte]) len))"

definition string_len :: "rstr \<Rightarrow> nat" where
  "string_len s = 2 + length s"

definition binary_len :: "bytes \<Rightarrow> nat" where
  "binary_len data = 2 + length data"

section \<open>Variable-length integers against a reference\<close>

text \<open>The digits of a number to the base 128, least significant first, all but the last marked.\<close>

fun vint_bytes :: "nat \<Rightarrow> bytes" where
  "vint_bytes n =
    (if n < 128 then [word_of_nat n] else word_of_nat (n mod 128 + 128) # vint_bytes (n div 128))"

declare vint_bytes.simps [simp del]

lemma unat_or_0x80: "unat b < 128 \<Longrightarrow> (b :: u8) OR 0x80 = word_of_nat (unat b + 128)"
proof -
  assume "unat b < 128"
  then have "b AND 0x80 = 0" by (simp add: and_0x80_eq_0)
  then have "b OR 0x80 = b + 0x80" by (metis disjunctive_add_eq_or)
  then show ?thesis by simp
qed

lemma encode_variable_int_loop_eq: "encode_variable_int_loop buf v = buf @ vint_bytes (unat v)"
proof (induction buf v rule: encode_variable_int_loop.induct)
  case (1 buf v)
  have d: "unat (drop_bit 7 v) = unat v div 128" by (simp add: unat_drop_bit)
  have z: "drop_bit 7 v = 0 \<longleftrightarrow> unat v < 128"
    using d by (metis div_eq_0_iff unat_eq_zero zero_neq_numeral)
  have b: "(ucast (v AND 0x7F) :: u8) = word_of_nat (unat v mod 128)"
    by (rule word_unat_eq_iff [THEN iffD2]) (simp add: word_to_nat unsigned_of_nat take_bit_nat_eq_self mod_less_divisor)
  show ?case
  proof (cases "unat v < 128")
    case True
    then show ?thesis using z b
      by (subst encode_variable_int_loop.simps) (simp add: vint_bytes.simps [of "unat v"] Let_def)
  next
    case False
    then have "encode_variable_int_loop buf v =
        encode_variable_int_loop (buf @ [word_of_nat (unat v mod 128 + 128)]) (drop_bit 7 v)"
      using z b unat_or_0x80 [of "word_of_nat (unat v mod 128)"]
      by (subst encode_variable_int_loop.simps) 
         (simp add: Let_def word_neq_0_conv [symmetric] unsigned_of_nat take_bit_nat_eq_self)
    also have "\<dots> = buf @ [word_of_nat (unat v mod 128 + 128)] @ vint_bytes (unat (drop_bit 7 v))"
      using 1 [OF refl refl refl refl] False z b unat_or_0x80 [of "word_of_nat (unat v mod 128)"]
      by (simp add: word_neq_0_conv [symmetric] unsigned_of_nat take_bit_nat_eq_self)
    finally show ?thesis using False d
      by (simp add: vint_bytes.simps [of "unat v"])
  qed
qed

lemma vint_parse_vint_bytes:
  "n < 128 ^ Suc k \<Longrightarrow> vint_parse k (vint_bytes n @ rest) = Ok (n, length (vint_bytes n))"
proof (induction k arbitrary: n)
  case 0
  then show ?case
    by (subst (1 2) vint_bytes.simps) (simp add: unsigned_of_nat take_bit_nat_eq_self)
next
  case (Suc k)
  show ?case
  proof (cases "n < 128")
    case True
    then show ?thesis
      by (subst (1 2) vint_bytes.simps) (simp add: unsigned_of_nat take_bit_nat_eq_self)
  next
    case False
    have "n div 128 < 128 ^ Suc k"
      using Suc.prems by (intro less_mult_imp_div_less) simp
    then have IH: "vint_parse k (vint_bytes (n div 128) @ rest)
        = Ok (n div 128, length (vint_bytes (n div 128)))"
      by (rule Suc.IH)
    have b: "unat (word_of_nat (n mod 128 + 128) :: u8) = n mod 128 + 128"
    proof -
      have "n mod 128 + 128 < 256"
        using mod_less_divisor [of 128 n] by linarith
      then show ?thesis by (rule unat_u8_of_nat)
    qed
    have "vint_bytes n = word_of_nat (n mod 128 + 128) # vint_bytes (n div 128)"
      using False by (simp add: vint_bytes.simps [of n])
    then show ?thesis
      using IH by (simp add: b del: of_nat_add)
  qed
qed

lemma length_vint_bytes:
  "n < 2 ^ 28 \<Longrightarrow> length (vint_bytes n) =
     (if n \<le> 127 then 1 else if n \<le> 16383 then 2 else if n \<le> 2097151 then 3 else 4)"
proof -
  assume n: "n < 2 ^ 28"
  have 1: "length (vint_bytes k) = 1" if "k < 128" for k
    using that by (simp add: vint_bytes.simps [of k])
  have s: "length (vint_bytes k) = Suc (length (vint_bytes (k div 128)))" if "128 \<le> k" for k
    using that by (simp add: vint_bytes.simps [of k])
  have 2: "length (vint_bytes k) = 2" if "128 \<le> k" "k < 16384" for k
    using that s [of k] 1 [of "k div 128"] by (simp add: div_less_iff_less_mult)
  have 3: "length (vint_bytes k) = 3" if "16384 \<le> k" "k < 2097152" for k
    using that s [of k] 2 [of "k div 128"] by (simp add: div_less_iff_less_mult less_eq_div_iff_mult_less_eq)
  have 4: "length (vint_bytes k) = 4" if "2097152 \<le> k" "k < 268435456" for k
    using that s [of k] 3 [of "k div 128"] by (simp add: div_less_iff_less_mult less_eq_div_iff_mult_less_eq)
  show ?thesis
    using n 1 [of n] 2 [of n] 3 [of n] 4 [of n] by (auto simp: not_le)
qed

text \<open>The encoder writes the shortest form, so no accepted encoding is shorter.\<close>

lemma vint_parse_minimal: "vint_parse k bs = Ok (v, len) \<Longrightarrow> length (vint_bytes v) \<le> len"
proof (induction k bs arbitrary: v len rule: vint_parse.induct)
  case (2 k b bs)
  show ?case
  proof (cases "unat b < 128")
    case True
    then show ?thesis using 2 by (auto simp: vint_bytes.simps [of v])
  next
    case False
    with 2 obtain m v' len' where m: "k = Suc m" and p: "vint_parse m bs = Ok (v', len')"
      and v: "v = unat b mod 128 + 128 * v'" and len: "len = Suc len'"
      by (auto simp: result_iffs split: nat.splits)
    have "(unat b mod 128 + 128 * v') div 128 = v'" by simp
    then have "length (vint_bytes v) \<le> Suc (length (vint_bytes v'))"
      unfolding v by (subst vint_bytes.simps) simp
    then show ?thesis using 2(1) [OF False m p] len by simp
  qed
qed simp

lemma length_vint_bytes_mono: "m \<le> n \<Longrightarrow> n < 2 ^ 28 \<Longrightarrow> length (vint_bytes m) \<le> length (vint_bytes n)"
  by (simp add: length_vint_bytes)

lemma VARIABLE_INT_MAX_unat: "v > VARIABLE_INT_MAX \<longleftrightarrow> 2 ^ 28 \<le> unat v"
  by (auto simp: VARIABLE_INT_MAX_def word_less_nat_alt)

lemma encode_variable_int_eq:
  "encode_variable_int buf v =
     (if unat v < 2 ^ 28 then Ok (buf @ vint_bytes (unat v))
      else Err (PacketTooLarge (unat v) 268435455))"
  by (simp add: encode_variable_int_def VARIABLE_INT_MAX_unat encode_variable_int_loop_eq not_less)
    (simp add: VARIABLE_INT_MAX_def)

lemma variable_int_len_eq: "unat v < 2 ^ 28 \<Longrightarrow> variable_int_len v = length (vint_bytes (unat v))"
  by (simp add: length_vint_bytes variable_int_len_def word_le_nat_alt)

section \<open>The contract of a field codec\<close>

locale field_codec = reader get
  for get :: "Cursor \<Rightarrow> ('a \<times> Cursor) result" +
  fixes wf :: "'a \<Rightarrow> bool"
    and put :: "bytes \<Rightarrow> 'a \<Rightarrow> bytes result"
  assumes put_append: "put buf x = and_then (put [] x) (\<lambda>bs. Ok (buf @ bs))"
    and get_put: "wf x \<Longrightarrow> put [] x = Ok bs \<Longrightarrow> remaining_bytes c = bs @ rest
          \<Longrightarrow> get c = Ok (x, advance c (length bs))"
begin

lemma put_OkD:
  assumes "put buf x = Ok buf'"
  obtains bs where "put [] x = Ok bs" "buf' = buf @ bs"
  using assms put_append [of buf x] by (auto simp: result_iffs)

lemma put_Ok_iff: "put buf x = Ok buf' \<longleftrightarrow> (\<exists>bs. put [] x = Ok bs \<and> buf' = buf @ bs)"
  using put_append [of buf x] by (auto simp: result_iffs)

text \<open>What was written behind a buffer is read back by a cursor that stands at its end.\<close>

lemma get_written:
  assumes "wf x" and "put buf x = Ok buf'"
  shows "get \<lparr>cur_buf = buf' @ rest, cur_pos = length buf\<rparr> =
           Ok (x, \<lparr>cur_buf = buf' @ rest, cur_pos = length buf'\<rparr>)"
proof -
  obtain bs where bs: "put [] x = Ok bs" "buf' = buf @ bs"
    using assms(2) by (rule put_OkD)
  show ?thesis
    using get_put [OF assms(1) bs(1), of "\<lparr>cur_buf = buf' @ rest, cur_pos = length buf\<rparr>" rest] bs(2)
    by (simp add: remaining_bytes_def advance_def)
qed

text \<open>No encoding is a prefix of another one: the field is self-delimiting.\<close>

lemma put_prefix_free:
  assumes "wf x" "wf y" "put [] x = Ok bs" "put [] y = Ok bs'" "bs @ r = bs' @ r'"
  shows "x = y \<and> bs = bs'"
proof -
  let ?c = "Cursor_new (bs @ r)"
  have "get ?c = Ok (x, advance ?c (length bs))"
    using get_put [OF assms(1,3), of ?c r] by simp
  moreover have "get ?c = Ok (y, advance ?c (length bs'))"
    using get_put [OF assms(2,4), of ?c r'] assms(5) by simp
  ultimately show ?thesis
    using assms(5) by simp
qed

end

interpretation vint_field: field_codec read_variable_int "\<lambda>_. True" encode_variable_int
proof (unfold_locales, goal_cases)
  case (2 v bs c rest)
  then show ?case
    using vint_parse_vint_bytes [of "unat v" 3 rest]
    by (auto simp: encode_variable_int_eq read_variable_int_eq split: if_splits)
qed (simp add: encode_variable_int_eq)

interpretation u16_field: field_codec read_u16 "\<lambda>_. True" "\<lambda>buf v. Ok (encode_u16 buf v)"
  by unfold_locales (auto simp: encode_u16_def read_u16_eq u16_to_be_bytes_def)

interpretation u32_field: field_codec read_u32 "\<lambda>_. True" "\<lambda>buf v. Ok (buf @ u32_to_be_bytes v)"
  by unfold_locales (auto simp: read_u32_eq u32_to_be_bytes_def)

interpretation u8_field: field_codec read_u8 "\<lambda>_. True" "\<lambda>buf v. Ok (buf @ [v])"
  by unfold_locales (auto simp: read_u8_eq)

lemma read_u16_be: "remaining_bytes c = u16_to_be_bytes v @ rest \<Longrightarrow> read_u16 c = Ok (v, advance c 2)"
  using u16_field.get_put [of v "u16_to_be_bytes v" c rest] by (simp add: encode_u16_def)

interpretation str_field: field_codec read_string utf8_valid encode_string
proof (unfold_locales, goal_cases)
  case (2 s bs c rest)
  then show ?case
    by (auto simp: encode_string_def read_string_def read_bytes_eq word_to_nat Let_def
        read_u16_be split: if_splits)
qed (simp add: encode_string_def Let_def)

interpretation bin_field: field_codec read_binary "\<lambda>_. True" encode_binary
proof (unfold_locales, goal_cases)
  case (2 s bs c rest)
  then show ?case
    by (auto simp: encode_binary_def read_binary_def read_bytes_eq word_to_nat Let_def
        read_u16_be split: if_splits)
qed (simp add: encode_binary_def Let_def)

section \<open>What a read consumed\<close>

text \<open>
  Reading inverts writing in the other direction too: the bytes consumed are the encoding of the
  value.
\<close>

definition consumed :: "Cursor \<Rightarrow> bytes \<Rightarrow> Cursor \<Rightarrow> bool" where
  "consumed c bs c' \<longleftrightarrow> take (length bs) (remaining_bytes c) = bs \<and> c' = advance c (length bs)"

lemma consumed_trans: "consumed c xs c1 \<Longrightarrow> consumed c1 ys c2 \<Longrightarrow> consumed c (xs @ ys) c2"
  by (simp add: consumed_def take_add)

lemma consumed_remaining: "consumed c bs c' \<Longrightarrow> length bs \<le> remaining c"
  unfolding consumed_def by (metis length_remaining_bytes length_take min.cobounded1)

lemma read_u8_consumed: "read_u8 c = Ok (b, c') \<Longrightarrow> consumed c [b] c'"
  by (auto simp: read_u8_eq consumed_def split: list.splits)

lemma read_u16_consumed: "read_u16 c = Ok (v, c') \<Longrightarrow> consumed c (u16_to_be_bytes v) c'"
  using take2 [of "remaining_bytes c"] by (auto simp: read_u16_eq consumed_def split: if_splits)

lemma read_u32_consumed: "read_u32 c = Ok (v, c') \<Longrightarrow> consumed c (u32_to_be_bytes v) c'"
  using take4 [of "remaining_bytes c"] by (auto simp: read_u32_eq consumed_def split: if_splits)

lemma read_bytes_consumed: "read_bytes c n = Ok (bs, c') \<Longrightarrow> consumed c bs c' \<and> length bs = n"
  by (auto simp: read_bytes_eq consumed_def split: if_splits)

lemma read_prefixed_consumed:
  assumes "read_u16 c = Ok (len, c1)" and "read_bytes c1 (unat len) = Ok (bs, c')"
  shows "length bs \<le> 65535 \<and> consumed c (u16_to_be_bytes (word_of_nat (length bs)) @ bs) c'"
proof -
  have "consumed c (u16_to_be_bytes len) c1" by (rule read_u16_consumed [OF assms(1)])
  moreover have "consumed c1 bs c'" "length bs = unat len"
    using read_bytes_consumed [OF assms(2)] by simp_all
  ultimately show ?thesis
    using unat_u16_bound [of len] by (auto intro: consumed_trans)
qed

lemma read_string_consumed:
  assumes "read_string c = Ok (s, c')"
  shows "\<exists>bs. encode_string [] s = Ok bs \<and> utf8_valid s \<and> consumed c bs c'"
proof -
  from assms obtain len c1 where r: "read_u16 c = Ok (len, c1)" "read_bytes c1 (unat len) = Ok (s, c')"
    and s: "0 \<notin> set s" "utf8_valid s"
    by (auto simp: read_string_def result_iffs split: if_splits)
  from read_prefixed_consumed [OF r] s show ?thesis
    by (auto simp: encode_string_def Let_def)
qed

lemma read_binary_consumed:
  assumes "read_binary c = Ok (s, c')"
  shows "\<exists>bs. encode_binary [] s = Ok bs \<and> consumed c bs c'"
proof -
  from assms obtain len c1 where r: "read_u16 c = Ok (len, c1)" "read_bytes c1 (unat len) = Ok (s, c')"
    by (auto simp: read_binary_def result_iffs)
  from read_prefixed_consumed [OF r] show ?thesis
    by (auto simp: encode_binary_def Let_def)
qed

section \<open>Fixed header\<close>

lemma bit_of_nibble:
  assumes "w \<le> (0x0F :: u8)" and "bit w n"
  shows "n < 4"
proof (rule ccontr)
  assume "\<not> n < 4"
  have "bit (unat w) n" using assms(2) by (simp add: bit_unsigned_iff)
  then have "odd (unat w div 2 ^ n)" by (simp add: bit_nat_def)
  moreover have "unat w < 2 ^ n"
  proof -
    have "unat w \<le> 15" using assms(1) by (simp add: word_le_nat_alt)
    also have "(15 :: nat) < 2 ^ 4" by simp
    also have "(2 :: nat) ^ 4 \<le> 2 ^ n" using \<open>\<not> n < 4\<close> by (intro power_increasing) auto
    finally show ?thesis .
  qed
  ultimately show False by simp
qed

definition type_byte :: "PacketType \<Rightarrow> u8 \<Rightarrow> u8" where
  "type_byte t fl = push_bit 4 (PacketType_as_u8 t) OR fl"

lemma type_byte_fields:
  assumes "fl \<le> 0x0F"
  shows "drop_bit 4 (type_byte t fl) = PacketType_as_u8 t"
    and "type_byte t fl AND 0x0F = fl"
proof -
  note fl = bit_of_nibble [OF assms]
  note tb = bit_of_nibble [OF PacketType_as_u8_range [of t, THEN conjunct2]]
  have m: "(0x0F :: u8) = mask 4" by (simp add: mask_eq_exp_minus_1)
  show "drop_bit 4 (type_byte t fl) = PacketType_as_u8 t"
    unfolding type_byte_def by (rule bit_word_eqI) (auto simp: bit_simps dest: fl tb)
  show "type_byte t fl AND 0x0F = fl"
    unfolding m type_byte_def by (rule bit_word_eqI) (auto simp: bit_simps dest: fl)
qed

text \<open>The header bytes, and that they are read back as the header they were written for.\<close>

definition header_bytes :: "PacketType \<Rightarrow> u8 \<Rightarrow> nat \<Rightarrow> bytes" where
  "header_bytes t fl n = type_byte t fl # vint_bytes n"

definition header_ok :: "PacketType \<Rightarrow> u8 \<Rightarrow> bool" where
  "header_ok t fl \<longleftrightarrow> fl \<le> 0x0F
     \<and> validate_fixed_header \<lparr>packet_type = t, flags = fl, remaining_length = 0\<rparr> = Ok ()"

lemma validate_fixed_header_any_length:
  "validate_fixed_header \<lparr>packet_type = t, flags = fl, remaining_length = n\<rparr> =
   validate_fixed_header \<lparr>packet_type = t, flags = fl, remaining_length = 0\<rparr>"
  by (cases t) (simp_all add: validate_fixed_header_def Let_def)

lemma encode_fixed_header_eq:
  "header_ok t fl \<Longrightarrow> encode_fixed_header buf t fl n =
     (if unat n < 2 ^ 28 then Ok (buf @ header_bytes t fl (unat n))
      else Err (PacketTooLarge (unat n) 268435455))"
  using validate_fixed_header_any_length [of t fl n]
  by (simp add: encode_fixed_header_def header_ok_def header_bytes_def encode_variable_int_eq
      type_byte_def not_less)

lemma encode_fixed_header_Ok:
  "encode_fixed_header buf t fl n = Ok buf' \<longleftrightarrow>
     header_ok t fl \<and> unat n < 2 ^ 28 \<and> buf' = buf @ header_bytes t fl (unat n)"
proof (cases "header_ok t fl")
  case True
  then show ?thesis by (auto simp: encode_fixed_header_eq)
next
  case False
  then show ?thesis
    using validate_fixed_header_any_length [of t fl n]
    by (auto simp: encode_fixed_header_def header_ok_def result_iffs not_less)
qed

lemma decode_header_bytes:
  assumes "header_ok t fl" and "n < 2 ^ 28"
  shows "decode_fixed_header (header_bytes t fl n @ rest) =
    Ok (\<lparr>packet_type = t, flags = fl, remaining_length = word_of_nat n\<rparr>, length (header_bytes t fl n))"
proof -
  have "fl \<le> 0x0F" using assms(1) by (simp add: header_ok_def)
  note tb = type_byte_fields [OF this]
  have "vint_parse 3 (vint_bytes n @ rest) = Ok (n, length (vint_bytes n))"
    using assms(2) by (intro vint_parse_vint_bytes) simp
  then show ?thesis
    using assms(1)
    by (simp add: decode_fixed_header_def header_bytes_def read_u8_eq tb read_variable_int_eq
        Let_def validate_fixed_header_any_length [of t fl "word_of_nat n"] header_ok_def)
qed

lemma length_header_bytes:
  "n < 2 ^ 28 \<Longrightarrow> 2 \<le> length (header_bytes t fl n) \<and> length (header_bytes t fl n) \<le> 5"
  by (simp add: header_bytes_def length_vint_bytes)

lemma nibble_cases:
  assumes "fl \<le> (0x0F :: u8)"
  shows "fl \<in> {0, 1, 2, 3, 4, 5, 6, 7, 8, 9, 10, 11, 12, 13, 14, 15}"
proof -
  have "unat fl < 16" using assms by (simp add: word_le_nat_alt)
  then have "unat fl \<in> set [0..<16]" by simp
  then have "word_of_nat (unat fl) \<in> (word_of_nat :: nat \<Rightarrow> u8) ` set [0..<16]" by (rule imageI)
  then show ?thesis by (simp add: upt_conv_Cons)
qed

lemma decode_fixed_header_sound:
  assumes "decode_fixed_header data = Ok (h, n)"
  shows "flags h \<le> 0x0F \<and> unat (remaining_length h) < 2 ^ 28 \<and> validate_fixed_header h = Ok ()
    \<and> 2 \<le> n \<and> n \<le> 5 \<and> n \<le> length data \<and> length (header_bytes (packet_type h) (flags h) (unat (remaining_length h))) \<le> n"
proof -
  from assms obtain b c1 t v c2 where r: "read_u8 (Cursor_new data) = Ok (b, c1)" "PacketType_from_u8 (drop_bit 4 b) = Ok t"
    "read_variable_int c1 = Ok (v, c2)" "h = \<lparr>packet_type = t, flags = b AND 0x0F, remaining_length = v\<rparr>"
    "validate_fixed_header h = Ok ()" "n = position c2"
    by (auto simp: decode_fixed_header_def result_iffs Let_def)
  from r(1) have c1: "c1 = advance (Cursor_new data) 1" "data \<noteq> []" by (auto simp: read_u8_eq split: list.splits)
  from r(3) obtain w k where w: "vint_parse 3 (remaining_bytes c1) = Ok (w, k)" "v = word_of_nat w" "c2 = advance c1 k"
    by (auto simp: read_variable_int_eq result_iffs)
  note b = vint_parse_bounds [OF w(1)] vint_parse_minimal [OF w(1)]
  have v: "unat v = w" using w(2) b by (auto intro: unat_u32_of_nat)
  have m: "(0x0F :: u8) = mask 4" by (simp add: mask_eq_exp_minus_1)
  have "b AND 0x0F \<le> 0x0F" by (rule word_and_le1)
  then show ?thesis using r b v c1 w by (auto simp: header_bytes_def)
qed

lemmas [eval_defs] = encode_variable_int_eq vint_bytes.simps encode_string_def encode_binary_def
  encode_u16_def string_len_def binary_len_def variable_int_len_def

section \<open>Correctness of the wire primitives\<close>

text \<open>C34: The reader of variable-length integers, which works with 32-bit arithmetic and a running
  multiplier, computes the number the base-128 digits denote, with no wrap-around, rejects a
  fifth byte, and reports the end of the data as such.\<close>

theorem read_variable_int_reference:
  "read_variable_int c =
     and_then (vint_parse 3 (remaining_bytes c)) (\<lambda>(v, n). Ok (word_of_nat v, advance c n))"
  by (rule read_variable_int_eq)

text \<open>A variable-length integer that was encoded behind a buffer is read back there, and takes
  exactly \<open>variable_int_len\<close> bytes.\<close>

lemma variable_int_codec:
  assumes "encode_variable_int buf v = Ok buf'"
  shows "read_variable_int \<lparr>cur_buf = buf' @ rest, cur_pos = length buf\<rparr> =
      Ok (v, \<lparr>cur_buf = buf' @ rest, cur_pos = length buf'\<rparr>)
    \<and> length buf' = length buf + variable_int_len v"
proof -
  have "unat v < 2 ^ 28" "buf' = buf @ vint_bytes (unat v)"
    using assms by (auto simp: encode_variable_int_eq split: if_splits)
  then show ?thesis
    using vint_field.get_written [OF TrueI assms, of rest] by (simp add: variable_int_len_eq)
qed

text \<open>Reading and writing strings are inverse: an encoded string is read back, and the bytes a
  read consumed are the encoding of the string it returned; a string with a null byte, of more
  than 65535 bytes, or that is not UTF-8 never passes.\<close>

lemma string_codec:
  "(\<forall>buf s buf' rest. encode_string buf s = Ok buf' \<longrightarrow> utf8_valid s \<longrightarrow>
      read_string \<lparr>cur_buf = buf' @ rest, cur_pos = length buf\<rparr> =
        Ok (s, \<lparr>cur_buf = buf' @ rest, cur_pos = length buf'\<rparr>))
   \<and> (\<forall>c s c'. read_string c = Ok (s, c') \<longrightarrow>
      utf8_valid s \<and> 0 \<notin> set s \<and> length s \<le> 65535
      \<and> (\<exists>bs. encode_string [] s = Ok bs \<and> consumed c bs c'))"
proof (intro conjI allI impI)
  fix buf s buf' rest
  assume "encode_string buf s = Ok buf'" "utf8_valid s"
  then show "read_string \<lparr>cur_buf = buf' @ rest, cur_pos = length buf\<rparr> =
        Ok (s, \<lparr>cur_buf = buf' @ rest, cur_pos = length buf'\<rparr>)"
    by (intro str_field.get_written)
next
  fix c s c'
  assume "read_string c = Ok (s, c')"
  from read_string_consumed [OF this]
  show "utf8_valid s" "0 \<notin> set s" "length s \<le> 65535" "\<exists>bs. encode_string [] s = Ok bs \<and> consumed c bs c'"
    by (auto simp: encode_string_def Let_def split: if_splits)
qed

text \<open>A fixed header that was encoded is decoded to the same type, flags and remaining length,
  whatever follows it, and takes two to five bytes.\<close>

lemma fixed_header_codec:
  assumes "encode_fixed_header [] t fl n = Ok bs"
  shows "decode_fixed_header (bs @ rest) =
      Ok (\<lparr>packet_type = t, flags = fl, remaining_length = n\<rparr>, length bs)
    \<and> 2 \<le> length bs \<and> length bs \<le> 5"
proof -
  have h: "header_ok t fl" "unat n < 2 ^ 28" "bs = header_bytes t fl (unat n)"
    using assms by (simp_all add: encode_fixed_header_Ok)
  show ?thesis
    using decode_header_bytes [OF h(1,2), of rest] length_header_bytes [OF h(2), of t fl] h(3) by simp
qed

end
