(* ===== verification/Topic.thy ===== *)
theory Topic
  imports Errors
begin

text \<open>
  Topic names and topic filters (\<^verbatim>\<open>src/codec/topic.rs\<close>).  The characters the rules mention are
  ASCII, and in UTF-8 an ASCII byte never occurs inside another character, so the byte list of
  the string is searched and split directly.  \<open>filter_levels_ok\<close> and \<open>valid_filter\<close> state the
  wildcard rules of the protocol level by level; the imperative scan is proved to accept exactly
  those filters.
\<close>

abbreviation slash :: u8 where "slash \<equiv> 0x2F"
abbreviation hash :: u8 where "hash \<equiv> 0x23"
abbreviation plus_sign :: u8 where "plus_sign \<equiv> 0x2B"

text \<open>The bytes of \<^verbatim>\<open>$share/\<close>.\<close>

definition share_prefix :: rstr where
  "share_prefix = [0x24, 0x73, 0x68, 0x61, 0x72, 0x65, 0x2F]"

definition contains_wildcard :: "rstr \<Rightarrow> bool" where
  "contains_wildcard s \<longleftrightarrow> hash \<in> set s \<or> plus_sign \<in> set s"

definition validate_topic_name :: "rstr \<Rightarrow> unit result" where
  "validate_topic_name topic =
    (if topic = [] then Err (MalformedPacket ''topic name is empty'')
     else if contains_wildcard topic
          then Err (MalformedPacket ''topic name contains a wildcard'')
     else Ok ())"

text \<open>The loop over the levels; \<^verbatim>\<open>levels.peek().is_some()\<close> asks whether a level follows.\<close>

fun validate_levels :: "rstr list \<Rightarrow> unit result" where
  "validate_levels [] = Ok ()"
| "validate_levels (level # levels) =
    (if hash \<in> set level \<and> (level \<noteq> [hash] \<or> levels \<noteq> [])
     then Err (MalformedPacket ''multi-level wildcard must occupy the final topic level'')
     else if plus_sign \<in> set level \<and> level \<noteq> [plus_sign]
     then Err (MalformedPacket ''single-level wildcard must occupy an entire topic level'')
     else validate_levels levels)"

definition validate_filter_levels :: "rstr \<Rightarrow> unit result" where
  "validate_filter_levels flt = validate_levels (split_on slash flt)"

definition validate_topic_filter :: "rstr \<Rightarrow> unit result" where
  "validate_topic_filter flt =
    (if flt = [] then Err (MalformedPacket ''topic filter is empty'')
     else case strip_prefix flt share_prefix of
       Some shared \<Rightarrow>
         (case split_once slash shared of
            None \<Rightarrow> Err (MalformedPacket ''shared subscription is missing its topic filter'')
          | Some (share_name, inner_filter) \<Rightarrow>
              if share_name = [] \<or> contains_wildcard share_name
              then Err (MalformedPacket ''shared subscription has an invalid share name'')
              else if inner_filter = []
              then Err (MalformedPacket ''shared subscription is missing its topic filter'')
              else validate_filter_levels inner_filter)
     | None \<Rightarrow> validate_filter_levels flt)"

section \<open>What the validators accept\<close>

lemma validate_topic_name_Ok:
  "validate_topic_name t = Ok () \<longleftrightarrow> t \<noteq> [] \<and> hash \<notin> set t \<and> plus_sign \<notin> set t"
  by (auto simp: validate_topic_name_def contains_wildcard_def)

text \<open>
  The rules of the protocol: a level that contains \<^verbatim>\<open>#\<close> is \<^verbatim>\<open>#\<close> alone and the last one; a level
  that contains \<^verbatim>\<open>+\<close> is \<^verbatim>\<open>+\<close> alone.
\<close>

definition level_ok :: "rstr \<Rightarrow> bool" where
  "level_ok l \<longleftrightarrow> (hash \<in> set l \<longrightarrow> l = [hash]) \<and> (plus_sign \<in> set l \<longrightarrow> l = [plus_sign])"

definition filter_levels_ok :: "rstr list \<Rightarrow> bool" where
  "filter_levels_ok ls \<longleftrightarrow>
     (\<forall>l \<in> set ls. level_ok l) \<and> (\<forall>l \<in> set (butlast ls). l \<noteq> [hash])"

definition valid_filter :: "rstr \<Rightarrow> bool" where
  "valid_filter f \<longleftrightarrow> f \<noteq> [] \<and>
     (if starts_with f share_prefix
      then \<exists>name inner. f = share_prefix @ name @ slash # inner \<and> name \<noteq> [] \<and> slash \<notin> set name
             \<and> \<not> contains_wildcard name \<and> inner \<noteq> [] \<and> filter_levels_ok (split_on slash inner)
      else filter_levels_ok (split_on slash f))"

lemma filter_levels_ok_Cons:
  "filter_levels_ok (l # ls) \<longleftrightarrow> level_ok l \<and> (ls = [] \<or> l \<noteq> [hash]) \<and> filter_levels_ok ls"
  by (cases ls) (auto simp: filter_levels_ok_def)

lemma validate_levels_Ok: "validate_levels ls = Ok () \<longleftrightarrow> filter_levels_ok ls"
proof (induction ls)
  case (Cons l ls)
  have "validate_levels (l # ls) = Ok () \<longleftrightarrow>
      \<not> (hash \<in> set l \<and> (l \<noteq> [hash] \<or> ls \<noteq> [])) \<and> \<not> (plus_sign \<in> set l \<and> l \<noteq> [plus_sign])
      \<and> validate_levels ls = Ok ()"
    by (simp only: validate_levels.simps if_Ok_iffs)
  moreover have "\<not> (hash \<in> set l \<and> (l \<noteq> [hash] \<or> ls \<noteq> [])) \<longleftrightarrow>
      (hash \<in> set l \<longrightarrow> l = [hash]) \<and> (ls = [] \<or> l \<noteq> [hash])"
    by (cases "l = [hash]") simp_all
  ultimately show ?case
    using Cons by (simp only: filter_levels_ok_Cons level_ok_def) blast
qed (simp add: filter_levels_ok_def)

lemma validate_topic_filter_Ok: "validate_topic_filter f = Ok () \<longleftrightarrow> valid_filter f"
proof (cases "strip_prefix f share_prefix")
  case None
  then have "\<not> starts_with f share_prefix" by (auto simp: strip_prefix_def)
  with None show ?thesis
    by (auto simp: validate_topic_filter_def valid_filter_def validate_filter_levels_def
        validate_levels_Ok)
next
  case (Some shared)
  then have f: "f = share_prefix @ shared" "starts_with f share_prefix"
    by (simp_all add: strip_prefix_Some_iff) (simp add: starts_with_def)
  show ?thesis
  proof (cases "split_once slash shared")
    case None
    then have "slash \<notin> set shared" by (simp add: split_once_None_iff)
    with None Some f show ?thesis
      by (auto simp: validate_topic_filter_def valid_filter_def)
  next
    case (Some p)
    obtain name inner where p: "p = (name, inner)" by (cases p)
    have sh: "shared = name @ slash # inner" "slash \<notin> set name"
      using split_once_SomeD [of slash shared name inner] Some p by auto
    let ?ok = "name \<noteq> [] \<and> \<not> contains_wildcard name \<and> inner \<noteq> []
      \<and> filter_levels_ok (split_on slash inner)"
    have f_ne: "f \<noteq> []" using f(1) by (simp add: share_prefix_def)
    have "validate_topic_filter f = Ok () \<longleftrightarrow> ?ok"
      using \<open>strip_prefix f share_prefix = Some shared\<close> Some p f_ne
      by (auto simp: validate_topic_filter_def validate_filter_levels_def validate_levels_Ok)
    moreover have "valid_filter f \<longleftrightarrow> ?ok"
    proof
      assume "valid_filter f"
      then obtain n i where ni: "f = share_prefix @ n @ slash # i" "n \<noteq> []" "slash \<notin> set n"
        "\<not> contains_wildcard n" "i \<noteq> []" "filter_levels_ok (split_on slash i)"
        using f(2) by (auto simp: valid_filter_def)
      then have "split_once slash shared = Some (n, i)"
        using f(1) by (simp add: split_once_append)
      then show ?ok using Some p ni by simp
    next
      assume ?ok
      then show "valid_filter f"
        using f f_ne sh unfolding valid_filter_def by auto
    qed
    ultimately show ?thesis by simp
  qed
qed

text \<open>Every concrete topic name outside the shared-subscription space is a valid filter.\<close>

lemma topic_name_is_filter:
  assumes "validate_topic_name t = Ok ()" and "\<not> starts_with t share_prefix"
  shows "validate_topic_filter t = Ok ()"
proof -
  have nw: "hash \<notin> set l \<and> plus_sign \<notin> set l" if "l \<in> set (split_on slash t)" for l
    using that set_split_on [of slash t] assms(1) by (auto simp: validate_topic_name_Ok)
  have "filter_levels_ok (split_on slash t)"
    using nw by (fastforce simp: filter_levels_ok_def level_ok_def dest: in_set_butlastD)
  then show ?thesis
    using assms by (simp add: validate_topic_filter_Ok valid_filter_def validate_topic_name_Ok)
qed

lemmas [eval_defs] = validate_topic_name_def contains_wildcard_def

section \<open>Correctness of the validators\<close>

text \<open>C35: The scan over the levels of a topic filter accepts exactly the filters of the protocol's
  rules: a multi-level wildcard stands alone in the last level, a single-level wildcard alone in
  its level, and a shared subscription names a non-empty, wildcard-free group and a filter.\<close>

theorem topic_filter_rules: "validate_topic_filter f = Ok () \<longleftrightarrow> valid_filter f"
  by (rule validate_topic_filter_Ok)

end
