(* ===== verification/Properties.thy ===== *)
theory Properties
  imports Encode Topic
begin

text \<open>
  MQTT v5 properties (\<^verbatim>\<open>src/codec/properties.rs\<close>): the property identifiers and values, the
  per-packet allowlists, the property list with its accessors, and the encoder and decoder of a
  property section.  \<open>props_ok\<close> states declaratively when a list of properties may be sent in a
  context; the encoder accepts exactly those, the decoder produces only those, and decoding what
  was encoded gives the same list.
\<close>

section \<open>Identifiers, values, contexts\<close>

datatype PropertyId =
    ResponseTopic
  | CorrelationData
  | SessionExpiryInterval
  | AssignedClientIdentifier
  | ServerKeepAlive
  | ReasonString
  | ReceiveMaximum
  | TopicAliasMaximum
  | MaximumQoS
  | RetainAvailable
  | MaximumPacketSize
  | WildcardSubscriptionAvailable
  | UserProperty
  | SharedSubscriptionAvailable

fun PropertyId_as_u8 :: "PropertyId \<Rightarrow> u8" where
  "PropertyId_as_u8 ResponseTopic = 0x08"
| "PropertyId_as_u8 CorrelationData = 0x09"
| "PropertyId_as_u8 SessionExpiryInterval = 0x11"
| "PropertyId_as_u8 AssignedClientIdentifier = 0x12"
| "PropertyId_as_u8 ServerKeepAlive = 0x13"
| "PropertyId_as_u8 ReasonString = 0x1F"
| "PropertyId_as_u8 ReceiveMaximum = 0x21"
| "PropertyId_as_u8 TopicAliasMaximum = 0x22"
| "PropertyId_as_u8 MaximumQoS = 0x24"
| "PropertyId_as_u8 RetainAvailable = 0x25"
| "PropertyId_as_u8 MaximumPacketSize = 0x27"
| "PropertyId_as_u8 WildcardSubscriptionAvailable = 0x28"
| "PropertyId_as_u8 UserProperty = 0x26"
| "PropertyId_as_u8 SharedSubscriptionAvailable = 0x2A"

definition PropertyId_from_u8 :: "u8 \<Rightarrow> PropertyId option" where
  "PropertyId_from_u8 val =
    (if val = 0x08 then Some ResponseTopic
     else if val = 0x09 then Some CorrelationData
     else if val = 0x11 then Some SessionExpiryInterval
     else if val = 0x12 then Some AssignedClientIdentifier
     else if val = 0x13 then Some ServerKeepAlive
     else if val = 0x1F then Some ReasonString
     else if val = 0x21 then Some ReceiveMaximum
     else if val = 0x22 then Some TopicAliasMaximum
     else if val = 0x24 then Some MaximumQoS
     else if val = 0x25 then Some RetainAvailable
     else if val = 0x26 then Some UserProperty
     else if val = 0x27 then Some MaximumPacketSize
     else if val = 0x28 then Some WildcardSubscriptionAvailable
     else if val = 0x2A then Some SharedSubscriptionAvailable
     else None)"

datatype PropertyValue =
    Byte u8
  | U16 u16
  | U32 u32
  | Str rstr
  | Binary bytes
  | StringPair rstr rstr

datatype PropertyContext =
    Ctx_Connect
  | Ctx_ConnAck
  | Ctx_Publish
  | Ctx_PubAck
  | Ctx_Subscribe
  | Ctx_SubAck
  | Ctx_Unsubscribe
  | Ctx_UnsubAck
  | Ctx_Disconnect

fun allows :: "PropertyContext \<Rightarrow> u8 \<Rightarrow> bool" where
  "allows Ctx_Connect i \<longleftrightarrow> i \<in> {0x11, 0x21, 0x22, 0x26, 0x27}"
| "allows Ctx_ConnAck i \<longleftrightarrow>
     i \<in> {0x11, 0x12, 0x13, 0x15, 0x16, 0x1A, 0x1C, 0x1F, 0x21, 0x22, 0x24, 0x25, 0x26, 0x27,
          0x28, 0x29, 0x2A}"
| "allows Ctx_Publish i \<longleftrightarrow> i \<in> {0x01, 0x02, 0x03, 0x08, 0x09, 0x0B, 0x23, 0x26}"
| "allows Ctx_PubAck i \<longleftrightarrow> i \<in> {0x1F, 0x26}"
| "allows Ctx_SubAck i \<longleftrightarrow> i \<in> {0x1F, 0x26}"
| "allows Ctx_UnsubAck i \<longleftrightarrow> i \<in> {0x1F, 0x26}"
| "allows Ctx_Subscribe i \<longleftrightarrow> i \<in> {0x0B, 0x26}"
| "allows Ctx_Unsubscribe i \<longleftrightarrow> i = 0x26"
| "allows Ctx_Disconnect i \<longleftrightarrow> i \<in> {0x1C, 0x1F, 0x26}"

text \<open>\<^verbatim>\<open>context.is_some_and(|context| !context.allows(id))\<close>\<close>

definition context_forbids :: "PropertyContext option \<Rightarrow> u8 \<Rightarrow> bool" where
  "context_forbids ctx i = (case ctx of None \<Rightarrow> False | Some k \<Rightarrow> \<not> allows k i)"

section \<open>The property list\<close>

type_synonym entry = "PropertyId \<times> PropertyValue"

record Properties =
  entries :: "entry list"

definition Properties_new :: Properties where
  "Properties_new = \<lparr>entries = []\<rparr>"

definition props_push :: "Properties \<Rightarrow> PropertyId \<Rightarrow> PropertyValue \<Rightarrow> Properties" where
  "props_push p i v = p\<lparr>entries := entries p @ [(i, v)]\<rparr>"

definition props_user :: "Properties \<Rightarrow> rstr \<Rightarrow> rstr \<Rightarrow> Properties" where
  "props_user p key v = p\<lparr>entries := entries p @ [(UserProperty, StringPair key v)]\<rparr>"

definition replace_single :: "Properties \<Rightarrow> PropertyId \<Rightarrow> PropertyValue \<Rightarrow> Properties" where
  "replace_single p i v =
     p\<lparr>entries := filter (\<lambda>(property_id, _). property_id \<noteq> i) (entries p) @ [(i, v)]\<rparr>"

definition set_response_topic :: "Properties \<Rightarrow> rstr \<Rightarrow> Properties" where
  "set_response_topic p topic = replace_single p ResponseTopic (Str topic)"

definition with_response_topic :: "Properties \<Rightarrow> rstr \<Rightarrow> Properties" where
  "with_response_topic p topic = set_response_topic p topic"

definition set_correlation_data :: "Properties \<Rightarrow> bytes \<Rightarrow> Properties" where
  "set_correlation_data p data = replace_single p CorrelationData (Binary data)"

definition with_correlation_data :: "Properties \<Rightarrow> bytes \<Rightarrow> Properties" where
  "with_correlation_data p data = set_correlation_data p data"

definition get_byte :: "Properties \<Rightarrow> PropertyId \<Rightarrow> u8 option" where
  "get_byte p i = find_map (\<lambda>(pid, val).
     if pid = i then (case val of Byte b \<Rightarrow> Some b | _ \<Rightarrow> None) else None) (entries p)"

definition get_u16 :: "Properties \<Rightarrow> PropertyId \<Rightarrow> u16 option" where
  "get_u16 p i = find_map (\<lambda>(pid, val).
     if pid = i then (case val of U16 v \<Rightarrow> Some v | _ \<Rightarrow> None) else None) (entries p)"

definition get_u32 :: "Properties \<Rightarrow> PropertyId \<Rightarrow> u32 option" where
  "get_u32 p i = find_map (\<lambda>(pid, val).
     if pid = i then (case val of U32 v \<Rightarrow> Some v | _ \<Rightarrow> None) else None) (entries p)"

definition get_string :: "Properties \<Rightarrow> PropertyId \<Rightarrow> rstr option" where
  "get_string p i = find_map (\<lambda>(pid, val).
     if pid = i then (case val of Str s \<Rightarrow> Some s | _ \<Rightarrow> None) else None) (entries p)"

definition get_binary :: "Properties \<Rightarrow> PropertyId \<Rightarrow> bytes option" where
  "get_binary p i = find_map (\<lambda>(pid, val).
     if pid = i then (case val of Binary bs \<Rightarrow> Some bs | _ \<Rightarrow> None) else None) (entries p)"

definition response_topic :: "Properties \<Rightarrow> rstr option" where
  "response_topic p = get_string p ResponseTopic"

definition correlation_data :: "Properties \<Rightarrow> bytes option" where
  "correlation_data p = get_binary p CorrelationData"

definition user_properties :: "Properties \<Rightarrow> (rstr \<times> rstr) list" where
  "user_properties p = List.map_filter (\<lambda>(pid, val).
     if pid = UserProperty then (case val of StringPair k v \<Rightarrow> Some (k, v) | _ \<Rightarrow> None)
     else None) (entries p)"

definition props_is_empty :: "Properties \<Rightarrow> bool" where
  "props_is_empty p \<longleftrightarrow> entries p = []"

section \<open>Validation\<close>

text \<open>
  The two \<^verbatim>\<open>match (id, value)\<close> expressions, arranged by the kind of value; their arms are disjoint.
\<close>

definition valid_type :: "PropertyId \<Rightarrow> PropertyValue \<Rightarrow> bool" where
  "valid_type i v =
    (case v of
       Str _ \<Rightarrow> i \<in> {ResponseTopic, AssignedClientIdentifier, ReasonString}
     | Binary _ \<Rightarrow> i = CorrelationData
     | U32 _ \<Rightarrow> i \<in> {SessionExpiryInterval, MaximumPacketSize}
     | U16 _ \<Rightarrow> i \<in> {ServerKeepAlive, ReceiveMaximum, TopicAliasMaximum}
     | Byte _ \<Rightarrow> i \<in> {MaximumQoS, RetainAvailable, WildcardSubscriptionAvailable,
                      SharedSubscriptionAvailable}
     | StringPair _ _ \<Rightarrow> i = UserProperty)"

definition validate_property :: "PropertyId \<Rightarrow> PropertyValue \<Rightarrow> unit result" where
  "validate_property i v =
    (if \<not> valid_type i v then Err (MalformedPacket ''property value has wrong wire type'')
     else case v of
       Str s \<Rightarrow>
         if i = ResponseTopic then validate_topic_name s
         else if i = AssignedClientIdentifier \<and> s = []
         then Err (MalformedPacket ''assigned client identifier must be non-empty'')
         else Ok ()
     | U16 n \<Rightarrow>
         if i = ReceiveMaximum \<and> n = 0
         then Err (MalformedPacket ''receive maximum must be non-zero'')
         else Ok ()
     | U32 n \<Rightarrow>
         if i = MaximumPacketSize \<and> n = 0
         then Err (MalformedPacket ''maximum packet size must be non-zero'')
         else Ok ()
     | Byte b \<Rightarrow>
         if i = MaximumQoS \<and> b > 1 then Err (MalformedPacket ''maximum QoS exceeds one'')
         else if i \<in> {RetainAvailable, WildcardSubscriptionAvailable, SharedSubscriptionAvailable}
                 \<and> b > 1
         then Err (MalformedPacket ''availability property must be zero or one'')
         else Ok ()
     | _ \<Rightarrow> Ok ())"

definition register_property_id ::
  "bytes \<Rightarrow> u8 \<Rightarrow> PropertyContext option \<Rightarrow> bytes result" where
  "register_property_id seen_ids i ctx =
    (let repeatable = (i = PropertyId_as_u8 UserProperty
                       \<or> (i = 0x0B \<and> (ctx = None \<or> ctx = Some Ctx_Publish)))
     in if \<not> repeatable \<and> i \<in> set seen_ids
        then Err (MalformedPacket ''duplicate singleton property'')
        else Ok (seen_ids @ [i]))"

section \<open>Encoding\<close>

fun encode_value :: "bytes \<Rightarrow> PropertyValue \<Rightarrow> bytes result" where
  "encode_value body (Byte b) = Ok (body @ [b])"
| "encode_value body (U16 v) = Ok (encode_u16 body v)"
| "encode_value body (U32 v) = Ok (body @ u32_to_be_bytes v)"
| "encode_value body (Str s) = encode_string body s"
| "encode_value body (Binary bs) = encode_binary body bs"
| "encode_value body (StringPair k v) =
     and_then (encode_string body k) (\<lambda>body. encode_string body v)"

text \<open>The loop of \<^verbatim>\<open>encode_inner\<close>; \<open>prev\<close> is \<^verbatim>\<open>self.entries[..index]\<close>.\<close>

fun encode_entries ::
  "PropertyContext option \<Rightarrow> entry list \<Rightarrow> entry list \<Rightarrow> bytes \<Rightarrow> bytes result" where
  "encode_entries ctx prev [] body = Ok body"
| "encode_entries ctx prev ((i, val) # es) body =
    (if context_forbids ctx (PropertyId_as_u8 i)
     then Err (MalformedPacket ''property is not allowed in this packet'')
     else
       and_then (validate_property i val) (\<lambda>_.
       if i \<noteq> UserProperty \<and> i \<in> fst ` set prev
       then Err (MalformedPacket ''duplicate singleton property'')
       else
         and_then (encode_variable_int body (ucast (PropertyId_as_u8 i))) (\<lambda>body.
         and_then (encode_value body val) (\<lambda>body.
         encode_entries ctx (prev @ [(i, val)]) es body))))"

definition props_encode_inner ::
  "Properties \<Rightarrow> bytes \<Rightarrow> PropertyContext option \<Rightarrow> bytes result" where
  "props_encode_inner p buf ctx =
     and_then (encode_entries ctx [] (entries p) []) (\<lambda>body.
     and_then (encode_variable_int buf (word_of_nat (length body))) (\<lambda>buf.
     Ok (buf @ body)))"

definition props_encode :: "Properties \<Rightarrow> bytes \<Rightarrow> bytes result" where
  "props_encode p buf = props_encode_inner p buf None"

definition props_encode_for :: "Properties \<Rightarrow> bytes \<Rightarrow> PropertyContext \<Rightarrow> bytes result" where
  "props_encode_for p buf ctx = props_encode_inner p buf (Some ctx)"

fun value_len :: "PropertyValue \<Rightarrow> nat" where
  "value_len (Byte _) = 1"
| "value_len (U16 _) = 2"
| "value_len (U32 _) = 4"
| "value_len (Str s) = string_len s"
| "value_len (Binary bs) = binary_len bs"
| "value_len (StringPair k v) = string_len k + string_len v"

definition body_len :: "Properties \<Rightarrow> nat" where
  "body_len p =
     sum_list (map (\<lambda>(i, val). variable_int_len (ucast (PropertyId_as_u8 i)) + value_len val)
                   (entries p))"

definition encoded_len :: "Properties \<Rightarrow> nat" where
  "encoded_len p = variable_int_len (word_of_nat (body_len p)) + body_len p"

section \<open>Decoding\<close>

definition discard :: "('a \<times> Cursor) result \<Rightarrow> (unit \<times> Cursor) result" where
  "discard r = and_then r (\<lambda>(_, c). Ok ((), c))"

definition skip_property_value :: "Cursor \<Rightarrow> u8 \<Rightarrow> (unit \<times> Cursor) result" where
  "skip_property_value c i =
    (if i = 0x01 then
       and_then (read_u8 c) (\<lambda>(b, c).
         if b > 1 then Err (MalformedPacket ''payload format indicator must be zero or one'')
         else Ok ((), c))
     else if i = 0x29 then
       and_then (read_u8 c) (\<lambda>(b, c).
         if b > 1
         then Err (MalformedPacket ''subscription identifiers available must be zero or one'')
         else Ok ((), c))
     else if i \<in> {0x17, 0x19, 0x24} then discard (read_u8 c)
     else if i \<in> {0x13, 0x21, 0x22} then discard (read_u16 c)
     else if i \<in> {0x02, 0x11, 0x18, 0x27} then discard (read_u32 c)
     else if i = 0x0B then
       and_then (read_variable_int c) (\<lambda>(v, c).
         if v = 0 then Err (MalformedPacket ''subscription identifier must be non-zero'')
         else Ok ((), c))
     else if i \<in> {0x03, 0x08, 0x12, 0x15, 0x1A, 0x1C, 0x1F} then discard (read_string c)
     else if i \<in> {0x09, 0x16} then discard (read_binary c)
     else if i = 0x26 then
       and_then (read_string c) (\<lambda>(_, c). discard (read_string c))
     else Err (MalformedPacket ''unknown property id''))"

fun decode_value :: "PropertyId \<Rightarrow> Cursor \<Rightarrow> (PropertyValue \<times> Cursor) result" where
  "decode_value MaximumQoS = (\<lambda>c. and_then (read_u8 c) (\<lambda>(b, c). Ok (Byte b, c)))"
| "decode_value RetainAvailable = (\<lambda>c. and_then (read_u8 c) (\<lambda>(b, c). Ok (Byte b, c)))"
| "decode_value WildcardSubscriptionAvailable = (\<lambda>c. and_then (read_u8 c) (\<lambda>(b, c). Ok (Byte b, c)))"
| "decode_value SharedSubscriptionAvailable = (\<lambda>c. and_then (read_u8 c) (\<lambda>(b, c). Ok (Byte b, c)))"
| "decode_value ReceiveMaximum = (\<lambda>c. and_then (read_u16 c) (\<lambda>(v, c). Ok (U16 v, c)))"
| "decode_value ServerKeepAlive = (\<lambda>c. and_then (read_u16 c) (\<lambda>(v, c). Ok (U16 v, c)))"
| "decode_value TopicAliasMaximum = (\<lambda>c. and_then (read_u16 c) (\<lambda>(v, c). Ok (U16 v, c)))"
| "decode_value SessionExpiryInterval = (\<lambda>c. and_then (read_u32 c) (\<lambda>(v, c). Ok (U32 v, c)))"
| "decode_value MaximumPacketSize = (\<lambda>c. and_then (read_u32 c) (\<lambda>(v, c). Ok (U32 v, c)))"
| "decode_value ResponseTopic = (\<lambda>c. and_then (read_string c) (\<lambda>(s, c). Ok (Str s, c)))"
| "decode_value AssignedClientIdentifier = (\<lambda>c. and_then (read_string c) (\<lambda>(s, c). Ok (Str s, c)))"
| "decode_value ReasonString = (\<lambda>c. and_then (read_string c) (\<lambda>(s, c). Ok (Str s, c)))"
| "decode_value CorrelationData = (\<lambda>c. and_then (read_binary c) (\<lambda>(bs, c). Ok (Binary bs, c)))"
| "decode_value UserProperty = (\<lambda>c.
     and_then (read_string c) (\<lambda>(k, c).
     and_then (read_string c) (\<lambda>(v, c). Ok (StringPair k v, c))))"

text \<open>Reads inside the loop only move forward, and the identifier takes at least one byte.\<close>

lemma discard_Ok [result_iffs]: "discard r = Ok (u, c) \<longleftrightarrow> (\<exists>x. r = Ok (x, c))"
  by (auto simp: discard_def result_iffs)

lemma stream_reader_discard: "stream_reader f \<Longrightarrow> stream_reader (\<lambda>c. discard (f c))"
  unfolding discard_def by (intro stream_reader_intros)

lemmas primitive_readers =
  u8.stream_reader_axioms u16.stream_reader_axioms u32.stream_reader_axioms
  vint.stream_reader_axioms str.stream_reader_axioms bin.stream_reader_axioms

interpretation skip: stream_reader "\<lambda>c. skip_property_value c i"
  unfolding skip_property_value_def
  by (auto intro!: stream_reader_intros stream_reader_discard primitive_readers)

interpretation pvalue: stream_reader "decode_value i"
  by (cases i) (auto intro!: stream_reader_intros primitive_readers)

text \<open>
  The loop of \<^verbatim>\<open>decode_inner\<close>.  A property outside the typed subset is consumed, checked and
  dropped.
\<close>

function decode_entries ::
  "Cursor \<Rightarrow> nat \<Rightarrow> PropertyContext option \<Rightarrow> bytes \<Rightarrow> entry list \<Rightarrow> (entry list \<times> Cursor) result"
where
  "decode_entries c end ctx seen_ids props =
    (if position c < end then
       and_then (read_variable_int c) (\<lambda>(raw_id, c1).
       if unat raw_id > 255 then Err (MalformedPacket ''property id exceeds one byte'')
       else let id_byte = (ucast raw_id :: u8) in
       if id_byte = 0x23 then Err (MalformedPacket ''topic alias is not supported'')
       else if context_forbids ctx id_byte
       then Err (MalformedPacket ''property is not allowed in this packet'')
       else
         and_then (register_property_id seen_ids id_byte ctx) (\<lambda>seen_ids'.
         case PropertyId_from_u8 id_byte of
           None \<Rightarrow>
             and_then (skip_property_value c1 id_byte) (\<lambda>(_, c2).
             if position c2 > end
             then Err (MalformedPacket ''property exceeded declared length'')
             else decode_entries c2 end ctx seen_ids' props)
         | Some i \<Rightarrow>
             and_then (decode_value i c1) (\<lambda>(val, c2).
             if position c2 > end
             then Err (MalformedPacket ''property exceeded declared length'')
             else
               and_then (validate_property i val) (\<lambda>_.
               decode_entries c2 end ctx seen_ids' (props @ [(i, val)])))))
     else if position c \<noteq> end then Err (MalformedPacket ''property length mismatch'')
     else Ok (props, c))"
  by pat_completeness auto

lemma read_variable_int_position:
  "read_variable_int c = Ok (v, c') \<Longrightarrow> position c < position c'"
  by (auto simp: read_variable_int_eq result_iffs dest!: vint_parse_bounds)

lemma skip_position: "skip_property_value c i = Ok (u, c') \<Longrightarrow> position c \<le> position c'"
  by (auto dest!: skip.get_advance)

lemma decode_value_position: "decode_value i c = Ok (v, c') \<Longrightarrow> position c \<le> position c'"
  by (auto dest!: pvalue.get_advance)

termination decode_entries
  by (relation "measure (\<lambda>(c, end, ctx, seen_ids, props). end - position c)")
    (auto dest!: read_variable_int_position skip_position decode_value_position)

declare decode_entries.simps [simp del]

definition props_decode_inner ::
  "Cursor \<Rightarrow> PropertyContext option \<Rightarrow> (Properties \<times> Cursor) result" where
  "props_decode_inner c ctx =
     and_then (read_variable_int c) (\<lambda>(len, c).
     let prop_len = unat len in
     if prop_len = 0 then Ok (Properties_new, c)
     else if remaining c < prop_len
     then Err (MalformedPacket ''property length exceeds packet'')
     else case checked_add (position c) prop_len of
       None \<Rightarrow> Err (MalformedPacket ''property length overflow'')
     | Some end \<Rightarrow>
         and_then (decode_entries c end ctx [] []) (\<lambda>(es, c). Ok (\<lparr>entries = es\<rparr>, c)))"

definition props_decode :: "Cursor \<Rightarrow> (Properties \<times> Cursor) result" where
  "props_decode c = props_decode_inner c None"

definition props_decode_for :: "Cursor \<Rightarrow> PropertyContext \<Rightarrow> (Properties \<times> Cursor) result" where
  "props_decode_for c ctx = props_decode_inner c (Some ctx)"

section \<open>What the encoder accepts\<close>

lemma PropertyId_from_as_u8 [simp]: "PropertyId_from_u8 (PropertyId_as_u8 i) = Some i"
  by (cases i) (simp_all add: PropertyId_from_u8_def)

lemma PropertyId_from_u8_Some: "PropertyId_from_u8 b = Some i \<longleftrightarrow> b = PropertyId_as_u8 i"
proof
  assume "PropertyId_from_u8 b = Some i"
  then show "b = PropertyId_as_u8 i" by (auto simp: PropertyId_from_u8_def split: if_splits)
qed simp

lemma PropertyId_as_u8_inj [simp]: "PropertyId_as_u8 i = PropertyId_as_u8 j \<longleftrightarrow> i = j"
  by (metis PropertyId_from_as_u8 option.inject)

lemma PropertyId_as_u8_special [simp]:
  "PropertyId_as_u8 i \<noteq> 0x23" "PropertyId_as_u8 i \<noteq> 0x0B"
  by (cases i; simp)+

lemma ucast_id_byte [simp]:
  "ucast (ucast (b :: u8) :: u32) = b" "unat (ucast b :: u32) \<le> 255"
  using unat_u8_bound [of b] by (simp_all add: unat_u32_of_u8 word_unat_eq_iff word_to_nat)

definition value_utf8 :: "PropertyValue \<Rightarrow> bool" where
  "value_utf8 v = (case v of Str s \<Rightarrow> utf8_valid s | StringPair k w \<Rightarrow> utf8_valid k \<and> utf8_valid w | _ \<Rightarrow> True)"

lemma encode_value_append:
  "encode_value buf v = and_then (encode_value [] v) (\<lambda>bs. Ok (buf @ bs))"
proof (cases v)
  case (StringPair k w)
  then show ?thesis
    using str_field.put_append [of buf k] by (auto simp: and_then_def encode_string_def Let_def)
qed (auto simp: encode_u16_def encode_string_def encode_binary_def Let_def)

lemma validate_property_type: "validate_property i v = Ok u \<Longrightarrow> valid_type i v"
  by (auto simp: validate_property_def split: if_splits)

lemma decode_value_encode_value:
  assumes ty: "valid_type i v" and wf: "value_utf8 v" and enc: "encode_value [] v = Ok bs"
    and c: "remaining_bytes c = bs @ rest"
  shows "decode_value i c = Ok (v, advance c (length bs))"
proof (cases v)
  case (Byte b)
  have "read_u8 c = Ok (b, advance c 1)"
    using u8_field.get_put [of b "[b]" c rest] enc c Byte by simp
  then show ?thesis using ty Byte enc by (auto simp: valid_type_def)
next
  case (U16 x)
  have "read_u16 c = Ok (x, advance c (length bs))"
    using u16_field.get_put [of x bs c rest] enc c U16 by simp
  then show ?thesis using ty U16 by (auto simp: valid_type_def)
next
  case (U32 x)
  have "read_u32 c = Ok (x, advance c (length bs))"
    using u32_field.get_put [of x bs c rest] enc c U32 by simp
  then show ?thesis using ty U32 by (auto simp: valid_type_def)
next
  case (Str s)
  have "read_string c = Ok (s, advance c (length bs))"
    using str_field.get_put [of s bs c rest] enc c wf Str by (simp add: value_utf8_def)
  then show ?thesis using ty Str by (auto simp: valid_type_def)
next
  case (Binary b)
  have "read_binary c = Ok (b, advance c (length bs))"
    using bin_field.get_put [of b bs c rest] enc c Binary by simp
  then show ?thesis using ty Binary by (auto simp: valid_type_def)
next
  case (StringPair k w)
  with enc obtain b1 where b1: "encode_string [] k = Ok b1" "encode_string b1 w = Ok bs"
    by (auto simp: result_iffs)
  from b1(2) obtain b2 where "encode_string [] w = Ok b2" "bs = b1 @ b2"
    by (rule str_field.put_OkD)
  note b = b1(1) this
  have "read_string c = Ok (k, advance c (length b1))"
    using str_field.get_put [of k b1 c "b2 @ rest"] b c wf StringPair by (simp add: value_utf8_def)
  moreover have "read_string (advance c (length b1)) = Ok (w, advance c (length b1 + length b2))"
    using str_field.get_put [of w b2 "advance c (length b1)" rest] b c wf StringPair
    by (simp add: value_utf8_def)
  ultimately show ?thesis using ty StringPair b by (auto simp: valid_type_def)
qed

interpretation pvalue_field: field_codec "decode_value i" "\<lambda>v. valid_type i v \<and> value_utf8 v" encode_value
proof (unfold_locales, goal_cases)
  case (1 buf x) show ?case by (rule encode_value_append)
next
  case (2 x bs c rest) then show ?case by (auto intro: decode_value_encode_value)
qed


lemma vint_bytes_id: "vint_bytes (unat (PropertyId_as_u8 i)) = [PropertyId_as_u8 i]"
  by (cases i) (simp_all add: vint_bytes.simps)

lemma encode_id: "encode_variable_int body (ucast (PropertyId_as_u8 i)) = Ok (body @ [PropertyId_as_u8 i])"
  using unat_u8_bound [of "PropertyId_as_u8 i"]
  by (simp add: encode_variable_int_eq unat_u32_of_u8 vint_bytes_id)

lemma read_id:
  assumes "remaining_bytes c = PropertyId_as_u8 i # rest"
  shows "read_variable_int c = Ok (ucast (PropertyId_as_u8 i), advance c 1)"
  using vint_field.get_put [OF TrueI, of "ucast (PropertyId_as_u8 i)" "[PropertyId_as_u8 i]" c rest]
    assms by (simp add: encode_id)

text \<open>When a list of properties may be encoded in a context.\<close>

definition entry_ok :: "PropertyContext option \<Rightarrow> entry \<Rightarrow> bool" where
  "entry_ok ctx e \<longleftrightarrow> \<not> context_forbids ctx (PropertyId_as_u8 (fst e))
     \<and> validate_property (fst e) (snd e) = Ok () \<and> is_ok (encode_value [] (snd e))"

definition singleton_ids :: "entry list \<Rightarrow> PropertyId list" where
  "singleton_ids es = filter (\<lambda>i. i \<noteq> UserProperty) (map fst es)"

definition props_ok :: "PropertyContext option \<Rightarrow> entry list \<Rightarrow> bool" where
  "props_ok ctx es \<longleftrightarrow> (\<forall>e \<in> set es. entry_ok ctx e) \<and> distinct (singleton_ids es)"

lemma singleton_ids_simps [simp]:
  "singleton_ids [] = []"
  "singleton_ids (es @ fs) = singleton_ids es @ singleton_ids fs"
  "singleton_ids ((i, v) # es) = (if i = UserProperty then singleton_ids es else i # singleton_ids es)"
  "set (singleton_ids es) = fst ` set es - {UserProperty}"
  by (auto simp: singleton_ids_def)

definition entries_bytes :: "entry list \<Rightarrow> bytes" where
  "entries_bytes es = concat (map (\<lambda>(i, v). PropertyId_as_u8 i # projr (encode_value [] v)) es)"

lemma entries_bytes_simps [simp]:
  "entries_bytes [] = []"
  "entries_bytes ((i, v) # es) = PropertyId_as_u8 i # projr (encode_value [] v) @ entries_bytes es"
  "entries_bytes (es @ fs) = entries_bytes es @ entries_bytes fs"
  by (simp_all add: entries_bytes_def)

lemma encode_entries_Ok:
  "encode_entries ctx prev es body = Ok body' \<longleftrightarrow>
     (\<forall>e \<in> set es. entry_ok ctx e) \<and> distinct (singleton_ids es)
     \<and> set (singleton_ids es) \<inter> fst ` set prev = {} \<and> body' = body @ entries_bytes es"
proof (induction es arbitrary: prev body)
  case (Cons e es)
  obtain i v where e: "e = (i, v)" by (cases e)
  show ?case
  proof (cases "entry_ok ctx e")
    case True
    then obtain bs where ok: "\<not> context_forbids ctx (PropertyId_as_u8 i)" "validate_property i v = Ok ()"
      "encode_value [] v = Ok bs"
      by (auto simp: entry_ok_def e is_ok_iff)
    have "encode_value (body @ [PropertyId_as_u8 i]) v = Ok (body @ [PropertyId_as_u8 i] @ bs)"
      using encode_value_append [of "body @ [PropertyId_as_u8 i]" v] ok by simp
    then show ?thesis using ok Cons True
      by (auto simp: e encode_id)
  next
    case False
    then show ?thesis
      using encode_value_append [of "body @ [PropertyId_as_u8 i]" v]
      by (auto simp: e entry_ok_def encode_id result_iffs is_ok_iff)
  qed
qed auto

lemma decode_value_consumed:
  assumes "decode_value i c = Ok (v, c')"
  shows "\<exists>bs. encode_value [] v = Ok bs \<and> valid_type i v \<and> value_utf8 v \<and> consumed c bs c'"
proof -
  have pair: ?thesis if k: "read_string c = Ok (k, c1)" and w: "read_string c1 = Ok (w, c')"
    and v: "v = StringPair k w" "valid_type i v" for k w c1
  proof -
    obtain b1 where b1: "encode_string [] k = Ok b1" "utf8_valid k" "consumed c b1 c1"
      using read_string_consumed [OF k] by auto
    obtain b2 where b2: "encode_string [] w = Ok b2" "utf8_valid w" "consumed c1 b2 c'"
      using read_string_consumed [OF w] by auto
    have "encode_value [] v = Ok (b1 @ b2)"
      using b1 b2 v str_field.put_append [of b1 w] by simp
    then show ?thesis using b1 b2 v by (auto simp: value_utf8_def intro: consumed_trans)
  qed
  show ?thesis
  proof (cases "i = UserProperty")
    case True
    with assms obtain k w c1 where "read_string c = Ok (k, c1)" "read_string c1 = Ok (w, c')" "v = StringPair k w"
      by (auto simp: result_iffs)
    then show ?thesis by (rule pair) (simp add: valid_type_def True \<open>v = StringPair k w\<close>)
  next
    case False
    then show ?thesis
      using assms
      by (cases i) (auto simp: result_iffs valid_type_def value_utf8_def encode_u16_def
        dest: read_u8_consumed read_u16_consumed read_u32_consumed read_string_consumed
          read_binary_consumed)
  qed
qed

lemma PropertyId_as_u8_User [simp]: "PropertyId_as_u8 i = 0x26 \<longleftrightarrow> i = UserProperty"
  using PropertyId_as_u8_inj [of i UserProperty] by simp

section \<open>The round trip\<close>

definition entries_utf8 :: "entry list \<Rightarrow> bool" where
  "entries_utf8 es \<longleftrightarrow> (\<forall>e \<in> set es. value_utf8 (snd e))"

lemma register_fresh:
  "i = UserProperty \<or> PropertyId_as_u8 i \<notin> set seen \<Longrightarrow>
   register_property_id seen (PropertyId_as_u8 i) ctx = Ok (seen @ [PropertyId_as_u8 i])"
  by (auto simp: register_property_id_def Let_def)

lemma decode_entries_step:
  assumes e: "entry_ok ctx (i, v)" "value_utf8 v"
    and fresh: "i = UserProperty \<or> PropertyId_as_u8 i \<notin> set seen"
    and c: "remaining_bytes c = entries_bytes [(i, v)] @ rest"
    and e1: "e1 = position c + length (entries_bytes [(i, v)])" "e1 \<le> end"
  shows "decode_entries c end ctx seen props =
    decode_entries (advance c (length (entries_bytes [(i, v)]))) end ctx
      (seen @ [PropertyId_as_u8 i]) (props @ [(i, v)])"
proof -
  obtain bs where bs: "encode_value [] v = Ok bs" "validate_property i v = Ok ()"
    "\<not> context_forbids ctx (PropertyId_as_u8 i)"
    using e(1) by (auto simp: entry_ok_def is_ok_iff)
  have "read_variable_int c = Ok (ucast (PropertyId_as_u8 i), advance c 1)"
    using c by (intro read_id) simp
  moreover have "decode_value i (advance c 1) = Ok (v, advance c (1 + length bs))"
    using decode_value_encode_value [OF validate_property_type [OF bs(2)] e(2) bs(1), of "advance c 1" rest]
      c bs by simp
  ultimately show ?thesis
    using bs e1 register_fresh [OF fresh, of ctx]
    by (subst decode_entries.simps) (simp add: Let_def linorder_not_le [symmetric])
qed

lemma decode_entries_written:
  assumes "\<forall>e \<in> set es. entry_ok ctx e" "entries_utf8 es" "distinct (singleton_ids es)"
    and "PropertyId_as_u8 ` set (singleton_ids es) \<inter> set seen = {}"
    and "remaining_bytes c = entries_bytes es @ rest"
  shows "decode_entries c (position c + length (entries_bytes es)) ctx seen props =
           Ok (props @ es, advance c (length (entries_bytes es)))"
  using assms
proof (induction es arbitrary: c seen props)
  case Nil
  then show ?case by (subst decode_entries.simps) simp
next
  case (Cons e es)
  obtain i v where e: "e = (i, v)" by (cases e)
  let ?n = "length (entries_bytes [(i, v)])"
  have fresh: "i = UserProperty \<or> PropertyId_as_u8 i \<notin> set seen"
    using Cons.prems(4) by (auto simp: e)
  have "decode_entries c (position c + length (entries_bytes (e # es))) ctx seen props =
    decode_entries (advance c ?n) (position c + length (entries_bytes (e # es))) ctx
      (seen @ [PropertyId_as_u8 i]) (props @ [(i, v)])"
    by (rule decode_entries_step [OF _ _ fresh _ refl])
      (use Cons.prems in \<open>auto simp: e entries_utf8_def\<close>)
  also have "position c + length (entries_bytes (e # es)) =
      position (advance c ?n) + length (entries_bytes es)"
    by (simp add: e)
  moreover have "PropertyId_as_u8 ` set (singleton_ids es) \<inter> set (seen @ [PropertyId_as_u8 i]) = {}"
    using Cons.prems(3,4) by (force simp: e split: if_splits)
  then have "decode_entries (advance c ?n) (position (advance c ?n) + length (entries_bytes es)) ctx
      (seen @ [PropertyId_as_u8 i]) (props @ [(i, v)]) =
      Ok ((props @ [(i, v)]) @ es, advance (advance c ?n) (length (entries_bytes es)))"
    by (intro Cons.IH) (use Cons.prems in \<open>auto simp: e entries_utf8_def split: if_splits\<close>)
  ultimately show ?case by (simp add: e add.assoc)
qed

text \<open>The encoder accepts exactly the lists \<open>props_ok\<close> describes.\<close>

definition props_bytes :: "entry list \<Rightarrow> bytes" where
  "props_bytes es = vint_bytes (length (entries_bytes es)) @ entries_bytes es"

lemma props_encode_inner_Ok:
  assumes "length (entries_bytes (entries p)) < 2 ^ 32"
  shows "props_encode_inner p buf ctx = Ok buf' \<longleftrightarrow>
    props_ok ctx (entries p) \<and> length (entries_bytes (entries p)) < 2 ^ 28
    \<and> buf' = buf @ props_bytes (entries p)"
  using assms
  by (auto simp: props_encode_inner_def result_iffs encode_entries_Ok props_ok_def props_bytes_def
      encode_variable_int_eq unat_u32_of_nat)

lemma vint_bytes_0 [simp]: "vint_bytes 0 = [0]"
  by (simp add: vint_bytes.simps)

lemma length_entries_bytes_0: "length (entries_bytes es) = 0 \<longleftrightarrow> es = []"
  by (cases es) (auto simp: entries_bytes_def)

lemma read_vint_bytes:
  assumes "remaining_bytes c = vint_bytes n @ rest" "n < 2 ^ 28"
  shows "read_variable_int c = Ok (word_of_nat n, advance c (length (vint_bytes n)))"
  using vint_field.get_put [OF TrueI, of "word_of_nat n" "vint_bytes n" c rest] assms
  by (simp add: encode_variable_int_eq unat_u32_of_nat)

lemma props_decode_inner_written:
  assumes ok: "props_ok ctx es" "entries_utf8 es" "length (entries_bytes es) < 2 ^ 28"
    and c: "remaining_bytes c = props_bytes es @ rest"
    and fits: "position c + length (props_bytes es) \<le> usize_max"
  shows "props_decode_inner c ctx = Ok (\<lparr>entries = es\<rparr>, advance c (length (props_bytes es)))"
proof -
  let ?b = "entries_bytes es" let ?h = "length (vint_bytes (length ?b))"
  have rd: "read_variable_int c = Ok (word_of_nat (length ?b), advance c ?h)"
    using c ok(3) by (intro read_vint_bytes [where rest = "?b @ rest"]) (simp_all add: props_bytes_def)
  have c1: "remaining_bytes (advance c ?h) = ?b @ rest"
    using c by (simp add: props_bytes_def)
  have n: "unat (word_of_nat (length ?b) :: u32) = length ?b"
    using ok(3) by (intro unat_u32_of_nat) simp
  show ?thesis
  proof (cases "es = []")
    case True
    then show ?thesis using rd n by (simp add: props_decode_inner_def props_bytes_def Properties_new_def)
  next
    case False
    then have "length ?b \<noteq> 0" by (simp only: length_entries_bytes_0) simp
    moreover have "\<not> remaining (advance c ?h) < length ?b"
      using remaining_eq_append [OF c1] by simp
    moreover have "decode_entries (advance c ?h) (position (advance c ?h) + length ?b) ctx [] [] =
        Ok ([] @ es, advance (advance c ?h) (length ?b))"
      using ok c1 by (intro decode_entries_written) (auto simp: props_ok_def)
    ultimately show ?thesis
      using rd fits by (simp add: props_decode_inner_def n Let_def props_bytes_def)
  qed
qed

section \<open>What the decoder produces\<close>

lemma register_Ok:
  "register_property_id seen b ctx = Ok seen' \<Longrightarrow>
     seen' = seen @ [b] \<and> (b = 0x26 \<or> b = 0x0B \<or> b \<notin> set seen)"
  by (auto simp: register_property_id_def Let_def split: if_splits)

lemma read_variable_int_advance:
  assumes "read_variable_int c = Ok (v, c')"
  obtains n where "c' = advance c n" "0 < n" "n \<le> remaining c"
  using assms by (auto simp: read_variable_int_eq result_iffs dest!: vint_parse_bounds)

lemma decode_entries_round:
  assumes "decode_entries c end ctx seen props = Ok (es, c')" "position c < end"
  obtains (skip) raw c1 seen' c2 where "read_variable_int c = Ok (raw, c1)" "register_property_id seen (ucast raw) ctx = Ok seen'"
      "skip_property_value c1 (ucast raw) = Ok ((), c2)" "position c2 \<le> end" "decode_entries c2 end ctx seen' props = Ok (es, c')"
  | (entry) raw c1 seen' i v c2 where "read_variable_int c = Ok (raw, c1)" "register_property_id seen (ucast raw) ctx = Ok seen'"
      "ucast raw = PropertyId_as_u8 i" "\<not> context_forbids ctx (PropertyId_as_u8 i)" "decode_value i c1 = Ok (v, c2)" "position c2 \<le> end"
      "validate_property i v = Ok ()" "decode_entries c2 end ctx seen' (props @ [(i, v)]) = Ok (es, c')"
  using assms
  by (subst (asm) decode_entries.simps) (auto simp: result_iffs Let_def not_less PropertyId_from_u8_Some split: option.splits)

text \<open>One round of the loop: it ends, it skips a value, or it appends a checked entry.\<close>

lemma decode_entries_cases:
  assumes "decode_entries c end ctx seen props = Ok (es, c')"
  obtains (finish) "position c = end" "es = props" "c' = c"
  | (skip) n b where "0 < n" "n \<le> remaining c" "position c + n \<le> end"
      "decode_entries (advance c n) end ctx (seen @ [b]) props = Ok (es, c')"
  | (entry) n i v where "entry_ok ctx (i, v)" "value_utf8 v" "length (entries_bytes [(i, v)]) \<le> n"
      "i = UserProperty \<or> PropertyId_as_u8 i \<notin> set seen"
      "0 < n" "n \<le> remaining c" "position c + n \<le> end"
      "decode_entries (advance c n) end ctx (seen @ [PropertyId_as_u8 i]) (props @ [(i, v)]) = Ok (es, c')"
proof (cases "position c < end")
  case False
  then show ?thesis
    using assms by (subst (asm) decode_entries.simps) (auto split: if_splits intro: finish)
next
  case True
  with assms show ?thesis
  proof (cases rule: decode_entries_round)
    case (skip raw c1 seen' c2)
    obtain m where "c1 = advance c m" "0 < m" "m \<le> remaining c" using skip(1) by (rule read_variable_int_advance)
    moreover obtain k where "c2 = advance c1 k" "k \<le> remaining c1" using skip.get_advance [OF skip(3)] by auto
    ultimately show ?thesis
      using skip(4,5) register_Ok [OF skip(2)] by (intro that(2) [of "m + k" "ucast raw"]) auto
  next
    case (entry raw c1 seen' i v c2)
    obtain m where m: "c1 = advance c m" "0 < m" "m \<le> remaining c" using entry(1) by (rule read_variable_int_advance)
    obtain bs where bs: "encode_value [] v = Ok bs" "value_utf8 v" "consumed c1 bs c2"
      using decode_value_consumed [OF entry(5)] by auto
    have ok: "entry_ok ctx (i, v)" using entry bs by (simp add: entry_ok_def)
    show ?thesis
      using m entry(3,6,8) bs register_Ok [OF entry(2)] consumed_remaining [OF bs(3)]
      by (intro that(3) [OF ok, of "m + length bs"]) (auto simp: consumed_def)
  qed
qed

lemma decode_entries_sound:
  assumes "decode_entries c end ctx seen props = Ok (es, c')"
  shows "\<exists>new n. es = props @ new \<and> (\<forall>e \<in> set new. entry_ok ctx e) \<and> entries_utf8 new
    \<and> distinct (singleton_ids new) \<and> PropertyId_as_u8 ` set (singleton_ids new) \<inter> set seen = {}
    \<and> c' = advance c n \<and> n \<le> remaining c \<and> position c + n = end \<and> length (entries_bytes new) \<le> n"
  using assms
proof (induction "end - position c" arbitrary: c seen props rule: less_induct)
  case less
  from less.prems show ?case
  proof (cases rule: decode_entries_cases)
    case finish
    then show ?thesis by (intro exI [of _ "[]"] exI [of _ 0]) (simp add: entries_utf8_def)
  next
    case (skip n b)
    have "end - position (advance c n) < end - position c" using skip(1,3) by simp
    from less.hyps [OF this skip(4)] obtain new k where
      "es = props @ new" "\<forall>e \<in> set new. entry_ok ctx e" "entries_utf8 new"
      "distinct (singleton_ids new)" "PropertyId_as_u8 ` set (singleton_ids new) \<inter> set (seen @ [b]) = {}"
      "c' = advance (advance c n) k" "k \<le> remaining (advance c n)" "position (advance c n) + k = end"
      "length (entries_bytes new) \<le> k"
      by blast
    then show ?thesis using skip(1,2) by (intro exI [of _ new] exI [of _ "n + k"]) auto
  next
    case (entry n i v)
    have "end - position (advance c n) < end - position c" using entry(5,7) by simp
    from less.hyps [OF this entry(8)] obtain new k where
      n: "es = (props @ [(i, v)]) @ new" "\<forall>e \<in> set new. entry_ok ctx e" "entries_utf8 new"
      "distinct (singleton_ids new)"
      "PropertyId_as_u8 ` set (singleton_ids new) \<inter> set (seen @ [PropertyId_as_u8 i]) = {}"
      "c' = advance (advance c n) k" "k \<le> remaining (advance c n)" "position (advance c n) + k = end"
      "length (entries_bytes new) \<le> k"
      by blast
    have "i = UserProperty \<or> i \<notin> fst ` set new" using n(5) by force
    then show ?thesis using n entry
      by (intro exI [of _ "(i, v) # new"] exI [of _ "n + k"]) (auto simp: entries_utf8_def)
  qed
qed

lemma read_variable_int_bounds:
  assumes "read_variable_int c = Ok (v, c')"
  obtains n where "c' = advance c n" "0 < n" "n \<le> remaining c" "length (vint_bytes (unat v)) \<le> n" "unat v < 2 ^ 28"
proof -
  from assms obtain w n where w: "vint_parse 3 (remaining_bytes c) = Ok (w, n)" "v = word_of_nat w" "c' = advance c n"
    by (auto simp: read_variable_int_eq result_iffs)
  note b = vint_parse_bounds [OF w(1)]
  then have "unat v = w" using w(2) by (auto intro: unat_u32_of_nat)
  with that [OF w(3)] b vint_parse_minimal [OF w(1)] show ?thesis by simp
qed

lemma props_decode_inner_sound:
  assumes "props_decode_inner c ctx = Ok (p, c')"
  shows "props_ok ctx (entries p) \<and> entries_utf8 (entries p)
    \<and> length (entries_bytes (entries p)) < 2 ^ 28
    \<and> (\<exists>n \<le> remaining c. c' = advance c n \<and> 0 < n \<and> length (props_bytes (entries p)) \<le> n)"
proof -
  from assms obtain len c1 where r: "read_variable_int c = Ok (len, c1)"
    and rest: "(unat len = 0 \<and> p = Properties_new \<and> c' = c1) \<or>
      (\<exists>end es. unat len \<le> remaining c1 \<and> end = position c1 + unat len \<and>
         decode_entries c1 end ctx [] [] = Ok (es, c') \<and> p = \<lparr>entries = es\<rparr>)"
    by (auto simp: props_decode_inner_def result_iffs Let_def not_less
        split: if_splits option.splits dest!: checked_add_SomeD)
  obtain m where m: "c1 = advance c m" "0 < m" "m \<le> remaining c" "length (vint_bytes (unat len)) \<le> m"
    and len: "unat len < 2 ^ 28"
    using r by (rule read_variable_int_bounds)
  from rest show ?thesis
  proof (elim disjE exE conjE)
    fix e es
    assume "unat len \<le> remaining c1" "e = position c1 + unat len" and d: "decode_entries c1 e ctx [] [] = Ok (es, c')"
      and p: "p = \<lparr>entries = es\<rparr>"
    from decode_entries_sound [OF d] \<open>e = _\<close> have es: "props_ok ctx es" "entries_utf8 es"
      "length (entries_bytes es) \<le> unat len" "c' = advance c1 (unat len)"
      by (auto simp: props_ok_def)
    have "length (props_bytes es) \<le> m + unat len"
      using length_vint_bytes_mono [OF es(3) len] es(3) m(4) by (simp add: props_bytes_def)
    then show ?thesis using es m len p \<open>unat len \<le> remaining c1\<close>
      by (auto intro!: exI [of _ "m + unat len"])
  qed (use m in \<open>auto simp: props_ok_def Properties_new_def entries_utf8_def props_bytes_def\<close>)
qed

lemmas [eval_defs] = props_encode_for_def props_encode_inner_def context_forbids_def
  validate_property_def valid_type_def body_len_def encoded_len_def entries_utf8_def value_utf8_def

section \<open>Lengthsand accessors\<close>

lemma value_len_encode: "encode_value [] v = Ok bs \<Longrightarrow> value_len v = length bs"
  by (cases v) (auto simp: encode_u16_def encode_string_def encode_binary_def string_len_def
      binary_len_def Let_def result_iffs split: if_splits)

lemma variable_int_len_id [simp]: "variable_int_len (ucast (PropertyId_as_u8 i)) = 1"
  using unat_u8_bound [of "PropertyId_as_u8 i"]
  by (subst variable_int_len_eq) (simp_all add: unat_u32_of_u8 vint_bytes_id)

lemma body_len_eq:
  assumes "\<forall>e \<in> set (entries p). is_ok (encode_value [] (snd e))"
  shows "body_len p = length (entries_bytes (entries p))"
proof -
  have "value_len v = length (projr (encode_value [] v))" if "is_ok (encode_value [] v)" for v
    using that value_len_encode by (auto simp: is_ok_iff)
  then have "map (\<lambda>(i, val). variable_int_len (ucast (PropertyId_as_u8 i)) + value_len val) (entries p)
      = map (\<lambda>(i, v). length (PropertyId_as_u8 i # projr (encode_value [] v))) (entries p)"
    using assms by auto
  then show ?thesis
    unfolding body_len_def by (simp only: entries_bytes_def length_concat map_map comp_def case_prod_unfold)
qed

lemma props_ok_body_len: "props_ok ctx (entries p) \<Longrightarrow> body_len p = length (entries_bytes (entries p))"
  by (intro body_len_eq) (auto simp: props_ok_def entry_ok_def)

text \<open>
  What a singleton lookup finds after \<open>replace_single\<close>, and that other identifiers keep their values.
\<close>

lemma lookup_replace_single:
  fixes f :: "PropertyId \<Rightarrow> PropertyValue \<Rightarrow> 'a option"
  shows "find_map (\<lambda>(pid, val). if pid = j then f pid val else None) (entries (replace_single p i v)) =
    (if i = j then f i v
     else find_map (\<lambda>(pid, val). if pid = j then f pid val else None) (entries p))"
proof (cases "i = j")
  case True
  have "find_map (\<lambda>(pid, val). if pid = j then f pid val else None)
      (filter (\<lambda>(property_id, _). property_id \<noteq> j) (entries p)) = None"
    by (auto simp: find_map_None_iff)
  then show ?thesis using True by (auto simp: replace_single_def find_map_append split: option.splits)
next
  case False
  then have "find_map (\<lambda>(pid, val). if pid = j then f pid val else None)
      (filter (\<lambda>(property_id, _). property_id \<noteq> i) (entries p)) =
    find_map (\<lambda>(pid, val). if pid = j then f pid val else None) (entries p)"
    by (intro find_map_filter_None) auto
  then show ?thesis using False by (auto simp: replace_single_def find_map_append split: option.splits)
qed

lemma singleton_ids_replace_single:
  assumes "i \<noteq> UserProperty" "distinct (singleton_ids (entries p))"
  shows "distinct (singleton_ids (entries (replace_single p i v)))"
proof -
  have "singleton_ids (filter (\<lambda>(property_id, _). property_id \<noteq> i) es) =
      filter (\<lambda>j. j \<noteq> i) (singleton_ids es)" for es :: "entry list"
    by (induction es) (auto simp: singleton_ids_def)
  then show ?thesis using assms by (auto simp: replace_single_def)
qed


text \<open>A property section that was written behind \<open>buf\<close>, in terms of its bytes.\<close>

lemma props_encode_for_OkD:
  assumes "props_encode_for p buf ctx = Ok buf'" and "encoded_len p < 2 ^ 32"
  shows "buf' = buf @ props_bytes (entries p)" "length (props_bytes (entries p)) = encoded_len p"
    "props_ok (Some ctx) (entries p)" "length (entries_bytes (entries p)) < 2 ^ 28"
proof -
  show ok: "props_ok (Some ctx) (entries p)"
    using assms(1) by (auto simp: props_encode_for_def props_encode_inner_def result_iffs encode_entries_Ok props_ok_def)
  note len = props_ok_body_len [OF ok]
  have "length (entries_bytes (entries p)) < 2 ^ 32" using assms(2) len by (simp add: encoded_len_def)
  then show "buf' = buf @ props_bytes (entries p)" and l: "length (entries_bytes (entries p)) < 2 ^ 28"
    using assms(1) by (simp_all add: props_encode_for_def props_encode_inner_Ok)
  show "length (props_bytes (entries p)) = encoded_len p"
    using l len by (simp add: encoded_len_def props_bytes_def variable_int_len_eq unat_u32_of_nat)
qed

lemma props_decode_for_written:
  assumes "props_encode_for p buf ctx = Ok buf'" "encoded_len p < 2 ^ 32" "entries_utf8 (entries p)"
    and "remaining_bytes c = props_bytes (entries p) @ rest" "position c + encoded_len p \<le> usize_max"
  shows "props_decode_for c ctx = Ok (p, advance c (length (props_bytes (entries p))))"
  using props_decode_inner_written [of "Some ctx" "entries p" c rest]
    props_encode_for_OkD [OF assms(1,2)] assms(3-5)
  by (simp add: props_decode_for_def)

lemma get_byte_SomeD: "get_byte p i = Some b \<Longrightarrow> (i, Byte b) \<in> set (entries p)"
  unfolding get_byte_def by (auto dest!: find_map_SomeD split: if_splits PropertyValue.splits)

lemma get_u16_SomeD: "get_u16 p i = Some b \<Longrightarrow> (i, U16 b) \<in> set (entries p)"
  unfolding get_u16_def by (auto dest!: find_map_SomeD split: if_splits PropertyValue.splits)

lemma get_u32_SomeD: "get_u32 p i = Some b \<Longrightarrow> (i, U32 b) \<in> set (entries p)"
  unfolding get_u32_def by (auto dest!: find_map_SomeD split: if_splits PropertyValue.splits)

lemma get_string_SomeD: "get_string p i = Some b \<Longrightarrow> (i, Str b) \<in> set (entries p)"
  unfolding get_string_def by (auto dest!: find_map_SomeD split: if_splits PropertyValue.splits)

text \<open>The ranges that \<open>validate_property\<close> enforces, for the values the client reads from a CONNACK.\<close>

lemma props_ok_ranges:
  assumes "props_ok ctx (entries p)"
  shows "get_byte p MaximumQoS = Some b \<Longrightarrow> b = 0 \<or> b = 1"
    "get_u16 p ReceiveMaximum = Some v \<Longrightarrow> v \<noteq> 0"
    "get_u32 p MaximumPacketSize = Some w \<Longrightarrow> w \<noteq> 0"
    "get_string p AssignedClientIdentifier = Some s \<Longrightarrow> s \<noteq> []"
proof -
  have v: "validate_property i x = Ok ()" if "(i, x) \<in> set (entries p)" for i x
    using assms that by (auto simp: props_ok_def entry_ok_def)
  show "b = 0 \<or> b = 1" if "get_byte p MaximumQoS = Some b"
  proof -
    have "\<not> 1 < b" using v [OF get_byte_SomeD [OF that]] by (auto simp: validate_property_def split: if_splits)
    then have "unat b \<le> 1" by (simp add: word_less_nat_alt)
    then show ?thesis by (auto simp: u8_eq_iff)
  qed
  show "v \<noteq> 0" if "get_u16 p ReceiveMaximum = Some v"
    using v [OF get_u16_SomeD [OF that]] by (auto simp: validate_property_def split: if_splits)
  show "w \<noteq> 0" if "get_u32 p MaximumPacketSize = Some w"
    using v [OF get_u32_SomeD [OF that]] by (auto simp: validate_property_def split: if_splits)
  show "s \<noteq> []" if "get_string p AssignedClientIdentifier = Some s"
    using v [OF get_string_SomeD [OF that]] by (auto simp: validate_property_def split: if_splits)
qed

section \<open>Correctness of the property section\<close>

text \<open>C17: Encoding a property list for a packet and decoding the bytes in the same context, at the
  place where they were written, gives the same list and leaves the cursor just behind them.\<close>

theorem props_roundtrip:
  assumes enc: "props_encode_for p buf ctx = Ok buf'" and utf8: "entries_utf8 (entries p)"
    and small: "body_len p < 2 ^ 32" and mem: "length (buf' @ rest) \<le> usize_max"
  shows "props_decode_for \<lparr>cur_buf = buf' @ rest, cur_pos = length buf\<rparr> ctx =
    Ok (p, \<lparr>cur_buf = buf' @ rest, cur_pos = length buf'\<rparr>)"
proof -
  have ok: "props_ok (Some ctx) (entries p)"
    using enc by (auto simp: props_encode_for_def props_encode_inner_def result_iffs encode_entries_Ok props_ok_def)
  note len = props_ok_body_len [OF ok]
  have w: "length (entries_bytes (entries p)) < 2 ^ 28" "buf' = buf @ props_bytes (entries p)"
    using enc small unfolding props_encode_for_def len
    by (simp_all add: props_encode_inner_Ok)
  show ?thesis
    using props_decode_inner_written [OF ok utf8 w(1), of "\<lparr>cur_buf = buf' @ rest, cur_pos = length buf\<rparr>" rest]
      w(2) mem
    by (simp add: props_decode_for_def remaining_bytes_def position_def advance_def)
qed

theorem props_roundtrip_witness:
  "props_decode_for \<lparr>cur_buf = [7, 9, 0x08, 0, 1, 0x61, 0x26, 0, 0, 0, 0, 3], cur_pos = 1\<rparr> Ctx_Publish =
    Ok (\<lparr>entries = [(ResponseTopic, Str [0x61]), (UserProperty, StringPair [] [])]\<rparr>,
        \<lparr>cur_buf = [7, 9, 0x08, 0, 1, 0x61, 0x26, 0, 0, 0, 0, 3], cur_pos = 11\<rparr>)"
proof -
  let ?p = "\<lparr>entries = [(ResponseTopic, Str [0x61]), (UserProperty, StringPair [] [])]\<rparr>"
  have "props_encode_for ?p [7] Ctx_Publish = Ok [7, 9, 0x08, 0, 1, 0x61, 0x26, 0, 0, 0, 0]"
    by (simp add: eval_defs)
  then show ?thesis
    using props_roundtrip [of ?p "[7]" Ctx_Publish "[7, 9, 0x08, 0, 1, 0x61, 0x26, 0, 0, 0, 0]" "[3]"]
    by (simp add: eval_defs)
qed



text \<open>C26: Whatever bytes a property section is decoded from, the list obeys the rules of its
  packet, the cursor stays inside the buffer, and the list can be sent again: it encodes, and
  its encoding decodes to the same list.\<close>

theorem props_decode_sound:
  assumes "props_decode_for c ctx = Ok (p, c')"
  shows "props_ok (Some ctx) (entries p) \<and> (\<exists>n. 0 < n \<and> n \<le> remaining c \<and> c' = advance c n)
    \<and> (\<exists>bs. props_encode_for p [] ctx = Ok bs
         \<and> props_decode_for (Cursor_new bs) ctx = Ok (p, advance (Cursor_new bs) (length bs)))"
proof -
  note s = props_decode_inner_sound [OF assms [unfolded props_decode_for_def]]
  then have l: "length (entries_bytes (entries p)) < 2 ^ 28" by simp
  have "length (props_bytes (entries p)) \<le> usize_max"
    using l length_vint_bytes [OF l] by (simp add: props_bytes_def usize_max_def)
  then have "props_decode_inner (Cursor_new (props_bytes (entries p))) (Some ctx) =
      Ok (p, advance (Cursor_new (props_bytes (entries p))) (length (props_bytes (entries p))))"
    using props_decode_inner_written [of "Some ctx" "entries p" "Cursor_new (props_bytes (entries p))" "[]"] s
    by simp
  moreover have "props_encode_inner p [] (Some ctx) = Ok (props_bytes (entries p))"
    using s by (simp add: props_encode_inner_Ok)
  ultimately show ?thesis
    using s by (auto simp: props_decode_for_def props_encode_for_def)
qed

theorem props_decode_sound_witness:
  "props_ok (Some Ctx_PubAck) [(UserProperty, StringPair [0x61] [])]"
proof -
  have "props_decode_for (Cursor_new [6, 0x26, 0, 1, 0x61, 0, 0]) Ctx_PubAck =
    Ok (\<lparr>entries = [(UserProperty, StringPair [0x61] [])]\<rparr>, \<lparr>cur_buf = [6, 0x26, 0, 1, 0x61, 0, 0], cur_pos = 7\<rparr>)"
    by (simp add: eval_defs props_decode_for_def props_decode_inner_def decode_entries.simps
      register_property_id_def PropertyId_from_u8_def read_string_def read_bytes_eq)
  from props_decode_sound [OF this] show ?thesis by simp
qed

text \<open>\<open>encoded_len\<close> predicts the number of bytes the encoder appends.\<close>

lemma props_encoded_len:
  assumes "props_encode_for p buf ctx = Ok buf'" and "body_len p < 2 ^ 32"
  shows "length buf' = length buf + encoded_len p"
proof -
  have ok: "props_ok (Some ctx) (entries p)"
    using assms(1) by (auto simp: props_encode_for_def props_encode_inner_def result_iffs encode_entries_Ok props_ok_def)
  note len = props_ok_body_len [OF ok]
  have "length (entries_bytes (entries p)) < 2 ^ 28" "buf' = buf @ props_bytes (entries p)"
    using assms unfolding props_encode_for_def len by (simp_all add: props_encode_inner_Ok)
  then show ?thesis
    by (simp add: encoded_len_def len props_bytes_def variable_int_len_eq unat_u32_of_nat)
qed

text \<open>Setting the response topic or the correlation data replaces the earlier value, whatever
  the list held, leaves the other accessors as they were, and keeps singletons unique.\<close>

lemma props_setters:
  "response_topic (set_response_topic p t) = Some t
   \<and> correlation_data (set_response_topic p t) = correlation_data p
   \<and> correlation_data (set_correlation_data p d) = Some d
   \<and> response_topic (set_correlation_data p d) = response_topic p
   \<and> user_properties (set_response_topic p t) = user_properties p
   \<and> user_properties (set_correlation_data p d) = user_properties p"
proof -
  have u: "user_properties (replace_single p i v) = user_properties p" if "i \<noteq> UserProperty" for i v
  proof -
    have "List.map_filter f (filter P xs) = List.map_filter f xs"
      if "\<And>x. \<not> P x \<Longrightarrow> f x = None" for f :: "entry \<Rightarrow> (rstr \<times> rstr) option" and P xs
      using that by (induction xs) (auto simp: List.map_filter_simps split: option.splits)
    then show ?thesis using that
      by (auto simp: user_properties_def replace_single_def map_filter_def split: prod.splits)
  qed
  show ?thesis
    using u by (simp add: response_topic_def correlation_data_def set_response_topic_def
        set_correlation_data_def get_string_def get_binary_def
        lookup_replace_single [of _ "\<lambda>_ val. case val of Str s \<Rightarrow> Some s | _ \<Rightarrow> None"]
        lookup_replace_single [of _ "\<lambda>_ val. case val of Binary s \<Rightarrow> Some s | _ \<Rightarrow> None"])
qed

end
