(* ===== verification/Options.thy ===== *)
theory Options
  imports Properties
begin

text \<open>
  Connection and publish options (\<^verbatim>\<open>src/options.rs\<close>).  A \<^verbatim>\<open>Duration\<close> is a number of nanoseconds.
  Whether \<^verbatim>\<open>Instant::now().checked_add(d)\<close> exists depends on the platform's clock; it is the
  parameter \<open>fits\<close> of the validation.
\<close>

type_synonym duration = nat

definition from_secs :: "nat \<Rightarrow> duration" where
  "from_secs n = n * 1000000000"

definition from_millis :: "nat \<Rightarrow> duration" where
  "from_millis n = n * 1000000"

definition DEFAULT_MAX_PACKET_SIZE :: nat where
  "DEFAULT_MAX_PACKET_SIZE = 1024 * 1024"

record ConnectOptions =
  co_client_id :: rstr
  co_keep_alive_secs :: u16
  co_clean_start :: bool
  co_username :: "rstr option"
  co_password :: "bytes option"
  co_connect_timeout :: duration
  co_ack_timeout :: duration
  co_poll_interval :: duration
  co_max_packet_size :: nat
  co_max_incoming_messages :: nat
  co_command_capacity :: nat
  co_event_capacity :: nat
  co_max_outbound_queue_bytes :: nat

definition ConnectOptions_default :: ConnectOptions where
  "ConnectOptions_default =
    \<lparr>co_client_id = [], co_keep_alive_secs = 60, co_clean_start = True, co_username = None,
     co_password = None, co_connect_timeout = from_secs 10, co_ack_timeout = from_secs 10,
     co_poll_interval = from_millis 2, co_max_packet_size = DEFAULT_MAX_PACKET_SIZE,
     co_max_incoming_messages = 256, co_command_capacity = 64, co_event_capacity = 256,
     co_max_outbound_queue_bytes = 4 * DEFAULT_MAX_PACKET_SIZE\<rparr>"

definition ConnectOptions_new :: "rstr \<Rightarrow> ConnectOptions" where
  "ConnectOptions_new client_id = ConnectOptions_default\<lparr>co_client_id := client_id\<rparr>"

definition with_keep_alive :: "ConnectOptions \<Rightarrow> u16 \<Rightarrow> ConnectOptions" where
  "with_keep_alive o' secs = o'\<lparr>co_keep_alive_secs := secs\<rparr>"

definition with_credentials :: "ConnectOptions \<Rightarrow> rstr \<Rightarrow> bytes \<Rightarrow> ConnectOptions" where
  "with_credentials o' user pass = o'\<lparr>co_username := Some user, co_password := Some pass\<rparr>"

definition with_clean_start :: "ConnectOptions \<Rightarrow> bool \<Rightarrow> ConnectOptions" where
  "with_clean_start o' clean = o'\<lparr>co_clean_start := clean\<rparr>"

definition with_connect_timeout :: "ConnectOptions \<Rightarrow> duration \<Rightarrow> ConnectOptions" where
  "with_connect_timeout o' timeout = o'\<lparr>co_connect_timeout := timeout\<rparr>"

definition with_ack_timeout :: "ConnectOptions \<Rightarrow> duration \<Rightarrow> ConnectOptions" where
  "with_ack_timeout o' timeout = o'\<lparr>co_ack_timeout := timeout\<rparr>"

definition with_poll_interval :: "ConnectOptions \<Rightarrow> duration \<Rightarrow> ConnectOptions" where
  "with_poll_interval o' interval = o'\<lparr>co_poll_interval := interval\<rparr>"

definition with_max_packet_size :: "ConnectOptions \<Rightarrow> nat \<Rightarrow> ConnectOptions" where
  "with_max_packet_size o' n = o'\<lparr>co_max_packet_size := n\<rparr>"

definition with_max_incoming_messages :: "ConnectOptions \<Rightarrow> nat \<Rightarrow> ConnectOptions" where
  "with_max_incoming_messages o' count =
     o'\<lparr>co_max_incoming_messages := count, co_event_capacity := count\<rparr>"

definition with_command_capacity :: "ConnectOptions \<Rightarrow> nat \<Rightarrow> ConnectOptions" where
  "with_command_capacity o' count = o'\<lparr>co_command_capacity := count\<rparr>"

definition with_event_capacity :: "ConnectOptions \<Rightarrow> nat \<Rightarrow> ConnectOptions" where
  "with_event_capacity o' count = o'\<lparr>co_event_capacity := count\<rparr>"

definition with_max_outbound_queue_bytes :: "ConnectOptions \<Rightarrow> nat \<Rightarrow> ConnectOptions" where
  "with_max_outbound_queue_bytes o' n = o'\<lparr>co_max_outbound_queue_bytes := n\<rparr>"

definition options_validate :: "(duration \<Rightarrow> bool) \<Rightarrow> ConnectOptions \<Rightarrow> unit result" where
  "options_validate fits o' =
    (if co_connect_timeout o' = 0
     then Err (InvalidOptions ''connect timeout must be non-zero'')
     else if co_ack_timeout o' = 0 then Err (InvalidOptions ''ack timeout must be non-zero'')
     else if co_poll_interval o' = 0 then Err (InvalidOptions ''poll interval must be non-zero'')
     else if \<not> (2 \<le> co_max_packet_size o' \<and> co_max_packet_size o' \<le> 268435460)
     then Err (InvalidOptions ''invalid maximum packet size'')
     else if co_max_incoming_messages o' = 0 \<or> co_command_capacity o' = 0
       \<or> co_event_capacity o' = 0 \<or> co_max_outbound_queue_bytes o' = 0
     then Err (InvalidOptions ''queue capacities must be non-zero'')
     else if \<not> fits (co_connect_timeout o') \<or> \<not> fits (co_ack_timeout o')
     then Err (InvalidOptions ''timeout is too large'')
     else Ok ())"

lemma options_validate_Ok:
  "options_validate fits o' = Ok () \<longleftrightarrow>
     0 < co_connect_timeout o' \<and> 0 < co_ack_timeout o' \<and> 0 < co_poll_interval o'
     \<and> co_max_packet_size o' \<in> {2..268435460}
     \<and> 0 < co_max_incoming_messages o' \<and> 0 < co_command_capacity o' \<and> 0 < co_event_capacity o'
     \<and> 0 < co_max_outbound_queue_bytes o'
     \<and> fits (co_connect_timeout o') \<and> fits (co_ack_timeout o')"
  by (auto simp: options_validate_def)

section \<open>Publish options\<close>

record PublishOptions =
  po_qos :: QoS
  po_retain :: bool
  po_properties :: Properties

definition PublishOptions_default :: PublishOptions where
  "PublishOptions_default =
    \<lparr>po_qos = AtMostOnce, po_retain = False, po_properties = Properties_new\<rparr>"

definition with_qos :: "PublishOptions \<Rightarrow> QoS \<Rightarrow> PublishOptions" where
  "with_qos o' qos = o'\<lparr>po_qos := qos\<rparr>"

definition with_retain :: "PublishOptions \<Rightarrow> bool \<Rightarrow> PublishOptions" where
  "with_retain o' retain = o'\<lparr>po_retain := retain\<rparr>"

definition with_properties :: "PublishOptions \<Rightarrow> Properties \<Rightarrow> PublishOptions" where
  "with_properties o' properties = o'\<lparr>po_properties := properties\<rparr>"

end
