(* ===== verification/Packets.thy ===== *)
theory Packets
  imports Properties
begin

text \<open>
  The control packets of \<^verbatim>\<open>src/codec/types.rs\<close> as records, and the way every encoder of the crate
  finishes: the fixed header is written with the length of the body, then the body is appended.
\<close>

record ConnectPacket =
  cp_protocol_version :: u8
  cp_clean_start :: bool
  cp_keep_alive :: u16
  cp_client_id :: rstr
  cp_username :: "rstr option"
  cp_password :: "bytes option"
  cp_properties :: Properties

record ConnAckPacket =
  ca_session_present :: bool
  ca_reason_code :: u8
  ca_properties :: Properties

record PublishPacket =
  pub_topic :: rstr
  pub_packet_id :: "u16 option"
  pub_payload :: bytes
  pub_qos :: QoS
  pub_retain :: bool
  pub_dup :: bool
  pub_properties :: Properties

record PubAckPacket =
  pa_packet_id :: u16
  pa_reason_code :: u8

record SubscribePacket =
  sub_packet_id :: u16
  sub_filters :: "(rstr \<times> QoS) list"
  sub_properties :: Properties

record SubAckPacket =
  sa_packet_id :: u16
  sa_reason_codes :: bytes

record UnsubscribePacket =
  uns_packet_id :: u16
  uns_filters :: "rstr list"
  uns_properties :: Properties

record UnsubAckPacket =
  ua_packet_id :: u16
  ua_reason_codes :: bytes

record DisconnectPacket =
  dc_reason_code :: u8

datatype Packet =
    Pkt_Connect ConnectPacket
  | Pkt_ConnAck ConnAckPacket
  | Pkt_Publish PublishPacket
  | Pkt_PubAck PubAckPacket
  | Pkt_Subscribe SubscribePacket
  | Pkt_SubAck SubAckPacket
  | Pkt_Unsubscribe UnsubscribePacket
  | Pkt_UnsubAck UnsubAckPacket
  | Pkt_PingReq
  | Pkt_PingResp
  | Pkt_Disconnect DisconnectPacket

section \<open>Fixed header and body\<close>

text \<open>
  \<^verbatim>\<open>encode_fixed_header(&mut packet, t, fl, body.len() as u32)?; packet.extend_from_slice(&body)\<close>.
  The cast keeps the low 32 bits of the length.
\<close>

definition finish_packet :: "PacketType \<Rightarrow> u8 \<Rightarrow> bytes \<Rightarrow> bytes result" where
  "finish_packet t fl body =
     and_then (encode_fixed_header [] t fl (word_of_nat (length body))) (\<lambda>packet.
     Ok (packet @ body))"

definition packet_bytes :: "PacketType \<Rightarrow> u8 \<Rightarrow> bytes \<Rightarrow> bytes" where
  "packet_bytes t fl body = header_bytes t fl (length body) @ body"

lemma finish_packet_Ok:
  "length body < 2 ^ 32 \<Longrightarrow> finish_packet t fl body = Ok bs \<longleftrightarrow>
     header_ok t fl \<and> length body < 2 ^ 28 \<and> bs = packet_bytes t fl body"
  by (auto simp: finish_packet_def result_iffs encode_fixed_header_Ok unat_u32_of_nat packet_bytes_def)

lemma finish_packet_too_large:
  assumes "header_ok t fl" and "2 ^ 28 \<le> length body" and "length body < 2 ^ 32"
  shows "finish_packet t fl body = Err (PacketTooLarge (length body) 268435455)"
  using assms by (simp add: finish_packet_def encode_fixed_header_eq unat_u32_of_nat)

lemma header_ok_simps [simp]:
  "header_ok PT_PubAck 0" "header_ok PT_Disconnect 0" "header_ok PT_Connect 0"
  "header_ok PT_Subscribe 2" "header_ok PT_Unsubscribe 2" "header_ok PT_PingReq 0"
  "header_ok PT_PingResp 0"
  by (simp_all add: header_ok_def validate_fixed_header_def)

lemmas [eval_defs] = finish_packet_def encode_fixed_header_Ok packet_bytes_def header_bytes_def
  type_byte_def header_ok_def validate_fixed_header_def

end
