(* ===== verification/Publish.thy ===== *)
theory Publish
  imports Packets
begin

unbundle bit_operations_syntax

text \<open>
  PUBLISH and PUBACK (\<^verbatim>\<open>src/codec/publish.rs\<close>).
\<close>

section \<open>PUBLISH\<close>

definition publish_flags :: "PublishPacket \<Rightarrow> u8" where
  "publish_flags p =
     (let flags = (if pub_dup p then 0 OR 0x08 else 0);
          flags = flags OR push_bit 1 (QoS_as_u8 (pub_qos p))
      in if pub_retain p then flags OR 0x01 else flags)"

definition check_publish_id :: "QoS \<Rightarrow> u16 option \<Rightarrow> unit result" where
  "check_publish_id q i =
    (case (q, i) of
       (AtMostOnce, None) \<Rightarrow> Ok ()
     | (AtMostOnce, Some _) \<Rightarrow> Err (MalformedPacket ''QoS 0 PUBLISH has packet identifier'')
     | (AtLeastOnce, None) \<Rightarrow>
         Err (MalformedPacket ''QoS 1 PUBLISH needs non-zero packet identifier'')
     | (AtLeastOnce, Some n) \<Rightarrow>
         if n = 0 then Err (MalformedPacket ''QoS 1 PUBLISH needs non-zero packet identifier'')
         else Ok ())"

definition PublishPacket_encode :: "PublishPacket \<Rightarrow> bytes result" where
  "PublishPacket_encode p =
     and_then (check_publish_id (pub_qos p) (pub_packet_id p)) (\<lambda>_.
     and_then (validate_topic_name (pub_topic p)) (\<lambda>_.
     and_then (encode_string [] (pub_topic p)) (\<lambda>body.
     let body = (case pub_packet_id p of Some i \<Rightarrow> encode_u16 body i | None \<Rightarrow> body) in
     and_then (props_encode_for (pub_properties p) body Ctx_Publish) (\<lambda>body.
     let body = body @ pub_payload p in
     finish_packet PT_Publish (publish_flags p) body))))"

definition decode_publish_id :: "QoS \<Rightarrow> Cursor \<Rightarrow> (u16 option \<times> Cursor) result" where
  "decode_publish_id qos cur =
    (if qos \<noteq> AtMostOnce then
       and_then (read_u16 cur) (\<lambda>(packet_id, cur).
         if packet_id = 0 then Err (MalformedPacket ''PUBLISH packet identifier is zero'')
         else Ok (Some packet_id, cur))
     else Ok (None, cur))"

definition PublishPacket_decode :: "u8 \<Rightarrow> bytes \<Rightarrow> PublishPacket result" where
  "PublishPacket_decode fl body =
    (let dup = (fl AND 0x08 \<noteq> 0) in
     and_then (QoS_from_u8 (drop_bit 1 fl AND 0x03)) (\<lambda>qos.
     let retain = (fl AND 0x01 \<noteq> 0) in
     and_then (read_string (Cursor_new body)) (\<lambda>(topic, cur).
     and_then (validate_topic_name topic) (\<lambda>_.
     and_then (decode_publish_id qos cur) (\<lambda>(packet_id, cur).
     and_then (props_decode_for cur Ctx_Publish) (\<lambda>(properties, cur).
     Ok \<lparr>pub_topic = topic, pub_packet_id = packet_id, pub_payload = remaining_bytes cur,
         pub_qos = qos, pub_retain = retain, pub_dup = dup, pub_properties = properties\<rparr>))))))"

section \<open>PUBACK\<close>

definition is_puback_reason_code :: "u8 \<Rightarrow> bool" where
  "is_puback_reason_code code \<longleftrightarrow>
     code \<in> {0x00, 0x10, 0x80, 0x83, 0x87, 0x90, 0x91, 0x97, 0x99}"

definition PubAckPacket_encode :: "PubAckPacket \<Rightarrow> bytes result" where
  "PubAckPacket_encode p =
    (if pa_packet_id p = 0 then Err (MalformedPacket ''PUBACK packet identifier is zero'')
     else if \<not> is_puback_reason_code (pa_reason_code p)
     then Err (InvalidReasonCode (pa_reason_code p))
     else if pa_reason_code p = 0x00 then
       and_then (encode_fixed_header [] PT_PubAck 0 2) (\<lambda>packet.
       Ok (encode_u16 packet (pa_packet_id p)))
     else
       and_then (encode_fixed_header [] PT_PubAck 0 3) (\<lambda>packet.
       Ok (encode_u16 packet (pa_packet_id p) @ [pa_reason_code p])))"

text \<open>The optional property section at the end of an acknowledgement; its value is not kept.\<close>

definition decode_tail_properties :: "Cursor \<Rightarrow> PropertyContext \<Rightarrow> Cursor result" where
  "decode_tail_properties cur ctx =
    (if remaining cur > 0 then and_then (props_decode_for cur ctx) (\<lambda>(_, cur). Ok cur)
     else Ok cur)"

definition PubAckPacket_decode :: "bytes \<Rightarrow> PubAckPacket result" where
  "PubAckPacket_decode body =
     and_then (read_u16 (Cursor_new body)) (\<lambda>(packet_id, cur).
     if packet_id = 0 then Err (MalformedPacket ''PUBACK packet identifier is zero'')
     else
       and_then (if remaining cur > 0 then read_u8 cur else Ok (0x00, cur)) (\<lambda>(reason_code, cur).
       if \<not> is_puback_reason_code reason_code then Err (InvalidReasonCode reason_code)
       else
         and_then (decode_tail_properties cur Ctx_PubAck) (\<lambda>cur.
         if remaining cur \<noteq> 0 then Err (MalformedPacket ''trailing PUBACK bytes'')
         else Ok \<lparr>pa_packet_id = packet_id, pa_reason_code = reason_code\<rparr>)))"

section \<open>PUBLISH round trip\<close>

text \<open>The number of bytes behind the fixed header.\<close>

definition publish_body_len :: "PublishPacket \<Rightarrow> nat" where
  "publish_body_len p =
     string_len (pub_topic p) + (case pub_packet_id p of None \<Rightarrow> 0 | Some _ \<Rightarrow> 2)
     + encoded_len (pub_properties p) + length (pub_payload p)"

definition publish_utf8 :: "PublishPacket \<Rightarrow> bool" where
  "publish_utf8 p \<longleftrightarrow> utf8_valid (pub_topic p) \<and> entries_utf8 (entries (pub_properties p))"

definition publish_id_bytes :: "PublishPacket \<Rightarrow> bytes" where
  "publish_id_bytes p = (case pub_packet_id p of None \<Rightarrow> [] | Some i \<Rightarrow> u16_to_be_bytes i)"

lemma publish_flags_fields:
  "publish_flags p AND 0x08 \<noteq> 0 \<longleftrightarrow> pub_dup p"
  "drop_bit (Suc 0) (publish_flags p) AND 0x03 = QoS_as_u8 (pub_qos p)"
  "publish_flags p AND 0x01 \<noteq> 0 \<longleftrightarrow> pub_retain p"
  by (cases "pub_qos p"; simp add: publish_flags_def Let_def)+

lemma check_publish_id_Ok:
  "check_publish_id q i = Ok () \<longleftrightarrow> (case q of AtMostOnce \<Rightarrow> i = None | AtLeastOnce \<Rightarrow> \<exists>n. i = Some n \<and> n \<noteq> 0)"
  by (auto simp: check_publish_id_def split: QoS.splits option.splits)

lemma PublishPacket_encode_Ok:
  assumes enc: "PublishPacket_encode p = Ok bs" and size: "publish_body_len p < 2 ^ 32"
  obtains tb where "encode_string [] (pub_topic p) = Ok tb"
    "check_publish_id (pub_qos p) (pub_packet_id p) = Ok ()" "validate_topic_name (pub_topic p) = Ok ()"
    "props_encode_for (pub_properties p) (tb @ publish_id_bytes p) Ctx_Publish
      = Ok (tb @ publish_id_bytes p @ props_bytes (entries (pub_properties p)))"
    "header_ok PT_Publish (publish_flags p)" "publish_body_len p < 2 ^ 28"
    "bs = packet_bytes PT_Publish (publish_flags p)
       (tb @ publish_id_bytes p @ props_bytes (entries (pub_properties p)) @ pub_payload p)"
    "length (tb @ publish_id_bytes p @ props_bytes (entries (pub_properties p)) @ pub_payload p)
       = publish_body_len p"
proof -
  let ?id = "publish_id_bytes p"
  have idl: "(case pub_packet_id p of Some i \<Rightarrow> encode_u16 tb i | None \<Rightarrow> tb) = tb @ ?id" for tb
    by (simp add: encode_u16_def publish_id_bytes_def split: option.splits)
  from enc obtain tb b2 where c: "encode_string [] (pub_topic p) = Ok tb"
    "check_publish_id (pub_qos p) (pub_packet_id p) = Ok ()" "validate_topic_name (pub_topic p) = Ok ()"
    and pe: "props_encode_for (pub_properties p) (tb @ ?id) Ctx_Publish = Ok b2"
    and fin: "finish_packet PT_Publish (publish_flags p) (b2 @ pub_payload p) = Ok bs"
    by (auto simp: PublishPacket_encode_def result_iffs Let_def idl)
  have el: "encoded_len (pub_properties p) < 2 ^ 32" using size by (simp add: publish_body_len_def)
  note pd = props_encode_for_OkD [OF pe el]
  have tl: "length tb = string_len (pub_topic p)"
    using c(1) by (auto simp: encode_string_def string_len_def Let_def split: if_splits)
  have len: "length (b2 @ pub_payload p) = publish_body_len p"
    using pd tl by (simp add: publish_body_len_def publish_id_bytes_def split: option.splits)
  show ?thesis
    using that [OF c] pe pd(1) fin len size by (simp add: finish_packet_Ok)
qed

lemma publish_body_roundtrip:
  assumes enc: "PublishPacket_encode p = Ok bs" and size: "publish_body_len p < 2 ^ 32" and utf8: "publish_utf8 p"
  obtains body where "bs = packet_bytes PT_Publish (publish_flags p) body" "length body = publish_body_len p"
    "publish_body_len p < 2 ^ 28" "header_ok PT_Publish (publish_flags p)"
    "PublishPacket_decode (publish_flags p) body = Ok p"
  using enc size
proof (rule PublishPacket_encode_Ok)
  let ?id = "publish_id_bytes p"
  let ?pb = "props_bytes (entries (pub_properties p))"
  fix tb
  let ?body = "tb @ ?id @ ?pb @ pub_payload p"
  assume t: "encode_string [] (pub_topic p) = Ok tb" "validate_topic_name (pub_topic p) = Ok ()"
    and id: "check_publish_id (pub_qos p) (pub_packet_id p) = Ok ()"
    and pe: "props_encode_for (pub_properties p) (tb @ ?id) Ctx_Publish = Ok (tb @ ?id @ ?pb)"
    and h: "header_ok PT_Publish (publish_flags p)" "publish_body_len p < 2 ^ 28"
    and bs: "bs = packet_bytes PT_Publish (publish_flags p) ?body" and len: "length ?body = publish_body_len p"
  define c where "c = Cursor_new ?body"
  have rs: "read_string c = Ok (pub_topic p, advance c (length tb))"
    using utf8 t(1) by (intro str_field.get_put [where rest = "?id @ ?pb @ pub_payload p"]) (simp_all add: publish_utf8_def c_def)
  have el: "encoded_len (pub_properties p) < 2 ^ 32" using size by (simp add: publish_body_len_def)
  have pos: "position (advance c (length tb + length ?id)) + encoded_len (pub_properties p) \<le> usize_max"
    using len h(2) props_encode_for_OkD(2) [OF pe el] by (simp add: c_def usize_max_def)
  have dp: "props_decode_for (advance c (length tb + length ?id)) Ctx_Publish =
      Ok (pub_properties p, advance (advance c (length tb + length ?id)) (length ?pb))"
    using pos utf8
    by (intro props_decode_for_written [OF pe el, where rest = "pub_payload p"]) (simp_all add: publish_utf8_def c_def)
  have rid: "decode_publish_id (pub_qos p) (advance c (length tb)) = Ok (pub_packet_id p, advance c (length tb + length ?id))"
  proof (cases "pub_qos p")
    case AtLeastOnce
    then obtain n where n: "pub_packet_id p = Some n" "n \<noteq> 0" using id by (auto simp: check_publish_id_Ok)
    then have "read_u16 (advance c (length tb)) = Ok (n, advance (advance c (length tb)) 2)"
      by (intro read_u16_be [where rest = "?pb @ pub_payload p"]) (simp add: c_def publish_id_bytes_def)
    then show ?thesis using n AtLeastOnce by (simp add: decode_publish_id_def publish_id_bytes_def)
  qed (use id in \<open>simp add: check_publish_id_Ok decode_publish_id_def publish_id_bytes_def\<close>)
  have "PublishPacket_decode (publish_flags p) ?body = Ok p"
    using rs t(2) rid dp
    by (simp add: PublishPacket_decode_def publish_flags_fields Let_def c_def [symmetric])
      (simp add: c_def)
  with that [OF bs len h(2,1)] show ?thesis .
qed

lemma decode_publish_id_Ok:
  "decode_publish_id q c = Ok (i, c') \<Longrightarrow> check_publish_id q i = Ok () \<and>
     (\<exists>k \<le> remaining c. c' = advance c k \<and> k = (case i of None \<Rightarrow> 0 | Some _ \<Rightarrow> 2))"
  by (cases q) (auto simp: decode_publish_id_def result_iffs read_u16_eq check_publish_id_Ok split: if_splits)

text \<open>What a decoded PUBLISH guarantees.\<close>

lemma PublishPacket_decode_sound:
  assumes "PublishPacket_decode fl body = Ok p"
  shows "publish_utf8 p" "check_publish_id (pub_qos p) (pub_packet_id p) = Ok ()"
    "validate_topic_name (pub_topic p) = Ok ()" "is_ok (encode_string [] (pub_topic p))"
    "props_ok (Some Ctx_Publish) (entries (pub_properties p))"
    "publish_body_len p \<le> length body" "fl \<le> 0x0F \<Longrightarrow> publish_flags p = fl"
    "length (entries_bytes (entries (pub_properties p))) < 2 ^ 28"
proof -
  from assms obtain topic c1 c2 c3 where
    q: "QoS_from_u8 (drop_bit 1 fl AND 0x03) = Ok (pub_qos p)"
    and t: "read_string (Cursor_new body) = Ok (topic, c1)" "validate_topic_name topic = Ok ()" "pub_topic p = topic"
    and i: "decode_publish_id (pub_qos p) c1 = Ok (pub_packet_id p, c2)"
    and d: "props_decode_for c2 Ctx_Publish = Ok (pub_properties p, c3)"
    and pl: "pub_payload p = remaining_bytes c3" "pub_dup p = (fl AND 0x08 \<noteq> 0)" "pub_retain p = (fl AND 0x01 \<noteq> 0)"
    by (auto simp: PublishPacket_decode_def result_iffs Let_def)
  obtain tb where tb: "encode_string [] topic = Ok tb" "utf8_valid topic" "consumed (Cursor_new body) tb c1"
    using read_string_consumed [OF t(1)] by auto
  obtain k where k: "c2 = advance c1 k" "k \<le> remaining c1" "(case pub_packet_id p of None \<Rightarrow> 0 | Some _ \<Rightarrow> 2) = k"
    and id: "check_publish_id (pub_qos p) (pub_packet_id p) = Ok ()"
    using decode_publish_id_Ok [OF i] by auto
  note s = props_decode_inner_sound [OF d [unfolded props_decode_for_def]]
  then obtain n where n: "n \<le> remaining c2" "c3 = advance c2 n" "length (props_bytes (entries (pub_properties p))) \<le> n" by auto
  show "publish_utf8 p" using s tb t(3) by (simp add: publish_utf8_def)
  show "check_publish_id (pub_qos p) (pub_packet_id p) = Ok ()" by (rule id)
  show "validate_topic_name (pub_topic p) = Ok ()" using t by simp
  show "is_ok (encode_string [] (pub_topic p))" using tb t(3) by simp
  show ok: "props_ok (Some Ctx_Publish) (entries (pub_properties p))" using s by simp
  show l: "length (entries_bytes (entries (pub_properties p))) < 2 ^ 28" using s by simp
  have "length (props_bytes (entries (pub_properties p))) = encoded_len (pub_properties p)"
    using props_ok_body_len [OF ok] l by (simp add: encoded_len_def props_bytes_def variable_int_len_eq unat_u32_of_nat)
  moreover have "length tb = string_len topic"
    using tb(1) by (auto simp: encode_string_def string_len_def Let_def split: if_splits)
  moreover have "length tb \<le> length body" using consumed_remaining [OF tb(3)] by simp
  ultimately show "publish_body_len p \<le> length body"
    using n k tb(3) pl(1) t(3) by (simp add: publish_body_len_def consumed_def)
  show "publish_flags p = fl" if "fl \<le> 0x0F"
    using nibble_cases [OF that] q pl by (auto simp: publish_flags_def Let_def QoS_from_u8_def split: if_splits)
qed

lemma PublishPacket_encode_decoded:
  assumes d: "PublishPacket_decode fl body = Ok p" and fl: "header_ok PT_Publish fl" and len: "length body < 2 ^ 28"
  shows "\<exists>bs. PublishPacket_encode p = Ok bs \<and> length bs \<le> length (header_bytes PT_Publish fl (length body)) + length body"
proof -
  note s = PublishPacket_decode_sound [OF d]
  have flags: "publish_flags p = fl" using s(7) fl by (simp add: header_ok_def)
  obtain tb where tb: "encode_string [] (pub_topic p) = Ok tb" using s(4) by (auto simp: is_ok_iff)
  have tl: "length tb = string_len (pub_topic p)"
    using tb by (auto simp: encode_string_def string_len_def Let_def split: if_splits)
  let ?b = "tb @ publish_id_bytes p" let ?pb = "props_bytes (entries (pub_properties p))"
  have pe: "props_encode_for (pub_properties p) ?b Ctx_Publish = Ok (?b @ ?pb)"
    using s(5,8) by (simp add: props_encode_for_def props_encode_inner_Ok)
  have pl: "length ?pb = encoded_len (pub_properties p)"
    using props_ok_body_len [OF s(5)] s(8) by (simp add: encoded_len_def props_bytes_def variable_int_len_eq unat_u32_of_nat)
  have bl: "length (?b @ ?pb @ pub_payload p) = publish_body_len p"
    using tl pl by (simp add: publish_body_len_def publish_id_bytes_def split: option.splits)
  have le: "publish_body_len p \<le> length body" "publish_body_len p < 2 ^ 28" using s(6) len by simp_all
  have "(case pub_packet_id p of Some i \<Rightarrow> encode_u16 tb i | None \<Rightarrow> tb) = ?b"
    by (simp add: encode_u16_def publish_id_bytes_def split: option.splits)
  then have "PublishPacket_encode p = finish_packet PT_Publish fl (?b @ ?pb @ pub_payload p)"
    using s(2,3) tb pe flags by (simp add: PublishPacket_encode_def Let_def)
  also have "\<dots> = Ok (packet_bytes PT_Publish fl (?b @ ?pb @ pub_payload p))"
    using fl le bl by (subst finish_packet_Ok) simp_all
  finally show ?thesis
    using bl le length_vint_bytes_mono [OF le(1) len] by (simp add: packet_bytes_def header_bytes_def)
qed

section \<open>PUBACK round trip\<close>

lemma PubAckPacket_decode_encode:
  assumes "PubAckPacket_encode p = Ok bs"
  obtains body where "bs = packet_bytes PT_PubAck 0 body" "length body < 2 ^ 28" "PubAckPacket_decode body = Ok p"
proof -
  let ?body = "u16_to_be_bytes (pa_packet_id p) @ (if pa_reason_code p = 0 then [] else [pa_reason_code p])"
  have c: "pa_packet_id p \<noteq> 0" "is_puback_reason_code (pa_reason_code p)"
    using assms by (auto simp: PubAckPacket_encode_def split: if_splits)
  have "bs = packet_bytes PT_PubAck 0 ?body"
    using assms c by (auto simp: PubAckPacket_encode_def encode_fixed_header_Ok result_iffs encode_u16_def packet_bytes_def
       split: if_splits) (simp_all add: numeral_2_eq_2 numeral_3_eq_3)
  moreover have "read_u16 (Cursor_new ?body) = Ok (pa_packet_id p, advance (Cursor_new ?body) 2)"
    by (rule read_u16_be) simp
  then have "PubAckPacket_decode ?body = Ok p"
    using c by (auto simp: PubAckPacket_decode_def read_u8_eq decode_tail_properties_def)
  ultimately show ?thesis using that [of ?body] by simp
qed

text \<open>Whatever is accepted as an acknowledgement has a usable identifier and a known reason.\<close>

lemma PubAckPacket_decode_sound:
  "PubAckPacket_decode body = Ok p \<Longrightarrow> pa_packet_id p \<noteq> 0 \<and> is_puback_reason_code (pa_reason_code p)"
  by (auto simp: PubAckPacket_decode_def result_iffs split: if_splits)

lemma PubAckPacket_encode_total:
  "is_ok (PubAckPacket_encode p) \<longleftrightarrow> pa_packet_id p \<noteq> 0 \<and> is_puback_reason_code (pa_reason_code p)"
  by (auto simp: PubAckPacket_encode_def encode_fixed_header_eq)

end
