(* ===== verification/Disconnect.thy ===== *)
theory Disconnect
  imports Publish
begin

text \<open>
  The ping constants and DISCONNECT (\<^verbatim>\<open>src/codec/ping.rs\<close>).
\<close>

definition PINGREQ_BYTES :: bytes where
  "PINGREQ_BYTES = [0xC0, 0x00]"

definition PINGRESP_BYTES :: bytes where
  "PINGRESP_BYTES = [0xD0, 0x00]"

definition is_disconnect_reason_code :: "u8 \<Rightarrow> bool" where
  "is_disconnect_reason_code code \<longleftrightarrow>
     code \<in> {0x00, 0x04, 0x80, 0x81, 0x82, 0x83, 0x87, 0x89, 0x8B, 0x8D, 0x8E, 0x8F, 0x90, 0x93,
             0x94, 0x95, 0x96, 0x97, 0x98, 0x99, 0x9A, 0x9B, 0x9C, 0x9D, 0x9E, 0x9F, 0xA0, 0xA1,
             0xA2}"

definition DisconnectPacket_encode :: "DisconnectPacket \<Rightarrow> bytes result" where
  "DisconnectPacket_encode p =
    (if \<not> is_disconnect_reason_code (dc_reason_code p)
     then Err (InvalidReasonCode (dc_reason_code p))
     else if dc_reason_code p = 0x00 then encode_fixed_header [] PT_Disconnect 0 0
     else
       and_then (encode_fixed_header [] PT_Disconnect 0 1) (\<lambda>packet.
       Ok (packet @ [dc_reason_code p])))"

definition DisconnectPacket_decode :: "bytes \<Rightarrow> DisconnectPacket result" where
  "DisconnectPacket_decode body =
    (let cur = Cursor_new body in
     and_then (if body = [] then Ok (0x00, cur) else read_u8 cur) (\<lambda>(reason_code, cur).
     if \<not> is_disconnect_reason_code reason_code then Err (InvalidReasonCode reason_code)
     else
       and_then (decode_tail_properties cur Ctx_Disconnect) (\<lambda>cur.
       if remaining cur \<noteq> 0 then Err (MalformedPacket ''trailing DISCONNECT bytes'')
       else Ok \<lparr>dc_reason_code = reason_code\<rparr>)))"

lemma DisconnectPacket_decode_encode:
  assumes "DisconnectPacket_encode p = Ok bs"
  obtains body where "bs = packet_bytes PT_Disconnect 0 body" "length body < 2 ^ 28" "DisconnectPacket_decode body = Ok p"
proof -
  let ?body = "if dc_reason_code p = 0 then [] else [dc_reason_code p]"
  have c: "is_disconnect_reason_code (dc_reason_code p)"
    using assms by (auto simp: DisconnectPacket_encode_def split: if_splits)
  have "bs = packet_bytes PT_Disconnect 0 ?body"
    using assms c by (auto simp: DisconnectPacket_encode_def encode_fixed_header_Ok result_iffs packet_bytes_def
       split: if_splits)
  moreover have "DisconnectPacket_decode ?body = Ok p"
    using c by (auto simp: DisconnectPacket_decode_def read_u8_eq decode_tail_properties_def)
  ultimately show ?thesis using that [of ?body] by simp
qed

end
