(* ===== verification/Transport.thy ===== *)
theory Transport
  imports Options Disconnect "HOL-Library.Monad_Syntax"
begin

text \<open>
  The byte-stream interface (\<^verbatim>\<open>src/transport.rs\<close>).  The trait's methods and the clock are not code
  of the crate: a record of operations on a world \<^typ>\<open>'w\<close> stands for an implementation of the
  trait together with \<^verbatim>\<open>Instant::now()\<close>, and is an argument of everything that uses it.  A read
  returns the bytes it put into the caller's buffer.  Instants and durations are natural numbers
  of nanoseconds; \<open>tr_instant_max\<close> is the largest instant the platform represents.

  A computation of the blocking client may wait forever, so it is a partial function: \<^term>\<open>None\<close>
  is not returning, \<^term>\<open>Some (r, s)\<close> is returning \<open>r\<close> in the state \<open>s\<close>.
\<close>

type_synonym instant = nat

record 'w Transport =
  tr_write :: "bytes \<Rightarrow> 'w \<Rightarrow> nat io_result \<times> 'w"
  tr_flush :: "'w \<Rightarrow> unit io_result \<times> 'w"
  tr_read :: "nat \<Rightarrow> 'w \<Rightarrow> bytes io_result \<times> 'w"
  tr_set_nonblocking :: "bool \<Rightarrow> 'w \<Rightarrow> unit io_result \<times> 'w"
  tr_set_read_timeout :: "duration option \<Rightarrow> 'w \<Rightarrow> unit io_result \<times> 'w"
  tr_set_write_timeout :: "duration option \<Rightarrow> 'w \<Rightarrow> unit io_result \<times> 'w"
  tr_shutdown :: "'w \<Rightarrow> unit io_result \<times> 'w"
  tr_now :: "'w \<Rightarrow> instant \<times> 'w"
  tr_instant_max :: instant

text \<open>
  What the standard library documents for \<^verbatim>\<open>read\<close> and \<^verbatim>\<open>write\<close>: no more bytes are reported than the
  buffer holds.
\<close>

definition transport_ok :: "'w Transport \<Rightarrow> bool" where
  "transport_ok tr \<longleftrightarrow>
     (\<forall>n w bs w'. tr_read tr n w = (Ok bs, w') \<longrightarrow> length bs \<le> n)
     \<and> (\<forall>buf w n w'. tr_write tr buf w = (Ok n, w') \<longrightarrow> n \<le> length buf)"

definition instant_checked_add :: "'w Transport \<Rightarrow> instant \<Rightarrow> duration \<Rightarrow> instant option" where
  "instant_checked_add tr t d = (if t + d \<le> tr_instant_max tr then Some (t + d) else None)"

section \<open>\<^verbatim>\<open>write_all\<close>\<close>

partial_function (option) write_all ::
  "'w Transport \<Rightarrow> bytes \<Rightarrow> 'w \<Rightarrow> (unit io_result \<times> 'w) option" where
  "write_all tr buf w =
    (if buf = [] then Some (Ok (), w)
     else case tr_write tr buf w of
       (Inr n, w') \<Rightarrow>
         if n = 0 then Some (Err (IoError WriteZero ''''), w')
         else write_all tr (drop n buf) w'
     | (Inl error, w') \<Rightarrow>
         if io_kind error = Interrupted then write_all tr buf w'
         else Some (Err error, w'))"

section \<open>Methods\<close>

text \<open>
  A method on an object \<^typ>\<open>'s\<close>: it may not return, fail, or return a value; it leaves the object
  changed.
\<close>

type_synonym ('s, 'a) comp = "'s \<Rightarrow> ('a result \<times> 's) option"

definition returns :: "'a result \<Rightarrow> ('s, 'a) comp" where
  "returns r c = Some (r, c)"

text \<open>\<^verbatim>\<open>let x = m?; k\<close>\<close>

definition andM :: "('s, 'a) comp \<Rightarrow> ('a \<Rightarrow> ('s, 'b) comp) \<Rightarrow> ('s, 'b) comp" where
  "andM m k c =
     Option.bind (m c) (\<lambda>(r, c'). case r of Inl e \<Rightarrow> Some (Err e, c') | Inr x \<Rightarrow> k x c')"

definition updM :: "('s \<Rightarrow> 's) \<Rightarrow> ('s, unit) comp" where
  "updM f c = Some (Ok (), f c)"

lemma andM_Some:
  "andM m k c = Some (r, c') \<longleftrightarrow>
     (\<exists>e. m c = Some (Err e, c') \<and> r = Err e) \<or> (\<exists>x c1. m c = Some (Ok x, c1) \<and> k x c1 = Some (r, c'))"
proof (cases "m c")
  case (Some p)
  then show ?thesis by (cases p; cases "fst p") (auto simp: andM_def)
qed (simp add: andM_def)

lemma andM_Ok:
  "andM m k c = Some (Ok x, c') \<longleftrightarrow> (\<exists>y c1. m c = Some (Ok y, c1) \<and> k y c1 = Some (Ok x, c'))"
  by (auto simp: andM_Some)

lemma andM_mono [partial_function_mono]:
  assumes "mono_option (\<lambda>f. m f c)" "\<And>x c'. mono_option (\<lambda>f. k f x c')"
  shows "mono_option (\<lambda>f. andM (m f) (k f) c)"
  unfolding andM_def
proof (intro bind_mono assms(1))
  fix y
  show "mono_option (\<lambda>f. case y of (r, c') \<Rightarrow> case r of Inl e \<Rightarrow> Some (Err e, c') | Inr x \<Rightarrow> k f x c')"
    by (cases y; cases "fst y") (auto intro: assms(2) option.const_mono)
qed

end
