(* ===== verification/Subscribe.thy ===== *)
theory Subscribe
  imports Packets
begin

text \<open>
  SUBSCRIBE, SUBACK, UNSUBSCRIBE and UNSUBACK (\<^verbatim>\<open>src/codec/subscribe.rs\<close>).
\<close>

fun validate_suback_pairs :: "(u8 \<times> QoS) list \<Rightarrow> unit result" where
  "validate_suback_pairs [] = Ok ()"
| "validate_suback_pairs ((granted, requested) # ps) =
    (if granted \<ge> 0x80 then Err (AckRejected ''SUBACK'' granted)
     else if granted = 2 \<or> granted > QoS_as_u8 requested
     then Err (MalformedPacket ''SUBACK granted unsupported or unrequested QoS'')
     else validate_suback_pairs ps)"

definition validate_suback_codes :: "bytes \<Rightarrow> QoS list \<Rightarrow> unit result" where
  "validate_suback_codes reason_codes requested_qos =
    (if length reason_codes \<noteq> length requested_qos
     then Err (MalformedPacket ''ack reason code count mismatch'')
     else validate_suback_pairs (zip reason_codes requested_qos))"

section \<open>Requests\<close>

fun encode_sub_filters :: "bytes \<Rightarrow> (rstr \<times> QoS) list \<Rightarrow> bytes result" where
  "encode_sub_filters body [] = Ok body"
| "encode_sub_filters body ((flt, qos) # fs) =
     and_then (validate_topic_filter flt) (\<lambda>_.
     and_then (encode_string body flt) (\<lambda>body.
     encode_sub_filters (body @ [QoS_as_u8 qos]) fs))"

definition SubscribePacket_encode :: "SubscribePacket \<Rightarrow> bytes result" where
  "SubscribePacket_encode p =
    (if sub_packet_id p = 0 then Err (MalformedPacket ''SUBSCRIBE packet identifier is zero'')
     else if sub_filters p = [] then Err (MalformedPacket ''SUBSCRIBE has no filters'')
     else
       let body = encode_u16 [] (sub_packet_id p) in
       and_then (props_encode_for (sub_properties p) body Ctx_Subscribe) (\<lambda>body.
       and_then (encode_sub_filters body (sub_filters p)) (\<lambda>body.
       finish_packet PT_Subscribe 0x02 body)))"

fun encode_unsub_filters :: "bytes \<Rightarrow> rstr list \<Rightarrow> bytes result" where
  "encode_unsub_filters body [] = Ok body"
| "encode_unsub_filters body (flt # fs) =
     and_then (validate_topic_filter flt) (\<lambda>_.
     and_then (encode_string body flt) (\<lambda>body.
     encode_unsub_filters body fs))"

definition UnsubscribePacket_encode :: "UnsubscribePacket \<Rightarrow> bytes result" where
  "UnsubscribePacket_encode p =
    (if uns_packet_id p = 0 then Err (MalformedPacket ''UNSUBSCRIBE packet identifier is zero'')
     else if uns_filters p = [] then Err (MalformedPacket ''UNSUBSCRIBE has no filters'')
     else
       let body = encode_u16 [] (uns_packet_id p) in
       and_then (props_encode_for (uns_properties p) body Ctx_Unsubscribe) (\<lambda>body.
       and_then (encode_unsub_filters body (uns_filters p)) (\<lambda>body.
       finish_packet PT_Unsubscribe 0x02 body)))"

section \<open>Acknowledgements\<close>

definition is_suback_reason_code :: "u8 \<Rightarrow> bool" where
  "is_suback_reason_code code \<longleftrightarrow>
     code \<in> {0x00, 0x01, 0x02, 0x80, 0x83, 0x87, 0x8F, 0x91, 0x97, 0x9E, 0xA1, 0xA2}"

definition is_unsuback_reason_code :: "u8 \<Rightarrow> bool" where
  "is_unsuback_reason_code code \<longleftrightarrow> code \<in> {0x00, 0x11, 0x80, 0x83, 0x87, 0x8F, 0x91}"

definition SubAckPacket_decode :: "bytes \<Rightarrow> SubAckPacket result" where
  "SubAckPacket_decode body =
     and_then (read_u16 (Cursor_new body)) (\<lambda>(packet_id, cur).
     if packet_id = 0 then Err (MalformedPacket ''SUBACK packet identifier is zero'')
     else
       and_then (props_decode_for cur Ctx_SubAck) (\<lambda>(_, cur).
       let reason_codes = remaining_bytes cur in
       if reason_codes = [] then Err (MalformedPacket ''SUBACK has no reason codes'')
       else case List.find (\<lambda>code. \<not> is_suback_reason_code code) reason_codes of
         Some invalid \<Rightarrow> Err (InvalidReasonCode invalid)
       | None \<Rightarrow> Ok \<lparr>sa_packet_id = packet_id, sa_reason_codes = reason_codes\<rparr>))"

definition UnsubAckPacket_decode :: "bytes \<Rightarrow> UnsubAckPacket result" where
  "UnsubAckPacket_decode body =
     and_then (read_u16 (Cursor_new body)) (\<lambda>(packet_id, cur).
     if packet_id = 0 then Err (MalformedPacket ''UNSUBACK packet identifier is zero'')
     else
       and_then (props_decode_for cur Ctx_UnsubAck) (\<lambda>(_, cur).
       let reason_codes = remaining_bytes cur in
       if reason_codes = [] then Err (MalformedPacket ''UNSUBACK has no reason codes'')
       else case List.find (\<lambda>code. \<not> is_unsuback_reason_code code) reason_codes of
         Some invalid \<Rightarrow> Err (InvalidReasonCode invalid)
       | None \<Rightarrow> Ok \<lparr>ua_packet_id = packet_id, ua_reason_codes = reason_codes\<rparr>))"

section \<open>Correctness of subscriptions\<close>

lemma QoS_as_u8_le: "unat (QoS_as_u8 q) \<le> 1"
  by (cases q) simp_all

lemma validate_suback_pairs_Ok:
  "validate_suback_pairs ps = Ok () \<longleftrightarrow> (\<forall>(granted, requested) \<in> set ps. granted \<le> QoS_as_u8 requested)"
proof (induction ps)
  case (Cons p ps)
  obtain g r where p: "p = (g, r)" by (cases p)
  have "g \<ge> 0x80 \<or> g = 2 \<or> g > QoS_as_u8 r \<longleftrightarrow> \<not> g \<le> QoS_as_u8 r"
    using QoS_as_u8_le [of r] by (auto simp: word_le_nat_alt word_less_nat_alt not_le)
  then show ?case using Cons by (auto simp: p)
qed simp

text \<open>A SUBACK is accepted exactly when it answers every filter, with a granted QoS not above
  the requested one.\<close>

lemma suback_codes:
  "validate_suback_codes reason_codes requested = Ok () \<longleftrightarrow>
     list_all2 (\<lambda>granted q. granted \<le> QoS_as_u8 q) reason_codes requested"
  by (auto simp: validate_suback_codes_def validate_suback_pairs_Ok list_all2_iff)

text \<open>The payload of SUBSCRIBE and UNSUBSCRIBE.\<close>

definition filter_bytes :: "rstr \<Rightarrow> bytes" where
  "filter_bytes f = u16_to_be_bytes (word_of_nat (length f)) @ f"

definition filter_ok :: "rstr \<Rightarrow> bool" where
  "filter_ok f \<longleftrightarrow> valid_filter f \<and> length f \<le> 65535 \<and> 0 \<notin> set f"

lemma encode_filter_Ok:
  "validate_topic_filter f = Ok () \<and> encode_string body f = Ok body' \<longleftrightarrow> filter_ok f \<and> body' = body @ filter_bytes f"
  by (auto simp: validate_topic_filter_Ok filter_ok_def filter_bytes_def encode_string_def Let_def)

lemma encode_sub_filters_Ok:
  "encode_sub_filters body fs = Ok body' \<longleftrightarrow> list_all (\<lambda>(f, q). filter_ok f) fs
     \<and> body' = body @ concat (map (\<lambda>(f, q). filter_bytes f @ [QoS_as_u8 q]) fs)"
proof (induction fs arbitrary: body)
  case (Cons p fs)
  obtain f q where p: "p = (f, q)" by (cases p)
  have "encode_sub_filters body (p # fs) = Ok body' \<longleftrightarrow>
      (\<exists>b. (validate_topic_filter f = Ok () \<and> encode_string body f = Ok b) \<and> encode_sub_filters (b @ [QoS_as_u8 q]) fs = Ok body')"
    by (auto simp: p result_iffs)
  then show ?case unfolding encode_filter_Ok using Cons by (auto simp: p)
qed auto

lemma encode_unsub_filters_Ok:
  "encode_unsub_filters body fs = Ok body' \<longleftrightarrow> list_all filter_ok fs \<and> body' = body @ concat (map filter_bytes fs)"
proof (induction fs arbitrary: body)
  case (Cons f fs)
  have "encode_unsub_filters body (f # fs) = Ok body' \<longleftrightarrow>
      (\<exists>b. (validate_topic_filter f = Ok () \<and> encode_string body f = Ok b) \<and> encode_unsub_filters b fs = Ok body')"
    by (auto simp: result_iffs)
  then show ?case unfolding encode_filter_Ok using Cons by auto
qed auto

text \<open>A SUBSCRIBE encodes exactly when it has an identifier and filters, all of them valid, and
  then to this layout: identifier, empty property section, and each filter with its QoS.\<close>

lemma subscribe_layout:
  assumes "sub_properties p = Properties_new"
    and "length (concat (map (\<lambda>(f, q). filter_bytes f @ [QoS_as_u8 q]) (sub_filters p))) < 2 ^ 28 - 3"
  shows "SubscribePacket_encode p = Ok bs \<longleftrightarrow>
    sub_packet_id p \<noteq> 0 \<and> sub_filters p \<noteq> [] \<and> list_all (\<lambda>(f, q). filter_ok f) (sub_filters p)
    \<and> bs = packet_bytes PT_Subscribe 2 (u16_to_be_bytes (sub_packet_id p) @ [0]
         @ concat (map (\<lambda>(f, q). filter_bytes f @ [QoS_as_u8 q]) (sub_filters p)))"
proof -
  have e: "props_encode_for Properties_new body ctx = Ok (body @ [0])" for body ctx
    by (simp add: props_encode_for_def props_encode_inner_def Properties_new_def encode_variable_int_eq)
  let ?body = "u16_to_be_bytes (sub_packet_id p) @ [0]
         @ concat (map (\<lambda>(f, q). filter_bytes f @ [QoS_as_u8 q]) (sub_filters p))"
  have "length ?body < 2 ^ 28" using assms(2) by simp
  then have "finish_packet PT_Subscribe 2 ?body = Ok (packet_bytes PT_Subscribe 2 ?body)"
    by (subst finish_packet_Ok) simp_all
  then show ?thesis
    using assms(1) by (auto simp: SubscribePacket_encode_def e encode_u16_def encode_sub_filters_Ok result_iffs)
qed

end
