(* ===== verification/Connect.thy ===== *)
theory Connect
  imports Packets
begin

unbundle bit_operations_syntax

text \<open>
  CONNECT, CONNACK and the broker capabilities negotiated with them
  (\<^verbatim>\<open>src/codec/connect.rs\<close>).  The \<^verbatim>\<open>unreachable!\<close> arm of \<open>from_connack\<close> is the value \<^term>\<open>None\<close>; it
  is proved unreachable for every packet the decoder returns.
\<close>

definition PROTOCOL_NAME :: rstr where
  "PROTOCOL_NAME = [0x4D, 0x51, 0x54, 0x54]"

definition PROTOCOL_VERSION_5 :: u8 where
  "PROTOCOL_VERSION_5 = 5"

section \<open>CONNECT\<close>

definition connect_flags :: "ConnectPacket \<Rightarrow> u8" where
  "connect_flags p =
     (let flags = (if cp_clean_start p then 0 OR 0x02 else 0);
          flags = (if cp_password p \<noteq> None then flags OR 0x40 else flags)
      in if cp_username p \<noteq> None then flags OR 0x80 else flags)"

definition ConnectPacket_encode :: "ConnectPacket \<Rightarrow> bytes result" where
  "ConnectPacket_encode p =
    (if cp_protocol_version p \<noteq> PROTOCOL_VERSION_5
     then Err (MalformedPacket ''only MQTT v5 is supported'')
     else
       and_then (encode_string [] PROTOCOL_NAME) (\<lambda>body.
       let body = body @ [cp_protocol_version p];
           body = body @ [connect_flags p];
           body = encode_u16 body (cp_keep_alive p) in
       and_then
         (if cp_protocol_version p \<ge> PROTOCOL_VERSION_5
          then props_encode_for (cp_properties p) body Ctx_Connect else Ok body) (\<lambda>body.
       and_then (encode_string body (cp_client_id p)) (\<lambda>body.
       and_then (case cp_username p of
           Some username \<Rightarrow> encode_string body username | None \<Rightarrow> Ok body) (\<lambda>body.
       and_then (case cp_password p of
           Some password \<Rightarrow> encode_binary body password | None \<Rightarrow> Ok body) (\<lambda>body.
       finish_packet PT_Connect 0 body))))))"

section \<open>CONNACK\<close>

definition is_connack_reason_code :: "u8 \<Rightarrow> bool" where
  "is_connack_reason_code code \<longleftrightarrow>
     code \<in> {0x00, 0x80, 0x81, 0x82, 0x83, 0x84, 0x85, 0x86, 0x87, 0x88, 0x89, 0x8A, 0x8C, 0x90,
             0x95, 0x97, 0x99, 0x9A, 0x9B, 0x9C, 0x9D, 0x9F}"

definition ConnAckPacket_decode :: "bytes \<Rightarrow> ConnAckPacket result" where
  "ConnAckPacket_decode body =
     and_then (read_u8 (Cursor_new body)) (\<lambda>(ack_flags, cur).
     if ack_flags AND 0xFE \<noteq> 0
     then Err (MalformedPacket ''CONNACK has reserved acknowledge flags'')
     else
       let session_present = (ack_flags AND 0x01 \<noteq> 0) in
       and_then (read_u8 cur) (\<lambda>(reason_code, cur).
       if \<not> is_connack_reason_code reason_code then Err (InvalidReasonCode reason_code)
       else if session_present \<and> reason_code \<noteq> 0x00
       then Err (MalformedPacket ''refused CONNACK has session present'')
       else
         and_then (props_decode_for cur Ctx_ConnAck) (\<lambda>(properties, cur).
         if remaining cur \<noteq> 0 then Err (MalformedPacket ''trailing CONNACK bytes'')
         else Ok \<lparr>ca_session_present = session_present, ca_reason_code = reason_code,
                  ca_properties = properties\<rparr>)))"

definition validate_connack :: "rstr \<Rightarrow> bool \<Rightarrow> ConnAckPacket \<Rightarrow> unit result" where
  "validate_connack requested_client_id clean_start connack =
    (if clean_start \<and> ca_session_present connack
     then Err (MalformedPacket ''CONNACK has session present after clean start'')
     else if requested_client_id = [] \<and> ca_session_present connack
     then Err (MalformedPacket
       ''CONNACK has session present for a newly assigned client identifier'')
     else if requested_client_id = []
       \<and> \<not> (case get_string (ca_properties connack) AssignedClientIdentifier of
               Some identifier \<Rightarrow> identifier \<noteq> [] | None \<Rightarrow> False)
     then Err (MalformedPacket ''CONNACK omitted a non-empty assigned client identifier'')
     else Ok ())"

section \<open>Broker capabilities\<close>

record ServerCapabilities =
  maximum_qos :: QoS
  retain_available :: bool
  wildcard_subscriptions_available :: bool
  shared_subscriptions_available :: bool

definition ServerCapabilities_from_connack :: "ConnAckPacket \<Rightarrow> ServerCapabilities option" where
  "ServerCapabilities_from_connack connack =
    (let flag = (\<lambda>i. (case get_byte (ca_properties connack) i of None \<Rightarrow> 1 | Some b \<Rightarrow> b) \<noteq> 0);
         caps = (\<lambda>q. \<lparr>maximum_qos = q, retain_available = flag RetainAvailable,
                 wildcard_subscriptions_available = flag WildcardSubscriptionAvailable,
                 shared_subscriptions_available = flag SharedSubscriptionAvailable\<rparr>)
     in case get_byte (ca_properties connack) MaximumQoS of
          None \<Rightarrow> Some (caps AtLeastOnce)
        | Some b \<Rightarrow>
            if b = 0 then Some (caps AtMostOnce)
            else if b = 1 then Some (caps AtLeastOnce)
            else None)"

definition validate_publish :: "ServerCapabilities \<Rightarrow> QoS \<Rightarrow> bool \<Rightarrow> unit result" where
  "validate_publish sc qos retain =
    (if QoS_as_u8 qos > QoS_as_u8 (maximum_qos sc)
     then Err (InvalidOptions ''broker does not support QoS 1 publishing'')
     else if retain \<and> \<not> retain_available sc
     then Err (InvalidOptions ''broker does not support retained publishing'')
     else Ok ())"

definition validate_subscription_filter :: "ServerCapabilities \<Rightarrow> rstr \<Rightarrow> unit result" where
  "validate_subscription_filter sc flt =
     and_then (validate_topic_filter flt) (\<lambda>_.
     if starts_with flt share_prefix \<and> \<not> shared_subscriptions_available sc
     then Err (InvalidOptions ''broker does not support shared subscriptions'')
     else if contains_wildcard flt \<and> \<not> wildcard_subscriptions_available sc
     then Err (InvalidOptions ''broker does not support wildcard subscriptions'')
     else Ok ())"

definition ServerCapabilities_default :: ServerCapabilities where
  "ServerCapabilities_default =
    \<lparr>maximum_qos = AtLeastOnce, retain_available = True,
     wildcard_subscriptions_available = True, shared_subscriptions_available = True\<rparr>"

section \<open>What a decoded CONNACK guarantees\<close>

lemma ConnAckPacket_decode_sound:
  assumes "ConnAckPacket_decode body = Ok p"
  shows "props_ok (Some Ctx_ConnAck) (entries (ca_properties p))" "is_connack_reason_code (ca_reason_code p)"
    "ca_session_present p \<Longrightarrow> ca_reason_code p = 0"
proof -
  from assms obtain c c' where d: "props_decode_for c Ctx_ConnAck = Ok (ca_properties p, c')"
    and r: "is_connack_reason_code (ca_reason_code p)" "ca_session_present p \<Longrightarrow> ca_reason_code p = 0"
    by (auto simp: ConnAckPacket_decode_def result_iffs Let_def)
  from props_decode_inner_sound [OF d [unfolded props_decode_for_def]]
  show "props_ok (Some Ctx_ConnAck) (entries (ca_properties p))" by simp
  show "is_connack_reason_code (ca_reason_code p)" "ca_session_present p \<Longrightarrow> ca_reason_code p = 0"
    by (rule r)+
qed

text \<open>The \<^verbatim>\<open>unreachable!\<close> of \<^verbatim>\<open>from_connack\<close> is not reached for a decoded CONNACK.\<close>

lemma from_connack_total:
  assumes "ConnAckPacket_decode body = Ok p"
  shows "\<exists>sc. ServerCapabilities_from_connack p = Some sc"
  using props_ok_ranges(1) [OF ConnAckPacket_decode_sound(1) [OF assms]]
  by (auto simp: ServerCapabilities_from_connack_def Let_def split: option.splits)

section \<open>Correctness of the negotiation\<close>

text \<open>C38: The capabilities of every decoded CONNACK can be read without reaching the
  \<^verbatim>\<open>unreachable!\<close> arm, QoS 1 is denied exactly when the broker said so, and the limits the
  clients take over (receive maximum, maximum packet size, assigned identifier) are never zero
  or empty.\<close>

theorem connack_capabilities:
  assumes "ConnAckPacket_decode body = Ok p"
  shows "\<exists>sc. ServerCapabilities_from_connack p = Some sc
      \<and> (maximum_qos sc = AtMostOnce \<longleftrightarrow> get_byte (ca_properties p) MaximumQoS = Some 0)
      \<and> (retain_available sc \<longleftrightarrow> get_byte (ca_properties p) RetainAvailable \<noteq> Some 0)
    \<and> get_u16 (ca_properties p) ReceiveMaximum \<noteq> Some 0
    \<and> get_u32 (ca_properties p) MaximumPacketSize \<noteq> Some 0
    \<and> get_string (ca_properties p) AssignedClientIdentifier \<noteq> Some []"
proof -
  note r = props_ok_ranges [OF ConnAckPacket_decode_sound(1) [OF assms]]
  have "get_u16 (ca_properties p) ReceiveMaximum \<noteq> Some 0" "get_u32 (ca_properties p) MaximumPacketSize \<noteq> Some 0"
    "get_string (ca_properties p) AssignedClientIdentifier \<noteq> Some []"
    using r(2-4) by auto
  moreover have "\<exists>sc. ServerCapabilities_from_connack p = Some sc
      \<and> (maximum_qos sc = AtMostOnce \<longleftrightarrow> get_byte (ca_properties p) MaximumQoS = Some 0)
      \<and> (retain_available sc \<longleftrightarrow> get_byte (ca_properties p) RetainAvailable \<noteq> Some 0)"
    using r(1) by (auto simp: ServerCapabilities_from_connack_def Let_def split: option.splits)
  ultimately show ?thesis by simp
qed

theorem connack_capabilities_witness:
  "\<exists>sc. ServerCapabilities_from_connack \<lparr>ca_session_present = False, ca_reason_code = 0,
     ca_properties = \<lparr>entries = [(MaximumQoS, Byte 0)]\<rparr>\<rparr> = Some sc \<and> maximum_qos sc = AtMostOnce"
proof -
  have "ConnAckPacket_decode [0, 0, 2, 0x24, 0] = Ok \<lparr>ca_session_present = False, ca_reason_code = 0,
     ca_properties = \<lparr>entries = [(MaximumQoS, Byte 0)]\<rparr>\<rparr>"
    by (simp add: ConnAckPacket_decode_def is_connack_reason_code_def props_decode_for_def props_decode_inner_def
        eval_defs decode_entries.simps register_property_id_def PropertyId_from_u8_def checked_add_def)
  from connack_capabilities [OF this] show ?thesis by (auto simp: get_byte_def)
qed

text \<open>The checks before sending allow exactly what the negotiated capabilities allow.\<close>

lemma capability_checks:
  "(validate_publish sc qos retain = Ok () \<longleftrightarrow>
      (qos = AtLeastOnce \<longrightarrow> maximum_qos sc = AtLeastOnce) \<and> (retain \<longrightarrow> retain_available sc))
   \<and> (validate_subscription_filter sc flt = Ok () \<longleftrightarrow> valid_filter flt
      \<and> (starts_with flt share_prefix \<longrightarrow> shared_subscriptions_available sc)
      \<and> (contains_wildcard flt \<longrightarrow> wildcard_subscriptions_available sc))"
proof
  show "validate_publish sc qos retain = Ok () \<longleftrightarrow>
      (qos = AtLeastOnce \<longrightarrow> maximum_qos sc = AtLeastOnce) \<and> (retain \<longrightarrow> retain_available sc)"
    by (cases qos; cases "maximum_qos sc") (auto simp: validate_publish_def)
  show "validate_subscription_filter sc flt = Ok () \<longleftrightarrow> valid_filter flt
      \<and> (starts_with flt share_prefix \<longrightarrow> shared_subscriptions_available sc)
      \<and> (contains_wildcard flt \<longrightarrow> wildcard_subscriptions_available sc)"
    by (auto simp: validate_subscription_filter_def result_iffs validate_topic_filter_Ok)
qed

end
