(* ===== verification/Async_Types.thy ===== *)
theory Async_Types
  imports Transport Subscribe Connect "HOL-Library.AList"
begin

text \<open>
  The data of the asynchronous client (\<^verbatim>\<open>src/async_client.rs\<close>) and of the request/response layer
  (\<^verbatim>\<open>src/request_response.rs\<close>), with the feature \<^verbatim>\<open>request-response\<close> switched on.

  A oneshot sender is the number of its channel; what the driver sends on it is recorded in the
  driver's state as a pair of that number and a \<^verbatim>\<open>Response\<close>, the sum of the result types of the
  four kinds of channel.  A \<^verbatim>\<open>HashMap\<close> is an association list with distinct keys, and a
  \<^verbatim>\<open>HashSet\<close> a list without repetitions; iteration follows the list, and nothing below constrains
  its order.
\<close>

section \<open>What the caller sees\<close>

datatype DisconnectReason = ClientInitiated | Server u8 | TransportClosed

datatype Event = Evt_Publish PublishPacket | Evt_Disconnected DisconnectReason

record PublishAck =
  pack_packet_id :: "u16 option"
  pack_reason_code :: "u8 option"

record SubscriptionAck =
  sack_packet_id :: u16
  sack_reason_codes :: bytes

type_synonym sender = nat

datatype Response =
    Res_Publish "PublishAck result"
  | Res_Subscription "SubscriptionAck result"
  | Res_Disconnect "unit result"
  | Res_Request "PublishPacket result"

section \<open>Commands\<close>

record RequestCommand =
  rq_topic :: rstr
  rq_payload :: bytes
  rq_response_topic :: rstr
  rq_correlation_data :: bytes
  rq_qos :: QoS
  rq_timeout :: duration
  rq_properties :: Properties

datatype Command =
    Cmd_Publish rstr bytes PublishOptions sender
  | Cmd_Subscribe rstr QoS sender
  | Cmd_Unsubscribe rstr sender
  | Cmd_Disconnect sender
  | Cmd_Request RequestCommand sender

text \<open>\<^verbatim>\<open>Command::fail\<close>: what is sent on which channel.\<close>

fun Command_fail :: "Command \<Rightarrow> error \<Rightarrow> (sender \<times> Response) list" where
  "Command_fail (Cmd_Publish _ _ _ result) e = [(result, Res_Publish (Err e))]"
| "Command_fail (Cmd_Subscribe _ _ result) e = [(result, Res_Subscription (Err e))]"
| "Command_fail (Cmd_Unsubscribe _ result) e = [(result, Res_Subscription (Err e))]"
| "Command_fail (Cmd_Disconnect result) e = [(result, Res_Disconnect (Err e))]"
| "Command_fail (Cmd_Request _ result) e = [(result, Res_Request (Err e))]"

section \<open>Outbound frames\<close>

datatype WrittenAction =
    Act_None
  | Act_PublishQos0 sender
  | Act_PingReq
  | Act_Disconnect sender
  | Act_AbandonedDisconnect

fun WrittenAction_fail :: "WrittenAction \<Rightarrow> error \<Rightarrow> (sender \<times> Response) list" where
  "WrittenAction_fail (Act_PublishQos0 result) e = [(result, Res_Publish (Err e))]"
| "WrittenAction_fail (Act_Disconnect result) e = [(result, Res_Disconnect (Err e))]"
| "WrittenAction_fail Act_None e = []"
| "WrittenAction_fail Act_PingReq e = []"
| "WrittenAction_fail Act_AbandonedDisconnect e = []"

record OutboundFrame =
  of_bytes :: bytes
  of_offset :: nat
  of_action :: WrittenAction
  of_request_correlation :: "bytes option"

record PendingFlush =
  pf_bytes :: nat
  pf_action :: WrittenAction

section \<open>Pending acknowledgements\<close>

datatype AckClass = Class_Publish | Class_Subscribe | Class_Unsubscribe

datatype PendingAckKind =
    Ack_Publish sender
  | Ack_Subscribe QoS sender
  | Ack_Unsubscribe rstr sender
  | Ack_RequestPublish bytes
  | Ack_ResponseSubscribe rstr
  | Tombstone AckClass bool

fun kind_is_cancelled :: "(sender \<Rightarrow> bool) \<Rightarrow> PendingAckKind \<Rightarrow> bool" where
  "kind_is_cancelled is_closed (Ack_Publish result) = is_closed result"
| "kind_is_cancelled is_closed (Ack_Subscribe _ result) = is_closed result"
| "kind_is_cancelled is_closed (Ack_Unsubscribe _ result) = is_closed result"
| "kind_is_cancelled is_closed (Tombstone _ _) = False"
| "kind_is_cancelled is_closed (Ack_RequestPublish _) = False"
| "kind_is_cancelled is_closed (Ack_ResponseSubscribe _) = False"

fun kind_fail :: "PendingAckKind \<Rightarrow> error \<Rightarrow> (sender \<times> Response) list" where
  "kind_fail (Ack_Publish result) e = [(result, Res_Publish (Err e))]"
| "kind_fail (Ack_Subscribe _ result) e = [(result, Res_Subscription (Err e))]"
| "kind_fail (Ack_Unsubscribe _ result) e = [(result, Res_Subscription (Err e))]"
| "kind_fail (Tombstone _ _) e = []"
| "kind_fail (Ack_RequestPublish _) e = []"
| "kind_fail (Ack_ResponseSubscribe _) e = []"

fun matches_request_publish :: "PendingAckKind \<Rightarrow> bool" where
  "matches_request_publish (Ack_RequestPublish _) = True"
| "matches_request_publish _ = False"

fun is_qos1_publish :: "PendingAckKind \<Rightarrow> bool" where
  "is_qos1_publish (Ack_Publish _) = True"
| "is_qos1_publish (Tombstone _ counts_toward_receive_maximum) = counts_toward_receive_maximum"
| "is_qos1_publish kind = matches_request_publish kind"

fun is_tombstone :: "PendingAckKind \<Rightarrow> bool" where
  "is_tombstone (Tombstone _ _) = True"
| "is_tombstone _ = False"

fun ack_class :: "PendingAckKind \<Rightarrow> AckClass" where
  "ack_class (Ack_Publish _) = Class_Publish"
| "ack_class (Ack_Subscribe _ _) = Class_Subscribe"
| "ack_class (Ack_Unsubscribe _ _) = Class_Unsubscribe"
| "ack_class (Ack_RequestPublish _) = Class_Publish"
| "ack_class (Ack_ResponseSubscribe _) = Class_Subscribe"
| "ack_class (Tombstone expected_ack _) = expected_ack"

record PendingAck =
  pk_deadline :: instant
  pk_timeout_label :: string
  pk_kind :: PendingAckKind

definition pending_is_cancelled :: "(sender \<Rightarrow> bool) \<Rightarrow> PendingAck \<Rightarrow> bool" where
  "pending_is_cancelled is_closed p = kind_is_cancelled is_closed (pk_kind p)"

definition pending_fail :: "PendingAck \<Rightarrow> error \<Rightarrow> (sender \<times> Response) list" where
  "pending_fail p e = kind_fail (pk_kind p) e"

text \<open>The tombstone an entry is replaced by keeps its acknowledgement class and its weight.\<close>

definition entomb :: "PendingAckKind \<Rightarrow> PendingAckKind" where
  "entomb kind = Tombstone (ack_class kind) (is_qos1_publish kind)"

lemma entomb_simps [simp]:
  "ack_class (entomb k) = ack_class k"
  "is_qos1_publish (entomb k) = is_qos1_publish k"
  "is_tombstone (entomb k)"
  by (simp_all add: entomb_def)

section \<open>Requests in flight\<close>

record PendingRequest =
  pr_topic :: rstr
  pr_payload :: bytes
  pr_response_topic :: rstr
  pr_qos :: QoS
  pr_properties :: Properties
  pr_deadline :: instant
  pr_result :: sender
  pr_publish_packet_id :: "u16 option"
  pr_published :: bool

datatype ResponseSubscription = Subscribing | Ready

record RequestLifecycle =
  rl_active :: "bytes list"
  rl_cancelled :: "bytes list"
  rl_max_active :: nat

definition RequestLifecycle_new :: "nat \<Rightarrow> RequestLifecycle" where
  "RequestLifecycle_new max_active =
    \<lparr>rl_active = [], rl_cancelled = [], rl_max_active = max_active\<rparr>"

definition lifecycle_register ::
  "bytes \<Rightarrow> RequestLifecycle \<Rightarrow> unit result \<times> RequestLifecycle" where
  "lifecycle_register corr l =
    (if length (rl_active l) \<ge> rl_max_active l then (Err (QueueFull ''pending request''), l)
     else if corr \<in> set (rl_active l)
     then (Err (InvalidOptions ''duplicate request correlation data''), l)
     else (Ok (), l\<lparr>rl_active := corr # rl_active l\<rparr>))"

definition lifecycle_cancel :: "bytes \<Rightarrow> RequestLifecycle \<Rightarrow> RequestLifecycle" where
  "lifecycle_cancel corr l =
    (if corr \<in> set (rl_active l)
     then l\<lparr>rl_cancelled := List.insert corr (rl_cancelled l)\<rparr>
     else l)"

definition consume_cancellation :: "bytes \<Rightarrow> RequestLifecycle \<Rightarrow> bool \<times> RequestLifecycle" where
  "consume_cancellation corr l =
    (if corr \<in> set (rl_cancelled l)
     then (True, l\<lparr>rl_cancelled := removeAll corr (rl_cancelled l),
                   rl_active := removeAll corr (rl_active l)\<rparr>)
     else (False, l))"

definition lifecycle_finish :: "bytes \<Rightarrow> RequestLifecycle \<Rightarrow> RequestLifecycle" where
  "lifecycle_finish corr l =
    l\<lparr>rl_active := removeAll corr (rl_active l),
      rl_cancelled := removeAll corr (rl_cancelled l)\<rparr>"

text \<open>The invariant of the shared lifecycle: a cancelled request is active, and the bound holds.\<close>

definition lifecycle_inv :: "RequestLifecycle \<Rightarrow> bool" where
  "lifecycle_inv l \<longleftrightarrow> distinct (rl_active l) \<and> distinct (rl_cancelled l)
     \<and> set (rl_cancelled l) \<subseteq> set (rl_active l) \<and> length (rl_active l) \<le> rl_max_active l"

lemma length_removeAll_le: "length (removeAll x xs) \<le> length xs"
  by (simp add: removeAll_filter_not_eq)

lemma lifecycle_inv_new [simp]: "lifecycle_inv (RequestLifecycle_new n)"
  by (simp add: lifecycle_inv_def RequestLifecycle_new_def)

lemma lifecycle_inv_register:
  "lifecycle_inv l \<Longrightarrow> lifecycle_inv (snd (lifecycle_register c l))"
  by (auto simp: lifecycle_inv_def lifecycle_register_def)

lemma lifecycle_inv_cancel: "lifecycle_inv l \<Longrightarrow> lifecycle_inv (lifecycle_cancel c l)"
  by (auto simp: lifecycle_inv_def lifecycle_cancel_def)

lemma lifecycle_inv_consume:
  "lifecycle_inv l \<Longrightarrow> lifecycle_inv (snd (consume_cancellation c l))"
  by (auto simp: lifecycle_inv_def consume_cancellation_def distinct_removeAll
      intro: order_trans [OF length_removeAll_le])

lemma lifecycle_inv_finish: "lifecycle_inv l \<Longrightarrow> lifecycle_inv (lifecycle_finish c l)"
  by (auto simp: lifecycle_inv_def lifecycle_finish_def distinct_removeAll
      intro: order_trans [OF length_removeAll_le])

section \<open>Free functions\<close>

definition keep_alive_interval :: "u16 \<Rightarrow> duration option" where
  "keep_alive_interval keep_alive_secs =
    (if keep_alive_secs \<noteq> 0 then Some (from_secs (max (unat keep_alive_secs div 2) 1)) else None)"

definition validate_reason_codes :: "string \<Rightarrow> bytes \<Rightarrow> nat \<Rightarrow> unit result" where
  "validate_reason_codes packet reason_codes expected =
    (if length reason_codes \<noteq> expected
     then Err (MalformedPacket ''ack reason code count mismatch'')
     else case find (\<lambda>code. code \<ge> 0x80) reason_codes of
       Some reason_code \<Rightarrow> Err (AckRejected packet reason_code)
     | None \<Rightarrow> Ok ())"

text \<open>
  \<^verbatim>\<open>duplicate_error\<close> copies every case; an I/O error is rebuilt from its kind and its text, which
  are all the model knows of it.
\<close>

fun duplicate_error :: "error \<Rightarrow> error" where
  "duplicate_error (InvalidOptions message) = InvalidOptions message"
| "duplicate_error (MalformedPacket message) = MalformedPacket message"
| "duplicate_error (InvalidPacketType v) = InvalidPacketType v"
| "duplicate_error (InvalidQoS v) = InvalidQoS v"
| "duplicate_error (InvalidReasonCode v) = InvalidReasonCode v"
| "duplicate_error (ConnectionRefused v) = ConnectionRefused v"
| "duplicate_error (ServerDisconnected v) = ServerDisconnected v"
| "duplicate_error (PacketTooLarge n mx) = PacketTooLarge n mx"
| "duplicate_error (StringTooLong n) = StringTooLong n"
| "duplicate_error (BinaryTooLong n) = BinaryTooLong n"
| "duplicate_error (Timeout operation) = Timeout operation"
| "duplicate_error KeepAliveTimeout = KeepAliveTimeout"
| "duplicate_error (UnexpectedPacket message) = UnexpectedPacket message"
| "duplicate_error (AckRejected packet reason_code) = AckRejected packet reason_code"
| "duplicate_error (QueueFull queue) = QueueFull queue"
| "duplicate_error ClientClosed = ClientClosed"
| "duplicate_error (Serialize message) = Serialize message"
| "duplicate_error (Deserialize message) = Deserialize message"
| "duplicate_error ConnectionClosed = ConnectionClosed"
| "duplicate_error (Io e) = Io (IoError (io_kind e) (io_message e))"

lemma duplicate_error_id [simp]: "duplicate_error e = e"
  by (cases e) auto

end
