(* ===== verification/Packet_Codec.thy ===== *)
theory Packet_Codec
  imports Connect Publish Subscribe Disconnect
begin

text \<open>
  The decoder of a whole packet (\<^verbatim>\<open>src/codec/mod.rs\<close>).
\<close>

definition Packet_decode :: "FixedHeader \<Rightarrow> bytes \<Rightarrow> Packet result" where
  "Packet_decode header body =
     and_then (validate_fixed_header header) (\<lambda>_.
     if length body \<noteq> unat (remaining_length header)
     then Err (MalformedPacket ''body length does not match header'')
     else
       case packet_type header of
         PT_ConnAck \<Rightarrow> and_then (ConnAckPacket_decode body) (\<lambda>p. Ok (Pkt_ConnAck p))
       | PT_Publish \<Rightarrow>
           and_then (PublishPacket_decode (flags header) body) (\<lambda>p. Ok (Pkt_Publish p))
       | PT_PubAck \<Rightarrow> and_then (PubAckPacket_decode body) (\<lambda>p. Ok (Pkt_PubAck p))
       | PT_SubAck \<Rightarrow> and_then (SubAckPacket_decode body) (\<lambda>p. Ok (Pkt_SubAck p))
       | PT_UnsubAck \<Rightarrow> and_then (UnsubAckPacket_decode body) (\<lambda>p. Ok (Pkt_UnsubAck p))
       | PT_PingResp \<Rightarrow>
           if body = [] then Ok Pkt_PingResp
           else Err (MalformedPacket ''PINGRESP body must be empty'')
       | PT_Disconnect \<Rightarrow> and_then (DisconnectPacket_decode body) (\<lambda>p. Ok (Pkt_Disconnect p))
       | PT_PingReq \<Rightarrow>
           if body = [] then Ok Pkt_PingReq
           else Err (MalformedPacket ''PINGREQ body must be empty'')
       | PT_PubRec \<Rightarrow> Err (UnexpectedPacket ''QoS 2 not supported'')
       | PT_PubRel \<Rightarrow> Err (UnexpectedPacket ''QoS 2 not supported'')
       | PT_PubComp \<Rightarrow> Err (UnexpectedPacket ''QoS 2 not supported'')
       | PT_Auth \<Rightarrow> Err (UnexpectedPacket ''AUTH not supported'')
       | PT_Connect \<Rightarrow> Err (UnexpectedPacket ''client-to-server packet type'')
       | PT_Subscribe \<Rightarrow> Err (UnexpectedPacket ''client-to-server packet type'')
       | PT_Unsubscribe \<Rightarrow> Err (UnexpectedPacket ''client-to-server packet type''))"

section \<open>The contract of a packet codec\<close>

locale packet_codec =
  fixes encode :: "'p \<Rightarrow> bytes result" and wf :: "'p \<Rightarrow> bool" and wrap :: "'p \<Rightarrow> Packet"
  assumes encode_frame: "wf p \<Longrightarrow> encode p = Ok bs \<Longrightarrow>
    \<exists>t fl body. bs = packet_bytes t fl body \<and> header_ok t fl \<and> length body < 2 ^ 28
      \<and> Packet_decode \<lparr>packet_type = t, flags = fl, remaining_length = word_of_nat (length body)\<rparr> body
        = Ok (wrap p)"
begin

lemma encode_decode:
  assumes "wf p" "encode p = Ok bs"
  obtains h n where "decode_fixed_header (bs @ rest) = Ok (h, n)" "length bs = n + unat (remaining_length h)"
    "Packet_decode h (take (unat (remaining_length h)) (drop n (bs @ rest))) = Ok (wrap p)"
proof -
  obtain t fl body where b: "bs = packet_bytes t fl body" "header_ok t fl" "length body < 2 ^ 28"
    "Packet_decode \<lparr>packet_type = t, flags = fl, remaining_length = word_of_nat (length body)\<rparr> body = Ok (wrap p)"
    using encode_frame [OF assms] by auto
  have u: "unat (word_of_nat (length body) :: u32) = length body" using b(3) by (intro unat_u32_of_nat) simp
  show ?thesis
    using decode_header_bytes [OF b(2,3), of "body @ rest"] b(4) u
    by (intro that [of "\<lparr>packet_type = t, flags = fl, remaining_length = word_of_nat (length body)\<rparr>"
          "length (header_bytes t fl (length body))"])
      (simp_all add: b(1) packet_bytes_def)
qed

lemma length_encode:
  assumes "wf p" "encode p = Ok bs"
  shows "2 \<le> length bs \<and> length bs < 2 ^ 28 + 5"
proof -
  obtain t fl body where b: "bs = packet_bytes t fl body" "length body < 2 ^ 28"
    using encode_frame [OF assms] by auto
  with length_header_bytes [OF b(2), of t fl] show ?thesis by (simp add: packet_bytes_def)
qed

end

lemma publish_packet_frame:
  assumes "publish_body_len p < 2 ^ 32" "publish_utf8 p" "PublishPacket_encode p = Ok bs"
  shows "\<exists>t fl body. bs = packet_bytes t fl body \<and> header_ok t fl \<and> length body < 2 ^ 28
      \<and> Packet_decode \<lparr>packet_type = t, flags = fl, remaining_length = word_of_nat (length body)\<rparr> body
        = Ok (Pkt_Publish p)"
proof -
  obtain body where b: "bs = packet_bytes PT_Publish (publish_flags p) body" "length body = publish_body_len p"
    "publish_body_len p < 2 ^ 28" "header_ok PT_Publish (publish_flags p)"
    "PublishPacket_decode (publish_flags p) body = Ok p"
    using publish_body_roundtrip [OF assms(3,1,2)] by auto
  have "validate_fixed_header \<lparr>packet_type = PT_Publish, flags = publish_flags p, remaining_length = word_of_nat (length body)\<rparr> = Ok ()"
    using b(4) by (simp add: header_ok_def validate_fixed_header_any_length [of _ _ "word_of_nat (length body)"])
  moreover have "unat (word_of_nat (length body) :: u32) = length body" using b(2,3) by (intro unat_u32_of_nat) simp
  ultimately show ?thesis
    using b by (intro exI [of _ PT_Publish] exI [of _ "publish_flags p"] exI [of _ body]) (simp add: Packet_decode_def)
qed

interpretation publish_packet: packet_codec PublishPacket_encode
    "\<lambda>p. publish_body_len p < 2 ^ 32 \<and> publish_utf8 p" Pkt_Publish
  by unfold_locales (blast intro: publish_packet_frame)

lemma ack_packet_frame:
  assumes "bs = packet_bytes t 0 body" "length body < 2 ^ 28" "dec body = Ok p"
    and "header_ok t 0" 
    and "\<And>h. packet_type h = t \<Longrightarrow> validate_fixed_header h = Ok () \<Longrightarrow> unat (remaining_length h) = length body \<Longrightarrow> Packet_decode h body = and_then (dec body) (\<lambda>p. Ok (wrap p))"
  shows "\<exists>t fl body. bs = packet_bytes t fl body \<and> header_ok t fl \<and> length body < 2 ^ 28
      \<and> Packet_decode \<lparr>packet_type = t, flags = fl, remaining_length = word_of_nat (length body)\<rparr> body
        = Ok (wrap p)"
proof -
  have "validate_fixed_header \<lparr>packet_type = t, flags = 0, remaining_length = word_of_nat (length body)\<rparr> = Ok ()"
    using assms(4) by (simp add: header_ok_def validate_fixed_header_any_length [of _ _ "word_of_nat (length body)"])
  moreover have "unat (word_of_nat (length body) :: u32) = length body" using assms(2) by (intro unat_u32_of_nat) simp
  ultimately show ?thesis
    using assms by (intro exI [of _ t] exI [of _ 0] exI [of _ body]) simp
qed

interpretation puback_packet: packet_codec PubAckPacket_encode "\<lambda>_. True" Pkt_PubAck
proof (unfold_locales, goal_cases)
  case (1 p bs)
  obtain body where "bs = packet_bytes PT_PubAck 0 body" "length body < 2 ^ 28" "PubAckPacket_decode body = Ok p"
    using 1(2) by (rule PubAckPacket_decode_encode)
  then show ?case by (rule ack_packet_frame) (simp_all add: Packet_decode_def)
qed

interpretation disconnect_packet: packet_codec DisconnectPacket_encode "\<lambda>_. True" Pkt_Disconnect
proof (unfold_locales, goal_cases)
  case (1 p bs)
  obtain body where "bs = packet_bytes PT_Disconnect 0 body" "length body < 2 ^ 28" "DisconnectPacket_decode body = Ok p"
    using 1(2) by (rule DisconnectPacket_decode_encode)
  then show ?case by (rule ack_packet_frame) (simp_all add: Packet_decode_def)
qed

lemma ping_bytes:
  "PINGREQ_BYTES = packet_bytes PT_PingReq 0 []" "PINGRESP_BYTES = packet_bytes PT_PingResp 0 []"
  by (simp_all add: PINGREQ_BYTES_def PINGRESP_BYTES_def eval_defs)

interpretation pingreq_packet: packet_codec "\<lambda>_ :: unit. Ok PINGREQ_BYTES" "\<lambda>_. True" "\<lambda>_. Pkt_PingReq"
  by unfold_locales (auto simp: ping_bytes Packet_decode_def validate_fixed_header_def
     intro!: exI [of _ PT_PingReq] exI [of _ 0] exI [of _ "[]"])

interpretation pingresp_packet: packet_codec "\<lambda>_ :: unit. Ok PINGRESP_BYTES" "\<lambda>_. True" "\<lambda>_. Pkt_PingResp"
  by unfold_locales (auto simp: ping_bytes Packet_decode_def validate_fixed_header_def
     intro!: exI [of _ PT_PingResp] exI [of _ 0] exI [of _ "[]"])

section \<open>Correctness of the packet codec\<close>

text \<open>C16: An encoded PUBLISH, whatever follows it in the stream, is decoded to the same packet: same
  topic, identifier, payload, flags and properties, and exactly its own bytes are taken.\<close>

theorem publish_roundtrip:
  assumes "PublishPacket_encode p = Ok bs" "publish_body_len p < 2 ^ 32" "publish_utf8 p"
  shows "\<exists>h n. decode_fixed_header (bs @ rest) = Ok (h, n)
    \<and> length bs = n + unat (remaining_length h)
    \<and> Packet_decode h (take (unat (remaining_length h)) (drop n (bs @ rest))) = Ok (Pkt_Publish p)"
  using publish_packet.encode_decode [of p bs rest] assms by blast

theorem publish_roundtrip_witness:
  "\<exists>h n. decode_fixed_header [0x32, 7, 0, 1, 0x61, 0, 5, 0, 9] = Ok (h, n)
    \<and> Packet_decode h (take (unat (remaining_length h)) (drop n [0x32, 7, 0, 1, 0x61, 0, 5, 0, 9])) =
      Ok (Pkt_Publish \<lparr>pub_topic = [0x61], pub_packet_id = Some 5, pub_payload = [9], pub_qos = AtLeastOnce,
        pub_retain = False, pub_dup = False, pub_properties = Properties_new\<rparr>)"
proof -
  let ?p = "\<lparr>pub_topic = [0x61], pub_packet_id = Some 5, pub_payload = [9], pub_qos = AtLeastOnce,
        pub_retain = False, pub_dup = False, pub_properties = Properties_new\<rparr>"
  have "PublishPacket_encode ?p = Ok [0x32, 7, 0, 1, 0x61, 0, 5, 0, 9]"
    by (simp add: PublishPacket_encode_def check_publish_id_def publish_flags_def encode_fixed_header_def
        eval_defs Properties_new_def)
  from publish_roundtrip [OF this, of "[]"] show ?thesis
    by (auto simp: publish_body_len_def publish_utf8_def eval_defs Properties_new_def)
qed

text \<open>C36: Every PUBLISH that was received can be sent on: it encodes without an error, to no more
  bytes than were received for it.\<close>

theorem publish_forward:
  assumes "decode_fixed_header data = Ok (h, n)" "Packet_decode h body = Ok (Pkt_Publish p)"
  shows "\<exists>bs. PublishPacket_encode p = Ok bs \<and> length bs \<le> n + length body"
proof -
  note h = decode_fixed_header_sound [OF assms(1)]
  from assms(2) have d: "PublishPacket_decode (flags h) body = Ok p" "packet_type h = PT_Publish"
    "length body = unat (remaining_length h)"
    by (auto simp: Packet_decode_def result_iffs split: PacketType.splits if_splits)
  have "header_ok PT_Publish (flags h)"
    using h d(2) validate_fixed_header_any_length [of PT_Publish "flags h" "remaining_length h"]
    by (cases h) (simp add: header_ok_def)
  from PublishPacket_encode_decoded [OF d(1) this] h d show ?thesis by force
qed

theorem publish_forward_witness:
  "is_ok (PublishPacket_encode \<lparr>pub_topic = [0x61], pub_packet_id = None, pub_payload = [9],
     pub_qos = AtMostOnce, pub_retain = True, pub_dup = False, pub_properties = Properties_new\<rparr>)"
proof -
  let ?h = "\<lparr>packet_type = PT_Publish, flags = 1, remaining_length = 5\<rparr>"
  have a: "decode_fixed_header [0x31, 5, 0, 1, 0x61, 0, 9] = Ok (?h, 2)"
    by (simp add: decode_fixed_header_def eval_defs PacketType_from_u8_def)
  have b: "Packet_decode ?h [0, 1, 0x61, 0, 9] = Ok (Pkt_Publish \<lparr>pub_topic = [0x61], pub_packet_id = None,
      pub_payload = [9], pub_qos = AtMostOnce, pub_retain = True, pub_dup = False, pub_properties = Properties_new\<rparr>)"
    by (simp add: Packet_decode_def PublishPacket_decode_def eval_defs QoS_from_u8_def read_string_def
        decode_publish_id_def props_decode_for_def props_decode_inner_def)
  show ?thesis using publish_forward [OF a b] by (auto simp: is_ok_iff)
qed

text \<open>C37: What the decoder lets through is usable: identifiers are never zero, a PUBLISH has an
  identifier exactly when its QoS asks for one and a concrete topic, and reason codes are codes
  of their packet.\<close>

theorem decoded_packets_wf:
  assumes "Packet_decode h body = Ok packet"
  shows "case packet of
      Pkt_Publish p \<Rightarrow> check_publish_id (pub_qos p) (pub_packet_id p) = Ok ()
        \<and> validate_topic_name (pub_topic p) = Ok () \<and> props_ok (Some Ctx_Publish) (entries (pub_properties p))
    | Pkt_PubAck p \<Rightarrow> pa_packet_id p \<noteq> 0 \<and> is_puback_reason_code (pa_reason_code p)
    | Pkt_SubAck p \<Rightarrow> sa_packet_id p \<noteq> 0 \<and> sa_reason_codes p \<noteq> []
        \<and> list_all is_suback_reason_code (sa_reason_codes p)
    | Pkt_UnsubAck p \<Rightarrow> ua_packet_id p \<noteq> 0 \<and> ua_reason_codes p \<noteq> []
        \<and> list_all is_unsuback_reason_code (ua_reason_codes p)
    | Pkt_ConnAck p \<Rightarrow> is_connack_reason_code (ca_reason_code p)
        \<and> props_ok (Some Ctx_ConnAck) (entries (ca_properties p))
    | Pkt_Disconnect p \<Rightarrow> is_disconnect_reason_code (dc_reason_code p)
    | Pkt_PingReq \<Rightarrow> body = [] | Pkt_PingResp \<Rightarrow> body = []
    | _ \<Rightarrow> False"
proof -
  have sub: "sa_packet_id p \<noteq> 0 \<and> sa_reason_codes p \<noteq> [] \<and> list_all is_suback_reason_code (sa_reason_codes p)"
    if "SubAckPacket_decode body = Ok p" for p
    using that by (auto simp: SubAckPacket_decode_def result_iffs Let_def list_all_iff find_None_iff split: option.splits if_splits)
  have uns: "ua_packet_id p \<noteq> 0 \<and> ua_reason_codes p \<noteq> [] \<and> list_all is_unsuback_reason_code (ua_reason_codes p)"
    if "UnsubAckPacket_decode body = Ok p" for p
    using that by (auto simp: UnsubAckPacket_decode_def result_iffs Let_def list_all_iff find_None_iff split: option.splits if_splits)
  have dis: "is_disconnect_reason_code (dc_reason_code p)" if "DisconnectPacket_decode body = Ok p" for p
    using that by (auto simp: DisconnectPacket_decode_def result_iffs Let_def)
  show ?thesis
    using assms PublishPacket_decode_sound(2,3,5) PubAckPacket_decode_sound ConnAckPacket_decode_sound(1,2) sub uns dis
    by (cases "packet_type h") (auto simp: Packet_decode_def result_iffs split: if_splits)
qed

theorem decoded_packets_wf_witness: "is_puback_reason_code 0x10"
proof -
  have "Packet_decode \<lparr>packet_type = PT_PubAck, flags = 0, remaining_length = 3\<rparr> [0, 7, 0x10] =
    Ok (Pkt_PubAck \<lparr>pa_packet_id = 7, pa_reason_code = 0x10\<rparr>)"
    by (simp add: Packet_decode_def PubAckPacket_decode_def eval_defs is_puback_reason_code_def decode_tail_properties_def)
  from decoded_packets_wf [OF this] show ?thesis by simp
qed

text \<open>PUBACK and DISCONNECT are decoded as they were encoded, although the encoder leaves out a
  zero reason code, and the two ping packets are the constants the clients send.\<close>

lemma ack_packets_roundtrip:
  "(\<forall>p bs rest. PubAckPacket_encode p = Ok bs \<longrightarrow>
      (\<exists>h n. decode_fixed_header (bs @ rest) = Ok (h, n) \<and> length bs = n + unat (remaining_length h)
        \<and> Packet_decode h (take (unat (remaining_length h)) (drop n (bs @ rest))) = Ok (Pkt_PubAck p)))
   \<and> (\<forall>p bs rest. DisconnectPacket_encode p = Ok bs \<longrightarrow>
      (\<exists>h n. decode_fixed_header (bs @ rest) = Ok (h, n) \<and> length bs = n + unat (remaining_length h)
        \<and> Packet_decode h (take (unat (remaining_length h)) (drop n (bs @ rest))) = Ok (Pkt_Disconnect p)))
   \<and> (\<exists>h n. decode_fixed_header PINGREQ_BYTES = Ok (h, n) \<and> Packet_decode h (drop n PINGREQ_BYTES) = Ok Pkt_PingReq)
   \<and> (\<exists>h n. decode_fixed_header PINGRESP_BYTES = Ok (h, n) \<and> Packet_decode h (drop n PINGRESP_BYTES) = Ok Pkt_PingResp)"
proof (intro conjI allI impI)
  fix p bs rest
  show "\<exists>h n. decode_fixed_header (bs @ rest) = Ok (h, n) \<and> length bs = n + unat (remaining_length h)
      \<and> Packet_decode h (take (unat (remaining_length h)) (drop n (bs @ rest))) = Ok (Pkt_PubAck p)"
    if "PubAckPacket_encode p = Ok bs"
    using puback_packet.encode_decode [OF TrueI that, of rest] by blast
next
  fix p bs rest
  show "\<exists>h n. decode_fixed_header (bs @ rest) = Ok (h, n) \<and> length bs = n + unat (remaining_length h)
      \<and> Packet_decode h (take (unat (remaining_length h)) (drop n (bs @ rest))) = Ok (Pkt_Disconnect p)"
    if "DisconnectPacket_encode p = Ok bs"
    using disconnect_packet.encode_decode [OF TrueI that, of rest] by blast
next
  have "take k (drop n bs) = drop n bs" if "length bs = n + k" for k n and bs :: bytes
    using that by simp
  then show "\<exists>h n. decode_fixed_header PINGREQ_BYTES = Ok (h, n) \<and> Packet_decode h (drop n PINGREQ_BYTES) = Ok Pkt_PingReq"
    "\<exists>h n. decode_fixed_header PINGRESP_BYTES = Ok (h, n) \<and> Packet_decode h (drop n PINGRESP_BYTES) = Ok Pkt_PingResp"
    using pingreq_packet.encode_decode [OF TrueI refl, of "[]"] pingresp_packet.encode_decode [OF TrueI refl, of "[]"]
    by (metis append_Nil2)+
qed

end
