(* ===== verification/Frame.thy ===== *)
theory Frame
  imports Packet_Codec
begin

text \<open>
  The incremental frame parser (\<^verbatim>\<open>src/frame.rs\<close>).  \<open>next_packet\<close> is the reference: what the first
  packet of a byte string is.  The parser is proved to return exactly that, however the bytes
  were cut into chunks, and to hold at most one packet's worth of bytes.
\<close>

definition MQTT_MAX_PACKET_SIZE :: nat where
  "MQTT_MAX_PACKET_SIZE = 268435460"

datatype FrameState =
    ReadingHeader
  | ReadingBody (fs_header: FixedHeader) (fs_header_len: nat) (fs_total_len: nat)

record FrameReader =
  fr_buf :: bytes
  fr_state :: FrameState
  fr_max_packet_size :: nat
  fr_overflow_size :: "nat option"

definition FrameReader_with_max_packet_size :: "nat \<Rightarrow> FrameReader" where
  "FrameReader_with_max_packet_size mx =
    \<lparr>fr_buf = [], fr_state = ReadingHeader, fr_max_packet_size = mx, fr_overflow_size = None\<rparr>"

definition FrameReader_new :: FrameReader where
  "FrameReader_new = FrameReader_with_max_packet_size MQTT_MAX_PACKET_SIZE"

definition FrameReader_default :: FrameReader where
  "FrameReader_default = FrameReader_new"

definition reader_max_packet_size :: "FrameReader \<Rightarrow> nat" where
  "reader_max_packet_size r = fr_max_packet_size r"

text \<open>\<^verbatim>\<open>saturating_sub\<close> on \<^verbatim>\<open>usize\<close> is subtraction on \<^typ>\<open>nat\<close>.\<close>

definition remaining_capacity :: "FrameReader \<Rightarrow> nat" where
  "remaining_capacity r =
    (let target = (case fr_state r of
         ReadingHeader \<Rightarrow> fr_max_packet_size r
       | ReadingBody _ _ total_len \<Rightarrow> total_len)
     in target - length (fr_buf r))"

definition frame_push :: "FrameReader \<Rightarrow> bytes \<Rightarrow> FrameReader" where
  "frame_push r data =
    (let available = remaining_capacity r
     in if length data > available then
          let r = r\<lparr>fr_buf := fr_buf r @ take available data\<rparr>
          in r\<lparr>fr_overflow_size :=
                 Some (saturating_add (length (fr_buf r)) (length data - available))\<rparr>
        else r\<lparr>fr_buf := fr_buf r @ data\<rparr>)"

text \<open>The loop of \<^verbatim>\<open>try_decode\<close>; the second component is the reader afterwards.\<close>

function try_decode_loop :: "FrameReader \<Rightarrow> Packet option result \<times> FrameReader" where
  "try_decode_loop r =
    (case fr_state r of
       ReadingHeader \<Rightarrow>
         if fr_buf r = [] then (Ok None, r)
         else (case decode_fixed_header (fr_buf r) of
             Inr (header, header_len) \<Rightarrow>
               (case checked_add header_len (unat (remaining_length header)) of
                  None \<Rightarrow> (Err (MalformedPacket ''packet length overflow''), r)
                | Some total_len \<Rightarrow>
                    if total_len > fr_max_packet_size r
                    then (Err (PacketTooLarge total_len (fr_max_packet_size r)), r)
                    else try_decode_loop (r\<lparr>fr_state := ReadingBody header header_len total_len\<rparr>))
           | Inl e \<Rightarrow>
               if e = MalformedPacket ''unexpected end of data'' then (Ok None, r)
               else (Err e, r))
     | ReadingBody header header_len total_len \<Rightarrow>
         if length (fr_buf r) < total_len then (Ok None, r)
         else (case Packet_decode header (take (total_len - header_len) (drop header_len (fr_buf r))) of
             Inl e \<Rightarrow> (Err e, r)
           | Inr packet \<Rightarrow>
               (Ok (Some packet),
                r\<lparr>fr_buf := drop total_len (fr_buf r), fr_state := ReadingHeader\<rparr>)))"
  by pat_completeness auto
termination
  by (relation "measure (\<lambda>r. case fr_state r of ReadingHeader \<Rightarrow> 1 | _ \<Rightarrow> 0)") auto

declare try_decode_loop.simps [simp del]

definition try_decode :: "FrameReader \<Rightarrow> Packet option result \<times> FrameReader" where
  "try_decode r =
    (case fr_overflow_size r of
       Some sz \<Rightarrow> (Err (PacketTooLarge sz (fr_max_packet_size r)), r)
     | None \<Rightarrow> try_decode_loop r)"

section \<open>The reference: the first packet of a byte string\<close>

definition next_packet :: "nat \<Rightarrow> bytes \<Rightarrow> (Packet \<times> bytes) option result" where
  "next_packet mx data =
    (if data = [] then Ok None
     else case decode_fixed_header data of
       Inl e \<Rightarrow> if e = eof_error then Ok None else Err e
     | Inr (h, n) \<Rightarrow>
         let total = n + unat (remaining_length h) in
         if total > mx then Err (PacketTooLarge total mx)
         else if length data < total then Ok None
         else and_then (Packet_decode h (take (unat (remaining_length h)) (drop n data))) (\<lambda>p.
              Ok (Some (p, drop total data))))"

lemma decode_fixed_header_append:
  assumes "decode_fixed_header xs \<noteq> Err eof_error"
  shows "decode_fixed_header (xs @ ys) = decode_fixed_header xs"
proof -
  have f: "read_fixed_header (Cursor_new xs) \<noteq> Err eof_error"
    using assms by (auto simp: decode_fixed_header_eq)
  have g: "read_fixed_header (Cursor_new (xs @ ys)) =
    (case read_fixed_header (Cursor_new xs) of Inl e \<Rightarrow> Err e
     | Inr (x, c') \<Rightarrow> Ok (x, advance (Cursor_new (xs @ ys)) (cur_pos c' - cur_pos (Cursor_new xs))))"
    by (rule fh.get_more_data [OF _ f]) simp
  have "cur_pos (Cursor_new xs) = 0" by (simp add: Cursor_new_def)
  then show ?thesis
    unfolding decode_fixed_header_eq g by (auto simp: and_then_def position_def Cursor_new_def split: sum.splits)
qed

lemma next_packet_append:
  assumes "next_packet mx xs \<noteq> Ok None"
  shows "next_packet mx (xs @ ys) =
    (case next_packet mx xs of Inl e \<Rightarrow> Err e | Inr None \<Rightarrow> Ok None | Inr (Some (p, rest)) \<Rightarrow> Ok (Some (p, rest @ ys)))"
proof -
  have ne: "xs \<noteq> []" "decode_fixed_header xs \<noteq> Err eof_error"
    using assms by (auto simp: next_packet_def split: if_splits)
  show ?thesis
  proof (cases "decode_fixed_header xs")
    case (Inl e)
    then show ?thesis using ne decode_fixed_header_append [OF ne(2), of ys] by (simp add: next_packet_def)
  next
    case (Inr q)
    obtain h n where q: "q = (h, n)" by (cases q)
    have "mx < n + unat (remaining_length h) \<or> n + unat (remaining_length h) \<le> length xs"
      using assms ne Inr q by (auto simp: next_packet_def Let_def split: if_splits)
    then show ?thesis
      using ne decode_fixed_header_append [OF ne(2), of ys] Inr q
      by (elim disjE) (auto simp: next_packet_def Let_def and_then_def split: sum.splits)
  qed
qed

text \<open>A packet takes at least two bytes, so reading packets off a byte string ends.\<close>

lemma next_packet_shorter:
  assumes "next_packet mx xs = Ok (Some (p, rest))"
  shows "length rest + 2 \<le> length xs" "\<exists>n. rest = drop n xs"
proof -
  obtain h n where h: "decode_fixed_header xs = Ok (h, n)" "length xs \<ge> n + unat (remaining_length h)"
    "rest = drop (n + unat (remaining_length h)) xs"
    using assms by (auto simp: next_packet_def Let_def result_iffs split: if_splits sum.splits)
  with decode_fixed_header_sound [OF h(1)] show "length rest + 2 \<le> length xs" "\<exists>n. rest = drop n xs"
    by auto
qed

section \<open>The parser against the reference\<close>

text \<open>
  The invariant: no overflow was recorded, and a parsed header is the header of the buffered
  bytes, with its packet within the limit.
\<close>

definition frame_inv :: "FrameReader \<Rightarrow> bool" where
  "frame_inv r \<longleftrightarrow> fr_overflow_size r = None \<and> length (fr_buf r) \<le> fr_max_packet_size r \<and> fr_max_packet_size r \<le> usize_max
     \<and> (case fr_state r of ReadingHeader \<Rightarrow> True
        | ReadingBody h n len \<Rightarrow> decode_fixed_header (fr_buf r) = Ok (h, n)
            \<and> len = n + unat (remaining_length h) \<and> len \<le> fr_max_packet_size r)"

text \<open>One call of the parser: the packet, the error or the wait the reference prescribes.\<close>

definition frame_step :: "FrameReader \<Rightarrow> FrameState \<Rightarrow> Packet option result \<times> FrameReader" where
  "frame_step r st = (case next_packet (fr_max_packet_size r) (fr_buf r) of
       Inl e \<Rightarrow> (Err e, r\<lparr>fr_state := st\<rparr>)
     | Inr None \<Rightarrow> (Ok None, r\<lparr>fr_state := st\<rparr>)
     | Inr (Some (p, rest)) \<Rightarrow> (Ok (Some p), r\<lparr>fr_buf := rest, fr_state := ReadingHeader\<rparr>))"

lemma try_decode_body:
  assumes "fr_state r = ReadingBody h n (n + unat (remaining_length h))" "decode_fixed_header (fr_buf r) = Ok (h, n)"
    "n + unat (remaining_length h) \<le> fr_max_packet_size r"
  shows "try_decode_loop r = frame_step r (fr_state r)"
proof -
  have "fr_buf r \<noteq> []"
    using decode_fixed_header_sound [OF assms(2)] by auto
  then show ?thesis
    using assms by (subst try_decode_loop.simps)
      (auto simp: next_packet_def Let_def and_then_def frame_step_def split: sum.splits)
qed

lemma try_decode_header:
  assumes inv: "frame_inv r" and st: "fr_state r = ReadingHeader"
  shows "\<exists>st. frame_inv (r\<lparr>fr_state := st\<rparr>) \<and> try_decode_loop r = frame_step r st
    \<and> (fst (try_decode_loop r) = Ok None \<longrightarrow> st = ReadingHeader \<longrightarrow> decode_fixed_header (fr_buf r) = Err eof_error)"
proof (cases "decode_fixed_header (fr_buf r)")
  case (Inl e)
  then have "try_decode_loop r = frame_step r ReadingHeader"
    "fst (try_decode_loop r) = Ok None \<longrightarrow> decode_fixed_header (fr_buf r) = Err eof_error"
    using st by (auto simp: try_decode_loop.simps [of r] next_packet_def eof_error_def frame_step_def
        decode_fixed_header_def read_u8_eq split: if_splits)
  then show ?thesis using inv st by (intro exI [of _ ReadingHeader]) (simp add: frame_inv_def)
next
  case (Inr q)
  obtain h n where q: "q = (h, n)" by (cases q)
  let ?total = "n + unat (remaining_length h)"
  note h = decode_fixed_header_sound [OF Inr [unfolded q]]
  have fit: "?total \<le> usize_max" and ne: "fr_buf r \<noteq> []"
    using h by (auto simp: usize_max_def)
  show ?thesis
  proof (cases "?total > fr_max_packet_size r")
    case True
    then have "try_decode_loop r = frame_step r ReadingHeader" "fst (try_decode_loop r) \<noteq> Ok None"
      using st ne Inr q fit
      by (auto simp: try_decode_loop.simps [of r] next_packet_def Let_def frame_step_def)
    then show ?thesis using inv st by (intro exI [of _ ReadingHeader]) (simp add: frame_inv_def)
  next
    case False
    let ?r = "r\<lparr>fr_state := ReadingBody h n ?total\<rparr>"
    have "try_decode_loop r = try_decode_loop ?r"
      using st ne Inr q fit False by (simp add: try_decode_loop.simps [of r])
    also have "\<dots> = frame_step r (ReadingBody h n ?total)"
      using try_decode_body [of ?r h n] Inr q False
      by (auto simp: frame_step_def split: sum.splits option.splits)
    finally show ?thesis
      using inv Inr q False by (intro exI [of _ "ReadingBody h n ?total"]) (simp add: frame_inv_def)
  qed
qed

lemma try_decode_step:
  assumes "frame_inv r"
  obtains st where "frame_inv (r\<lparr>fr_state := st\<rparr>)" "try_decode r = frame_step r st"
    "fst (try_decode r) = Ok None \<longrightarrow> st = ReadingHeader \<longrightarrow> decode_fixed_header (fr_buf r) = Err eof_error"
proof (cases "fr_state r")
  case ReadingHeader
  with try_decode_header [OF assms] that show ?thesis
    using assms by (auto simp: try_decode_def frame_inv_def)
next
  case (ReadingBody h n len)
  with assms try_decode_body [of r h n] that [of "fr_state r"] show ?thesis
    by (simp add: try_decode_def frame_inv_def)
qed

lemma try_decode_result:
  assumes "frame_inv r"
  shows "fst (try_decode r) =
      and_then (next_packet (fr_max_packet_size r) (fr_buf r)) (\<lambda>q. Ok (map_option fst q))"
    and "frame_inv (snd (try_decode r))"
    and "fr_max_packet_size (snd (try_decode r)) = fr_max_packet_size r"
    and "fr_buf (snd (try_decode r)) =
      (case next_packet (fr_max_packet_size r) (fr_buf r) of Inr (Some (p, rest)) \<Rightarrow> rest | _ \<Rightarrow> fr_buf r)"
proof -
  obtain st where st: "frame_inv (r\<lparr>fr_state := st\<rparr>)" "try_decode r = frame_step r st"
    using try_decode_step [OF assms] by auto
  have "length rest \<le> fr_max_packet_size r"
    if "next_packet (fr_max_packet_size r) (fr_buf r) = Ok (Some (p, rest))" for p rest
    using next_packet_shorter(1) [OF that] assms by (simp add: frame_inv_def)
  then show "fst (try_decode r) =
      and_then (next_packet (fr_max_packet_size r) (fr_buf r)) (\<lambda>q. Ok (map_option fst q))"
    "frame_inv (snd (try_decode r))" "fr_max_packet_size (snd (try_decode r)) = fr_max_packet_size r"
    "fr_buf (snd (try_decode r)) =
      (case next_packet (fr_max_packet_size r) (fr_buf r) of Inr (Some (p, rest)) \<Rightarrow> rest | _ \<Rightarrow> fr_buf r)"
    using st assms by (auto simp: frame_step_def frame_inv_def split: sum.splits option.splits FrameState.splits)
qed

lemma try_decode_shorter:
  assumes "frame_inv r" "fst (try_decode r) = Ok (Some p)"
  shows "length (fr_buf (snd (try_decode r))) < length (fr_buf r)"
proof -
  obtain rest where n: "next_packet (fr_max_packet_size r) (fr_buf r) = Ok (Some (p, rest))"
    using try_decode_result(1) [OF assms(1), unfolded assms(2), symmetric] by (auto simp: result_iffs)
  then show ?thesis using try_decode_result(4) [OF assms(1)] next_packet_shorter(1) [OF n] by simp
qed

lemma frame_push_fits:
  assumes "frame_inv r" "length data \<le> remaining_capacity r"
  shows "frame_inv (frame_push r data)" "fr_buf (frame_push r data) = fr_buf r @ data"
    "fr_max_packet_size (frame_push r data) = fr_max_packet_size r"
proof -
  show b: "fr_buf (frame_push r data) = fr_buf r @ data"
    using assms(2) by (simp add: frame_push_def Let_def)
  show "fr_max_packet_size (frame_push r data) = fr_max_packet_size r"
    by (simp add: frame_push_def Let_def)
  have "decode_fixed_header (fr_buf r @ data) = Ok (h, n)" if "decode_fixed_header (fr_buf r) = Ok (h, n)" for h n
    using decode_fixed_header_append [of "fr_buf r" data] that by simp
  then show "frame_inv (frame_push r data)"
    using assms by (auto simp: frame_inv_def frame_push_def Let_def remaining_capacity_def split: FrameState.splits)
qed

section \<open>Any chunking gives the same packets\<close>

text \<open>
  The packets of a byte string: all complete packets, and why the list stops: an error, or the
  incomplete bytes that are left.
\<close>

function parse_stream :: "nat \<Rightarrow> bytes \<Rightarrow> Packet list \<times> bytes result" where
  "parse_stream mx data =
    (case next_packet mx data of
       Inl e \<Rightarrow> ([], Err e)
     | Inr None \<Rightarrow> ([], Ok data)
     | Inr (Some (p, rest)) \<Rightarrow> (let (ps, r) = parse_stream mx rest in (p # ps, r)))"
  by pat_completeness auto
termination
  by (relation "measure (\<lambda>(mx, data). length data)") (auto dest: next_packet_shorter(1))

declare parse_stream.simps [simp del]

lemma parse_stream_append:
  "parse_stream mx (xs @ ys) =
    (case parse_stream mx xs of
       (ps, Inl e) \<Rightarrow> (ps, Err e)
     | (ps, Inr rest) \<Rightarrow> (let (qs, r) = parse_stream mx (rest @ ys) in (ps @ qs, r)))"
proof (induction mx xs rule: parse_stream.induct)
  case (1 mx xs)
  show ?case
  proof (cases "next_packet mx xs = Ok None")
    case True
    then show ?thesis by (simp add: parse_stream.simps [of mx xs] Let_def)
  next
    case False
    note a = next_packet_append [OF False, of ys]
    show ?thesis
    proof (cases "next_packet mx xs")
      case (Inl e)
      with a show ?thesis by (simp add: parse_stream.simps [of mx "xs @ ys"] parse_stream.simps [of mx xs])
    next
      case (Inr q)
      with False obtain p rest where q: "next_packet mx xs = Ok (Some (p, rest))" by (cases q) auto
      with a have "next_packet mx (xs @ ys) = Ok (Some (p, rest @ ys))" by simp
      then show ?thesis
        using 1 [OF q refl refl] q
        by (simp add: parse_stream.simps [of mx "xs @ ys"] parse_stream.simps [of mx xs] Let_def
            split: prod.splits sum.splits)
    qed
  qed
qed

text \<open>
  What a caller does with the reader: it pushes chunks that fit and asks for packets, in any
  order.
\<close>

inductive frame_run :: "FrameReader \<Rightarrow> bytes list \<Rightarrow> Packet list \<Rightarrow> FrameReader \<Rightarrow> bool" where
  run_end: "frame_run r [] [] r"
| run_push: "length chunk \<le> remaining_capacity r \<Longrightarrow> frame_run (frame_push r chunk) chunks ps r'
    \<Longrightarrow> frame_run r (chunk # chunks) ps r'"
| run_packet: "try_decode r = (Ok (Some p), r1) \<Longrightarrow> frame_run r1 chunks ps r'
    \<Longrightarrow> frame_run r chunks (p # ps) r'"
| run_wait: "try_decode r = (Ok None, r1) \<Longrightarrow> frame_run r1 chunks ps r' \<Longrightarrow> frame_run r chunks ps r'"

lemma frame_run_stream:
  assumes "frame_run r chunks ps r'" "frame_inv r"
  shows "frame_inv r' \<and> fr_max_packet_size r' = fr_max_packet_size r
    \<and> parse_stream (fr_max_packet_size r) (fr_buf r @ concat chunks) =
      (let (qs, res) = parse_stream (fr_max_packet_size r) (fr_buf r') in (ps @ qs, res))"
  using assms
proof (induction rule: frame_run.induct)
  case (run_push chunk r chunks ps r')
  with frame_push_fits [OF run_push.prems run_push.hyps(1)] show ?case by simp
next
  case (run_packet r p r1 chunks ps r')
  note t = try_decode_result [OF run_packet.prems]
  obtain rest where n: "next_packet (fr_max_packet_size r) (fr_buf r) = Ok (Some (p, rest))" "fr_buf r1 = rest"
    using t(1,4) run_packet.hyps(1) by (auto simp: result_iffs split: option.splits)
  have "next_packet (fr_max_packet_size r) (fr_buf r @ concat chunks) = Ok (Some (p, rest @ concat chunks))"
    using next_packet_append [of "fr_max_packet_size r" "fr_buf r" "concat chunks"] n by simp
  then show ?case
    using run_packet.IH t n(2) run_packet.hyps(1)
    by (simp add: parse_stream.simps [of _ "fr_buf r @ concat chunks"] split: prod.splits)
next
  case (run_wait r r1 chunks ps r')
  note t = try_decode_result [OF run_wait.prems]
  have "fr_buf r1 = fr_buf r"
    using t(1,4) run_wait.hyps(1) by (auto simp: result_iffs split: option.splits)
  then show ?case using run_wait.IH t run_wait.hyps(1) by simp
qed simp

lemma frame_inv_new: "mx \<le> usize_max \<Longrightarrow> frame_inv (FrameReader_with_max_packet_size mx)"
  by (simp add: frame_inv_def FrameReader_with_max_packet_size_def)


section \<open>Packets through the reader\<close>

context packet_codec
begin

lemma next_packet_encoded:
  assumes "wf p" "encode p = Ok bs" "length bs \<le> mx"
  shows "next_packet mx (bs @ rest) = Ok (Some (wrap p, rest))"
proof -
  obtain h n where h: "decode_fixed_header (bs @ rest) = Ok (h, n)" "length bs = n + unat (remaining_length h)"
    "Packet_decode h (take (unat (remaining_length h)) (drop n (bs @ rest))) = Ok (wrap p)"
    using assms(1,2) by (rule encode_decode)
  have "bs \<noteq> []" using length_encode [OF assms(1,2)] by auto
  with h assms(3) show ?thesis by (simp add: next_packet_def Let_def)
qed

lemma try_decode_encoded:
  assumes "wf p" "encode p = Ok bs" "frame_inv r" "fr_buf r = bs @ rest"
  shows "fst (try_decode r) = Ok (Some (wrap p))" "fr_buf (snd (try_decode r)) = rest"
proof -
  have "length bs \<le> fr_max_packet_size r" using assms(3,4) by (simp add: frame_inv_def)
  from next_packet_encoded [OF assms(1,2) this] try_decode_result [OF assms(3)] assms(4)
  show "fst (try_decode r) = Ok (Some (wrap p))" "fr_buf (snd (try_decode r)) = rest" by simp_all
qed

end

section \<open>Correctness of the frame parser\<close>

text \<open>C1: However a byte stream is cut into chunks that fit, and however pushes and decode calls
  are interleaved, the parser has yielded the packets the stream starts with; when it waits for
  more, it has yielded all complete packets and holds the incomplete rest, and when it reports
  an error, so does the stream at that point.\<close>

theorem frame_chunking:
  assumes "frame_run (FrameReader_with_max_packet_size mx) chunks ps r" "mx \<le> usize_max"
  shows "(fst (try_decode r) = Ok None \<longrightarrow> parse_stream mx (concat chunks) = (ps, Ok (fr_buf r)))
    \<and> (\<forall>e. fst (try_decode r) = Err e \<longrightarrow> parse_stream mx (concat chunks) = (ps, Err e))
    \<and> (\<forall>p. fst (try_decode r) = Ok (Some p) \<longrightarrow> (\<exists>qs res. parse_stream mx (concat chunks) = (ps @ p # qs, res)))"
proof -
  let ?r0 = "FrameReader_with_max_packet_size mx"
  have f: "fr_max_packet_size ?r0 = mx" "fr_buf ?r0 = []" by (simp_all add: FrameReader_with_max_packet_size_def)
  have inv: "frame_inv r" "fr_max_packet_size r = mx"
    and s: "parse_stream mx (concat chunks) = (let (qs, res) = parse_stream mx (fr_buf r) in (ps @ qs, res))"
    using frame_run_stream [OF assms(1) frame_inv_new [OF assms(2)]] f by simp_all
  have t: "fst (try_decode r) = and_then (next_packet mx (fr_buf r)) (\<lambda>q. Ok (map_option fst q))"
    using try_decode_result(1) [OF inv(1)] inv(2) by simp
  show ?thesis
    unfolding s t
    by (auto simp: parse_stream.simps [of mx "fr_buf r"] result_iffs split: prod.splits)
qed

theorem frame_chunking_witness:
  "parse_stream 100 [0xD0, 0x00, 0xD0] = ([Pkt_PingResp], Ok [0xD0])"
proof -
  let ?r = "\<lambda>bs. \<lparr>fr_buf = bs, fr_state = ReadingHeader, fr_max_packet_size = 100, fr_overflow_size = None\<rparr>"
  have d: "try_decode (?r [0xD0]) = (Ok None, ?r [0xD0])"
    "try_decode (?r [0xD0, 0x00, 0xD0]) = (Ok (Some Pkt_PingResp), ?r [0xD0])"
    by (simp_all add: try_decode_def try_decode_loop.simps decode_fixed_header_def eval_defs PacketType_from_u8_def
        checked_add_def Packet_decode_def eof_error_def)
  have "frame_run (?r []) [[0xD0], [0x00, 0xD0]] [Pkt_PingResp] (?r [0xD0])"
    by (rule run_push, simp add: remaining_capacity_def, rule run_push, simp_all add: remaining_capacity_def frame_push_def,
        rule run_packet [OF d(2)], rule run_end)
  then have "frame_run (FrameReader_with_max_packet_size 100) [[0xD0], [0x00, 0xD0]] [Pkt_PingResp] (?r [0xD0])"
    by (simp add: FrameReader_with_max_packet_size_def)
  from frame_chunking [OF this] d(1) show ?thesis by (simp add: usize_max_def)
qed



text \<open>Bytes beyond the limit are an error that stays: after an overflow every call reports the
  packet as too large and yields nothing.\<close>

lemma frame_overflow_sticky:
  assumes "remaining_capacity r < length data"
  shows "try_decode (frame_push r data) =
    (Err (PacketTooLarge (min (length (fr_buf r) + length data) usize_max) (fr_max_packet_size r)), frame_push r data)"
  using assms by (simp add: try_decode_def frame_push_def Let_def saturating_add_def)

text \<open>Any sequence of PUBLISH packets written back to back is parsed as that sequence, with
  nothing left over.\<close>

lemma publish_stream:
  assumes "list_all (\<lambda>p. publish_body_len p < 2 ^ 32 \<and> publish_utf8 p \<and> is_ok (PublishPacket_encode p)
      \<and> length (projr (PublishPacket_encode p)) \<le> mx) ps"
  shows "parse_stream mx (concat (map (\<lambda>p. projr (PublishPacket_encode p)) ps)) = (map Pkt_Publish ps, Ok [])"
  using assms
proof (induction ps)
  case Nil
  then show ?case by (simp add: parse_stream.simps next_packet_def)
next
  case (Cons p ps)
  then obtain bs where bs: "PublishPacket_encode p = Ok bs" by (auto simp: is_ok_iff)
  have "next_packet mx (bs @ rest) = Ok (Some (Pkt_Publish p, rest))" for rest
    using Cons.prems bs by (intro publish_packet.next_packet_encoded) auto
  with Cons bs show ?case by (subst parse_stream.simps) simp
qed

end
