(* ===== verification/Async_Driver.thy ===== *)
theory Async_Driver
  imports Async_Types Frame
begin

text \<open>
  The driver of the asynchronous client, \<^verbatim>\<open>MqttConnection\<close> in \<^verbatim>\<open>src/async_client.rs\<close>: its queues, its
  table of pending acknowledgements and its table of pending requests, and every method that
  changes them.  The channels of tokio are not code of the crate: like the transport they are
  operations on the world \<^typ>\<open>'w\<close>, collected in a record that is an argument of the methods.  What
  the driver sends on a oneshot channel is appended to \<open>cn_sent\<close>; the code ignores whether the
  receiver still exists.  A method that cannot panic or wait is a function on the state; the others
  are computations, in which \<^term>\<open>None\<close> is a panic or not returning.
\<close>

section \<open>The runtime\<close>

datatype try_send = Sent | Full | Closed

datatype received = Received Command | NothingYet | AllDropped

record 'w Runtime =
  rt_transport :: "'w Transport"
  rt_is_closed :: "sender \<Rightarrow> 'w \<Rightarrow> bool"
  rt_try_send_event :: "Event \<Rightarrow> 'w \<Rightarrow> try_send \<times> 'w"
  rt_try_recv :: "'w \<Rightarrow> received \<times> 'w"
  rt_recv_timeout :: "duration \<Rightarrow> 'w \<Rightarrow> received \<times> 'w"
  rt_try_send_command :: "Command \<Rightarrow> 'w \<Rightarrow> try_send \<times> 'w"

section \<open>The state\<close>

record 'w MqttConnection =
  cn_stream :: 'w
  cn_frame_reader :: FrameReader
  cn_request_lifecycle :: RequestLifecycle
  cn_outbound :: "OutboundFrame list"
  cn_outbound_bytes :: nat
  cn_pending_acks :: "(u16 \<times> PendingAck) list"
  cn_next_packet_id :: u16
  cn_last_write_at :: instant
  cn_ping_outstanding_since :: "instant option"
  cn_keep_alive_secs :: u16
  cn_peer_max_packet_size :: nat
  cn_peer_receive_maximum :: u16
  cn_server_capabilities :: ServerCapabilities
  cn_max_outbound_queue_bytes :: nat
  cn_max_pending_operations :: nat
  cn_ack_timeout :: duration
  cn_poll_interval :: duration
  cn_closing :: bool
  cn_command_channel_closed :: bool
  cn_needs_flush :: bool
  cn_flush_actions :: "PendingFlush list"
  cn_ping_queued :: bool
  cn_terminal_event_sent :: bool
  cn_pending_requests :: "(bytes \<times> PendingRequest) list"
  cn_response_subscriptions :: "(rstr \<times> ResponseSubscription) list"
  cn_sent :: "(sender \<times> Response) list"

type_synonym ('w, 'a) driver = "('w MqttConnection, 'a) comp"

definition sends :: "(sender \<times> Response) list \<Rightarrow> 'w MqttConnection \<Rightarrow> 'w MqttConnection" where
  "sends rs s = s\<lparr>cn_sent := cn_sent s @ rs\<rparr>"

definition conn_now :: "'w Runtime \<Rightarrow> 'w MqttConnection \<Rightarrow> instant \<times> 'w MqttConnection" where
  "conn_now rt s = (let (t, w) = tr_now (rt_transport rt) (cn_stream s) in (t, s\<lparr>cn_stream := w\<rparr>))"

definition conn_io ::
  "('w \<Rightarrow> 'a \<times> 'w) \<Rightarrow> 'w MqttConnection \<Rightarrow> 'a \<times> 'w MqttConnection" where
  "conn_io f s = (let (r, w) = f (cn_stream s) in (r, s\<lparr>cn_stream := w\<rparr>))"

text \<open>\<^verbatim>\<open>let _ = self.events.try_send(event)\<close>\<close>

definition emit :: "'w Runtime \<Rightarrow> Event \<Rightarrow> 'w MqttConnection \<Rightarrow> 'w MqttConnection" where
  "emit rt event s = snd (conn_io (rt_try_send_event rt event) s)"

definition pureM :: "('s \<Rightarrow> 'a result \<times> 's) \<Rightarrow> ('s, 'a) comp" where
  "pureM f s = Some (f s)"

section \<open>Packet identifiers\<close>

definition bump_packet_id :: "'w MqttConnection \<Rightarrow> 'w MqttConnection" where
  "bump_packet_id s =
    (let s = s\<lparr>cn_next_packet_id := cn_next_packet_id s + 1\<rparr>
     in if cn_next_packet_id s = 0 then s\<lparr>cn_next_packet_id := 1\<rparr> else s)"

primrec reserve_loop :: "nat \<Rightarrow> 'w MqttConnection \<Rightarrow> u16 result \<times> 'w MqttConnection" where
  "reserve_loop 0 s = (Err (QueueFull ''packet identifiers''), s)"
| "reserve_loop (Suc n) s =
    (let packet_id = cn_next_packet_id s;
         s = bump_packet_id s
     in if map_of (cn_pending_acks s) packet_id = None then (Ok packet_id, s)
        else reserve_loop n s)"

definition reserve_packet_id :: "'w MqttConnection \<Rightarrow> u16 result \<times> 'w MqttConnection" where
  "reserve_packet_id s = reserve_loop 65535 s"

definition outgoing_qos1_count :: "'w MqttConnection \<Rightarrow> nat" where
  "outgoing_qos1_count s =
     length (filter (\<lambda>(_, pending). case pk_kind pending of
         Ack_Publish _ \<Rightarrow> True
       | Tombstone _ counts_toward_receive_maximum \<Rightarrow> counts_toward_receive_maximum
       | kind \<Rightarrow> matches_request_publish kind) (cn_pending_acks s))"

definition remove_pending_ack :: "u16 \<Rightarrow> 'w MqttConnection \<Rightarrow> 'w MqttConnection" where
  "remove_pending_ack i s = s\<lparr>cn_pending_acks := AList.delete i (cn_pending_acks s)\<rparr>"

text \<open>
  \<^verbatim>\<open>Instant::now() + self.ack_timeout\<close> panics when the sum is not representable.  The error carries
  the kind back, as \<^verbatim>\<open>PendingInsertError\<close> does.
\<close>

definition insert_pending_ack ::
  "'w Runtime \<Rightarrow> u16 \<Rightarrow> PendingAckKind \<Rightarrow> string \<Rightarrow> 'w MqttConnection
     \<Rightarrow> ((error \<times> PendingAckKind + unit) \<times> 'w MqttConnection) option" where
  "insert_pending_ack rt packet_id kind timeout_label s =
    (if length (cn_pending_acks s) \<ge> cn_max_pending_operations s
     then Some (Err (QueueFull ''pending operation'', kind), s)
     else
       let (now, s) = conn_now rt s in
       case instant_checked_add (rt_transport rt) now (cn_ack_timeout s) of
         None \<Rightarrow> None
       | Some deadline \<Rightarrow>
           Some (Ok (), s\<lparr>cn_pending_acks := AList.update packet_id
               \<lparr>pk_deadline = deadline, pk_timeout_label = timeout_label, pk_kind = kind\<rparr>
               (cn_pending_acks s)\<rparr>))"

section \<open>The outbound queue\<close>

definition enqueue_with_action ::
  "bytes \<Rightarrow> WrittenAction \<Rightarrow> bytes option \<Rightarrow> 'w MqttConnection
     \<Rightarrow> (error \<times> WrittenAction + unit) \<times> 'w MqttConnection" where
  "enqueue_with_action bs action request_correlation s =
    (if length bs > cn_peer_max_packet_size s
     then (Err (PacketTooLarge (length bs) (cn_peer_max_packet_size s), action), s)
     else case checked_add (cn_outbound_bytes s) (length bs) of
       None \<Rightarrow> (Err (QueueFull ''outbound bytes'', action), s)
     | Some next_size \<Rightarrow>
         if next_size > cn_max_outbound_queue_bytes s
         then (Err (QueueFull ''outbound bytes'', action), s)
         else (Ok (), s\<lparr>cn_outbound_bytes := next_size,
                 cn_outbound := cn_outbound s @ [\<lparr>of_bytes = bs, of_offset = 0, of_action = action,
                   of_request_correlation = request_correlation\<rparr>]\<rparr>))"

definition enqueue ::
  "bytes \<Rightarrow> WrittenAction \<Rightarrow> bytes option \<Rightarrow> 'w MqttConnection
     \<Rightarrow> unit result \<times> 'w MqttConnection" where
  "enqueue bs action request_correlation s =
    (case enqueue_with_action bs action request_correlation s of
       (Inl (e, _), s) \<Rightarrow> (Err e, s)
     | (Inr _, s) \<Rightarrow> (Ok (), s))"

definition complete_written ::
  "'w Runtime \<Rightarrow> WrittenAction \<Rightarrow> 'w MqttConnection \<Rightarrow> 'w MqttConnection" where
  "complete_written rt action s =
    (case action of
       Act_None \<Rightarrow> s
     | Act_PublishQos0 result \<Rightarrow>
         sends [(result, Res_Publish (Ok \<lparr>pack_packet_id = None, pack_reason_code = None\<rparr>))] s
     | Act_PingReq \<Rightarrow>
         let (now, s) = conn_now rt s
         in s\<lparr>cn_ping_queued := False, cn_ping_outstanding_since := Some now\<rparr>
     | Act_Disconnect result \<Rightarrow>
         (emit rt (Evt_Disconnected ClientInitiated) (sends [(result, Res_Disconnect (Ok ()))] s))
           \<lparr>cn_terminal_event_sent := True\<rparr>
     | Act_AbandonedDisconnect \<Rightarrow> s)"

text \<open>\<^verbatim>\<open>while let Some(flush) = self.flush_actions.pop_front()\<close>\<close>

primrec complete_flushed ::
  "'w Runtime \<Rightarrow> PendingFlush list \<Rightarrow> 'w MqttConnection \<Rightarrow> 'w MqttConnection" where
  "complete_flushed rt [] s = s\<lparr>cn_flush_actions := []\<rparr>"
| "complete_flushed rt (flush # rest) s =
     complete_flushed rt rest (complete_written rt (pf_action flush)
       (s\<lparr>cn_flush_actions := rest,
          cn_outbound_bytes := cn_outbound_bytes s - pf_bytes flush\<rparr>))"

definition flush_accepted :: "'w Runtime \<Rightarrow> 'w MqttConnection \<Rightarrow> bool result \<times> 'w MqttConnection" where
  "flush_accepted rt s =
    (case conn_io (tr_flush (rt_transport rt)) s of
       (Inr _, s) \<Rightarrow>
         (Ok True, complete_flushed rt (cn_flush_actions s) (s\<lparr>cn_needs_flush := False\<rparr>))
     | (Inl error, s) \<Rightarrow>
         if io_kind error = Interrupted then (Ok False, s)
         else if io_kind error = WouldBlock then (Ok False, s)
         else (Err (Io error), s))"

text \<open>What a successful write of \<open>written\<close> bytes of the front frame does.\<close>

definition advance_front ::
  "'w Runtime \<Rightarrow> OutboundFrame \<Rightarrow> OutboundFrame list \<Rightarrow> nat \<Rightarrow> 'w MqttConnection \<Rightarrow> 'w MqttConnection" where
  "advance_front rt frame rest written s =
    (let frame = frame\<lparr>of_offset := of_offset frame + written\<rparr>;
         (now, s) = conn_now rt s;
         s = s\<lparr>cn_last_write_at := now, cn_needs_flush := True\<rparr>
     in if of_offset frame = length (of_bytes frame)
        then s\<lparr>cn_outbound := rest,
               cn_flush_actions := cn_flush_actions s
                 @ [\<lparr>pf_bytes = length (of_bytes frame), pf_action = of_action frame\<rparr>]\<rparr>
        else s\<lparr>cn_outbound := frame # rest\<rparr>)"

partial_function (option) write_loop :: "'w Runtime \<Rightarrow> ('w, unit) driver" where
  "write_loop rt s =
    (case cn_outbound s of
       [] \<Rightarrow> Some (Ok (), s)
     | frame # rest \<Rightarrow>
         (case conn_io (tr_write (rt_transport rt) (drop (of_offset frame) (of_bytes frame))) s of
            (Inr written, s) \<Rightarrow>
              if written = 0 then Some (Err (Io (IoError WriteZero '''')), s)
              else if written > length (of_bytes frame) - of_offset frame
              then Some (Err (Io (IoError InvalidData ''transport reported an oversized write'')), s)
              else write_loop rt (advance_front rt frame rest written s)
          | (Inl error, s) \<Rightarrow>
              if io_kind error = Interrupted then write_loop rt s
              else if io_kind error = WouldBlock then Some (Ok (), s)
              else Some (Err (Io error), s)))"

definition flush_outbound :: "'w Runtime \<Rightarrow> ('w, unit) driver" where
  "flush_outbound rt =
     andM (\<lambda>s. if cn_needs_flush s then pureM (flush_accepted rt) s else Some (Ok True, s)) (\<lambda>ready.
     if \<not> ready then returns (Ok ())
     else
       andM (write_loop rt) (\<lambda>_ s.
       if cn_needs_flush s
       then andM (pureM (flush_accepted rt)) (\<lambda>_. returns (Ok ())) s
       else Some (Ok (), s)))"

section \<open>Requests in flight\<close>

definition finish_request_lifecycle :: "bytes \<Rightarrow> 'w MqttConnection \<Rightarrow> 'w MqttConnection" where
  "finish_request_lifecycle corr s =
     s\<lparr>cn_request_lifecycle := lifecycle_finish corr (cn_request_lifecycle s)\<rparr>"

text \<open>A frame of the request that has not started yet.\<close>

definition unsent_of :: "bytes \<Rightarrow> OutboundFrame \<Rightarrow> bool" where
  "unsent_of corr frame \<longleftrightarrow> of_offset frame = 0 \<and> of_request_correlation frame = Some corr"

text \<open>Frames of the request that have not started leave the queue.\<close>

definition drop_unsent :: "bytes \<Rightarrow> 'w MqttConnection \<Rightarrow> 'w MqttConnection" where
  "drop_unsent corr s =
     s\<lparr>cn_outbound_bytes := foldl (\<lambda>n frame. n - length (of_bytes frame)) (cn_outbound_bytes s)
         (filter (unsent_of corr) (cn_outbound s)),
       cn_outbound := filter (\<lambda>frame. \<not> unsent_of corr frame) (cn_outbound s)\<rparr>"

definition tombstone_publish :: "u16 \<Rightarrow> 'w MqttConnection \<Rightarrow> 'w MqttConnection" where
  "tombstone_publish packet_id s =
     s\<lparr>cn_pending_acks := AList.map_entry packet_id
         (\<lambda>ack. ack\<lparr>pk_kind := Tombstone Class_Publish True\<rparr>) (cn_pending_acks s)\<rparr>"

definition take_request :: "bytes \<Rightarrow> 'w MqttConnection \<Rightarrow> 'w MqttConnection" where
  "take_request corr s = s\<lparr>cn_pending_requests := AList.delete corr (cn_pending_requests s)\<rparr>"

definition remove_request ::
  "bytes \<Rightarrow> 'w MqttConnection \<Rightarrow> PendingRequest option \<times> 'w MqttConnection" where
  "remove_request corr s =
    (case map_of (cn_pending_requests s) corr of
       None \<Rightarrow> (None, s)
     | Some pending \<Rightarrow>
         let s = finish_request_lifecycle corr (take_request corr s);
             removed_unsent_publish = (\<exists>frame \<in> set (cn_outbound s). unsent_of corr frame);
             s = drop_unsent corr s
         in (Some pending,
             case pr_publish_packet_id pending of
               None \<Rightarrow> s
             | Some packet_id \<Rightarrow>
                 if removed_unsent_publish then remove_pending_ack packet_id s
                 else tombstone_publish packet_id s))"

definition fail_request :: "bytes \<Rightarrow> error \<Rightarrow> 'w MqttConnection \<Rightarrow> 'w MqttConnection" where
  "fail_request corr error s =
    (case remove_request corr s of
       (Some pending, s) \<Rightarrow> sends [(pr_result pending, Res_Request (Err error))] s
     | (None, s) \<Rightarrow> s)"

primrec fail_requests :: "bytes list \<Rightarrow> error \<Rightarrow> 'w MqttConnection \<Rightarrow> 'w MqttConnection" where
  "fail_requests [] error s = s"
| "fail_requests (corr # cs) error s =
     fail_requests cs error (fail_request corr (duplicate_error error) s)"

definition fail_requests_for_topic :: "rstr \<Rightarrow> error \<Rightarrow> 'w MqttConnection \<Rightarrow> 'w MqttConnection" where
  "fail_requests_for_topic topic error s =
     fail_requests (map fst (filter (\<lambda>(_, pending). pr_response_topic pending = topic)
       (cn_pending_requests s))) error s"

definition try_complete_request ::
  "PublishPacket \<Rightarrow> 'w MqttConnection \<Rightarrow> bool \<times> 'w MqttConnection" where
  "try_complete_request packet s =
    (case get_binary (pub_properties packet) CorrelationData of
       None \<Rightarrow> (False, s)
     | Some corr \<Rightarrow>
         (case map_of (cn_pending_requests s) corr of
            None \<Rightarrow> (False, s)
          | Some pending \<Rightarrow>
              if pr_response_topic pending \<noteq> pub_topic packet then (False, s)
              else
                (case remove_request corr s of
                   (Some pending, s) \<Rightarrow>
                     (True, sends [(pr_result pending, Res_Request (Ok packet))] s)
                 | (None, s) \<Rightarrow> (True, s))))"

primrec remove_requests :: "bytes list \<Rightarrow> 'w MqttConnection \<Rightarrow> 'w MqttConnection" where
  "remove_requests [] s = s"
| "remove_requests (corr # cs) s = remove_requests cs (snd (remove_request corr s))"

definition drain_cancellations :: "'w MqttConnection \<Rightarrow> 'w MqttConnection" where
  "drain_cancellations s =
     remove_requests (filter (\<lambda>corr. map_of (cn_pending_requests s) corr \<noteq> None)
       (rl_cancelled (cn_request_lifecycle s))) s"

text \<open>The identifier a publish of quality \<open>qos\<close> needs.\<close>

definition publish_id :: "QoS \<Rightarrow> 'w MqttConnection \<Rightarrow> u16 option result \<times> 'w MqttConnection" where
  "publish_id qos s =
    (if qos = AtLeastOnce then
       (case reserve_packet_id s of
          (Inl e, s) \<Rightarrow> (Err e, s)
        | (Inr i, s) \<Rightarrow> (Ok (Some i), s))
     else (Ok None, s))"

text \<open>\<^verbatim>\<open>self.insert_pending_ack(..).map_err(|error| error.error)?\<close>\<close>

definition insertM :: "'w Runtime \<Rightarrow> u16 \<Rightarrow> PendingAckKind \<Rightarrow> string \<Rightarrow> ('w, unit) driver" where
  "insertM rt i kind timeout_label s =
     Option.bind (insert_pending_ack rt i kind timeout_label s) (\<lambda>(r, s).
       Some (case r of Inl (e, _) \<Rightarrow> Err e | Inr _ \<Rightarrow> Ok (), s))"

text \<open>The end of \<^verbatim>\<open>publish_request\<close>, once the packet is encoded.\<close>

definition queue_request :: "'w Runtime \<Rightarrow> bytes \<Rightarrow> u16 option \<Rightarrow> bytes \<Rightarrow> ('w, unit) driver" where
  "queue_request rt corr packet_id bs =
     andM (case packet_id of
         Some i \<Rightarrow> insertM rt i (Ack_RequestPublish corr) ''request publish acknowledgement''
       | None \<Rightarrow> returns (Ok ())) (\<lambda>_ s.
     case enqueue bs Act_None (Some corr) s of
       (Inl e, s) \<Rightarrow>
         Some (Err e, case packet_id of Some i \<Rightarrow> remove_pending_ack i s | None \<Rightarrow> s)
     | (Inr _, s) \<Rightarrow>
         Some (Ok (), s\<lparr>cn_pending_requests := AList.map_entry corr
           (\<lambda>p. p\<lparr>pr_published := True, pr_publish_packet_id := packet_id\<rparr>)
           (cn_pending_requests s)\<rparr>))"

definition publish_request :: "'w Runtime \<Rightarrow> bytes \<Rightarrow> ('w, unit) driver" where
  "publish_request rt corr s =
    (case map_of (cn_pending_requests s) corr of
       None \<Rightarrow> Some (Ok (), s)
     | Some pending \<Rightarrow>
         if pr_published pending then Some (Ok (), s)
         else if pr_qos pending = AtLeastOnce
           \<and> outgoing_qos1_count s \<ge> unat (cn_peer_receive_maximum s)
         then Some (Err (QueueFull ''broker receive maximum''), s)
         else
           andM (pureM (publish_id (pr_qos pending))) (\<lambda>packet_id.
           andM (returns (PublishPacket_encode
               \<lparr>pub_topic = pr_topic pending, pub_packet_id = packet_id,
                pub_payload = pr_payload pending, pub_qos = pr_qos pending, pub_retain = False,
                pub_dup = False, pub_properties = pr_properties pending\<rparr>))
             (queue_request rt corr packet_id)) s)"

primrec publish_requests :: "'w Runtime \<Rightarrow> bytes list \<Rightarrow> ('w, unit) driver" where
  "publish_requests rt [] s = Some (Ok (), s)"
| "publish_requests rt (corr # cs) s =
     Option.bind (publish_request rt corr s) (\<lambda>(r, s).
       publish_requests rt cs (case r of Inl e \<Rightarrow> fail_request corr e s | Inr _ \<Rightarrow> s))"

definition publish_waiting_requests :: "'w Runtime \<Rightarrow> rstr \<Rightarrow> ('w, unit) driver" where
  "publish_waiting_requests rt topic s =
     publish_requests rt (map fst (filter
       (\<lambda>(_, pending). \<not> pr_published pending \<and> pr_response_topic pending = topic)
       (cn_pending_requests s))) s"

definition subscribe_for_responses :: "'w Runtime \<Rightarrow> rstr \<Rightarrow> ('w, unit) driver" where
  "subscribe_for_responses rt topic =
     andM (pureM reserve_packet_id) (\<lambda>packet_id.
     andM (returns (SubscribePacket_encode
         \<lparr>sub_packet_id = packet_id, sub_filters = [(topic, AtLeastOnce)],
          sub_properties = Properties_new\<rparr>)) (\<lambda>bs.
     andM (insertM rt packet_id (Ack_ResponseSubscribe topic)
         ''request subscription acknowledgement'') (\<lambda>_ s.
     let s = s\<lparr>cn_response_subscriptions :=
                AList.update topic Subscribing (cn_response_subscriptions s)\<rparr>
     in case enqueue bs Act_None None s of
          (Inl e, s) \<Rightarrow>
            Some (Err e, (remove_pending_ack packet_id s)
              \<lparr>cn_response_subscriptions := AList.delete topic (cn_response_subscriptions s)\<rparr>)
        | (Inr _, s) \<Rightarrow> Some (Ok (), s))))"

text \<open>
  \<^verbatim>\<open>begin_request\<close>.  The refusals before the request enters the table finish its lifecycle and answer
  on its channel.
\<close>

definition refuse_request ::
  "RequestCommand \<Rightarrow> sender \<Rightarrow> error \<Rightarrow> 'w MqttConnection \<Rightarrow> 'w MqttConnection" where
  "refuse_request request result error s =
     sends [(result, Res_Request (Err error))]
       (finish_request_lifecycle (rq_correlation_data request) s)"

definition admit_request ::
  "'w Runtime \<Rightarrow> RequestCommand \<Rightarrow> sender \<Rightarrow> instant \<Rightarrow> ('w, unit) driver" where
  "admit_request rt request result deadline s =
    (let corr = rq_correlation_data request;
         topic = rq_response_topic request;
         s = s\<lparr>cn_pending_requests := AList.update corr
               \<lparr>pr_topic = rq_topic request, pr_payload = rq_payload request,
                pr_response_topic = topic, pr_qos = rq_qos request,
                pr_properties = rq_properties request, pr_deadline = deadline,
                pr_result = result, pr_publish_packet_id = None, pr_published = False\<rparr>
               (cn_pending_requests s)\<rparr>
     in case map_of (cn_response_subscriptions s) topic of
          Some Ready \<Rightarrow> publish_request rt corr s
        | Some Subscribing \<Rightarrow> Some (Ok (), s)
        | None \<Rightarrow>
            if length (cn_response_subscriptions s) \<ge> cn_max_pending_operations s
            then Some (Err (QueueFull ''response subscriptions''), s)
            else subscribe_for_responses rt topic s)"

definition begin_request :: "'w Runtime \<Rightarrow> RequestCommand \<Rightarrow> sender \<Rightarrow> ('w, unit) driver" where
  "begin_request rt request result s =
    (let corr = rq_correlation_data request;
         (cancelled, l) = consume_cancellation corr (cn_request_lifecycle s);
         s = s\<lparr>cn_request_lifecycle := l\<rparr>
     in if cancelled then Some (Ok (), s)
     else if rq_timeout request = 0
     then Some (Ok (), refuse_request request result
            (InvalidOptions ''request timeout must be non-zero'') s)
     else case and_then (validate_topic_name (rq_topic request))
                 (\<lambda>_. validate_publish (cn_server_capabilities s) (rq_qos request) False) of
       Inl e \<Rightarrow> Some (Ok (), refuse_request request result e s)
     | Inr _ \<Rightarrow>
         if length (cn_pending_requests s) \<ge> cn_max_pending_operations s
         then Some (Ok (), refuse_request request result (QueueFull ''pending request'') s)
         else if map_of (cn_pending_requests s) corr \<noteq> None
         then Some (Ok (), refuse_request request result
                (MalformedPacket ''duplicate request correlation data'') s)
         else
           let (now, s) = conn_now rt s in
           case instant_checked_add (rt_transport rt) now (rq_timeout request) of
             None \<Rightarrow> Some (Ok (), refuse_request request result
                       (InvalidOptions ''request timeout is too large'') s)
           | Some deadline \<Rightarrow> admit_request rt request result deadline s)"

end
