(* ===== verification/Async_Run.thy ===== *)
theory Async_Run
  imports Async_Driver
begin

text \<open>
  The rest of the driver (\<^verbatim>\<open>src/async_client.rs\<close>): starting an operation for a command, dispatching
  what the broker sent, timers, and the loop \<^verbatim>\<open>run\<close>.
\<close>

section \<open>Starting operations\<close>

text \<open>
  The end that \<^verbatim>\<open>begin_publish\<close>, \<^verbatim>\<open>begin_subscribe\<close> and \<^verbatim>\<open>begin_unsubscribe\<close> share: enter the
  acknowledgement into the table, then queue the frame; a failure of either answers on the
  operation's channel.
\<close>

definition await_ack ::
  "'w Runtime \<Rightarrow> u16 \<Rightarrow> PendingAckKind \<Rightarrow> string \<Rightarrow> bytes \<Rightarrow> ('w, unit) driver" where
  "await_ack rt packet_id kind timeout_label bs s =
     Option.bind (insert_pending_ack rt packet_id kind timeout_label s) (\<lambda>(r, s).
       case r of
         Inl (e, kind) \<Rightarrow> Some (Ok (), sends (kind_fail kind e) s)
       | Inr _ \<Rightarrow>
           (case enqueue bs Act_None None s of
              (Inl e, s) \<Rightarrow>
                (case map_of (cn_pending_acks s) packet_id of
                   Some pending \<Rightarrow>
                     Some (Ok (), sends (pending_fail pending e) (remove_pending_ack packet_id s))
                 | None \<Rightarrow> Some (Ok (), s))
            | (Inr _, s) \<Rightarrow> Some (Ok (), s)))"

definition begin_publish ::
  "'w Runtime \<Rightarrow> rstr \<Rightarrow> bytes \<Rightarrow> PublishOptions \<Rightarrow> sender \<Rightarrow> ('w, unit) driver" where
  "begin_publish rt topic payload opts result s =
    (case and_then (validate_topic_name topic)
            (\<lambda>_. validate_publish (cn_server_capabilities s) (po_qos opts) (po_retain opts)) of
       Inl e \<Rightarrow> Some (Ok (), sends [(result, Res_Publish (Err e))] s)
     | Inr _ \<Rightarrow>
         (case publish_id (po_qos opts) s of
            (Inl e, s) \<Rightarrow> Some (Ok (), sends [(result, Res_Publish (Err e))] s)
          | (Inr packet_id, s) \<Rightarrow>
              (case PublishPacket_encode
                  \<lparr>pub_topic = topic, pub_packet_id = packet_id, pub_payload = payload,
                   pub_qos = po_qos opts, pub_retain = po_retain opts, pub_dup = False,
                   pub_properties = po_properties opts\<rparr> of
                 Inl e \<Rightarrow> Some (Ok (), sends [(result, Res_Publish (Err e))] s)
               | Inr bs \<Rightarrow>
                   (case packet_id of
                      Some i \<Rightarrow>
                        if outgoing_qos1_count s \<ge> unat (cn_peer_receive_maximum s)
                        then Some (Ok (), sends
                          [(result, Res_Publish (Err (QueueFull ''broker receive maximum'')))] s)
                        else await_ack rt i (Ack_Publish result) ''publish acknowledgement'' bs s
                    | None \<Rightarrow>
                        (case enqueue_with_action bs (Act_PublishQos0 result) None s of
                           (Inl (e, action), s) \<Rightarrow>
                             Some (Ok (), sends (WrittenAction_fail action e) s)
                         | (Inr _, s) \<Rightarrow> Some (Ok (), s))))))"

definition begin_subscribe :: "'w Runtime \<Rightarrow> rstr \<Rightarrow> QoS \<Rightarrow> sender \<Rightarrow> ('w, unit) driver" where
  "begin_subscribe rt flt qos result s =
    (case validate_subscription_filter (cn_server_capabilities s) flt of
       Inl e \<Rightarrow> Some (Ok (), sends [(result, Res_Subscription (Err e))] s)
     | Inr _ \<Rightarrow>
         (case reserve_packet_id s of
            (Inl e, s) \<Rightarrow> Some (Ok (), sends [(result, Res_Subscription (Err e))] s)
          | (Inr packet_id, s) \<Rightarrow>
              (case SubscribePacket_encode
                  \<lparr>sub_packet_id = packet_id, sub_filters = [(flt, qos)],
                   sub_properties = Properties_new\<rparr> of
                 Inl e \<Rightarrow> Some (Ok (), sends [(result, Res_Subscription (Err e))] s)
               | Inr bs \<Rightarrow>
                   await_ack rt packet_id (Ack_Subscribe qos result)
                     ''subscription acknowledgement'' bs s)))"

definition begin_unsubscribe :: "'w Runtime \<Rightarrow> rstr \<Rightarrow> sender \<Rightarrow> ('w, unit) driver" where
  "begin_unsubscribe rt flt result s =
    (case validate_topic_filter flt of
       Inl e \<Rightarrow> Some (Ok (), sends [(result, Res_Subscription (Err e))] s)
     | Inr _ \<Rightarrow>
         (case reserve_packet_id s of
            (Inl e, s) \<Rightarrow> Some (Ok (), sends [(result, Res_Subscription (Err e))] s)
          | (Inr packet_id, s) \<Rightarrow>
              (case UnsubscribePacket_encode
                  \<lparr>uns_packet_id = packet_id, uns_filters = [flt],
                   uns_properties = Properties_new\<rparr> of
                 Inl e \<Rightarrow> Some (Ok (), sends [(result, Res_Subscription (Err e))] s)
               | Inr bs \<Rightarrow>
                   await_ack rt packet_id (Ack_Unsubscribe flt result)
                     ''unsubscribe acknowledgement'' bs s)))"

definition begin_disconnect :: "sender \<Rightarrow> ('w, unit) driver" where
  "begin_disconnect result =
     andM (updM (\<lambda>s. s\<lparr>cn_closing := True\<rparr>)) (\<lambda>_.
     andM (returns (DisconnectPacket_encode \<lparr>dc_reason_code = 0x00\<rparr>)) (\<lambda>bs s.
     case enqueue_with_action bs (Act_Disconnect result) None s of
       (Inl (e, action), s) \<Rightarrow>
         Some (Ok (), (sends (WrittenAction_fail action e) s)\<lparr>cn_closing := False\<rparr>)
     | (Inr _, s) \<Rightarrow> Some (Ok (), s)))"

definition begin_abandoned_disconnect :: "('w, unit) driver" where
  "begin_abandoned_disconnect s =
    (if cn_closing s \<or> \<not> cn_command_channel_closed s then Some (Ok (), s)
     else
       andM (updM (\<lambda>s. s\<lparr>cn_closing := True\<rparr>)) (\<lambda>_.
       andM (returns (DisconnectPacket_encode \<lparr>dc_reason_code = 0x00\<rparr>)) (\<lambda>bs.
       pureM (enqueue bs Act_AbandonedDisconnect None))) s)"

definition process_command :: "'w Runtime \<Rightarrow> Command \<Rightarrow> ('w, unit) driver" where
  "process_command rt command s =
    (if cn_closing s then Some (Ok (), sends (Command_fail command ClientClosed) s)
     else case command of
       Cmd_Publish topic payload opts result \<Rightarrow> begin_publish rt topic payload opts result s
     | Cmd_Subscribe flt qos result \<Rightarrow> begin_subscribe rt flt qos result s
     | Cmd_Unsubscribe flt result \<Rightarrow> begin_unsubscribe rt flt result s
     | Cmd_Disconnect result \<Rightarrow> begin_disconnect result s
     | Cmd_Request request result \<Rightarrow>
         Option.bind (begin_request rt request result s) (\<lambda>(r, s).
           Some (Ok (), case r of
             Inl e \<Rightarrow> fail_request (rq_correlation_data request) e s
           | Inr _ \<Rightarrow> s)))"

definition abandon :: "('w, unit) driver" where
  "abandon = andM (updM (\<lambda>s. s\<lparr>cn_command_channel_closed := True\<rparr>)) (\<lambda>_.
     begin_abandoned_disconnect)"

primrec drain_loop :: "'w Runtime \<Rightarrow> nat \<Rightarrow> ('w, unit) driver" where
  "drain_loop rt 0 s = Some (Ok (), s)"
| "drain_loop rt (Suc n) s =
    (case conn_io (rt_try_recv rt) s of
       (Received command, s) \<Rightarrow> andM (process_command rt command) (\<lambda>_. drain_loop rt n) s
     | (NothingYet, s) \<Rightarrow> Some (Ok (), s)
     | (AllDropped, s) \<Rightarrow> abandon s)"

definition drain_commands :: "'w Runtime \<Rightarrow> ('w, unit) driver" where
  "drain_commands rt s = drain_loop rt (cn_max_pending_operations s) s"

section \<open>Reading\<close>

primrec read_loop :: "'w Runtime \<Rightarrow> nat \<Rightarrow> 'w MqttConnection \<Rightarrow> unit result \<times> 'w MqttConnection" where
  "read_loop rt 0 s = (Ok (), s)"
| "read_loop rt (Suc n) s =
    (let capacity = min (remaining_capacity (cn_frame_reader s)) 8192 in
     if capacity = 0 then (Ok (), s)
     else case conn_io (tr_read (rt_transport rt) capacity) s of
       (Inr bs, s) \<Rightarrow>
         if bs = [] then
           (Err ConnectionClosed,
            (emit rt (Evt_Disconnected TransportClosed) s)\<lparr>cn_terminal_event_sent := True\<rparr>)
         else read_loop rt n (s\<lparr>cn_frame_reader := frame_push (cn_frame_reader s) bs\<rparr>)
     | (Inl error, s) \<Rightarrow>
         if io_kind error = Interrupted then read_loop rt n s
         else if io_kind error = WouldBlock then (Ok (), s)
         else (Err (Io error), s))"

definition read_available :: "'w Runtime \<Rightarrow> 'w MqttConnection \<Rightarrow> unit result \<times> 'w MqttConnection" where
  "read_available rt s = read_loop rt 64 s"

section \<open>Dispatching\<close>

definition fail_pending :: "'w MqttConnection \<Rightarrow> 'w MqttConnection" where
  "fail_pending s =
    (let s = (sends (concat (map (\<lambda>(_, pending). pending_fail pending ConnectionClosed)
                 (cn_pending_acks s))) s)\<lparr>cn_pending_acks := []\<rparr>;
         s = (sends (concat (map (\<lambda>frame. WrittenAction_fail (of_action frame) ConnectionClosed)
                 (cn_outbound s))) s)\<lparr>cn_outbound := []\<rparr>;
         s = (sends (concat (map (\<lambda>flush. WrittenAction_fail (pf_action flush) ConnectionClosed)
                 (cn_flush_actions s))) s)\<lparr>cn_flush_actions := []\<rparr>;
         s = s\<lparr>cn_outbound_bytes := 0\<rparr>;
         s = s\<lparr>cn_request_lifecycle :=
               foldl (\<lambda>l (corr, _). lifecycle_finish corr l) (cn_request_lifecycle s)
                 (cn_pending_requests s)\<rparr>
     in (sends (map (\<lambda>(_, pending). (pr_result pending, Res_Request (Err ConnectionClosed)))
           (cn_pending_requests s)) s)\<lparr>cn_pending_requests := []\<rparr>)"

definition dispatch_publish ::
  "'w Runtime \<Rightarrow> PublishPacket \<Rightarrow> ('w, unit) driver" where
  "dispatch_publish rt packet =
     andM (if pub_qos packet = AtLeastOnce then
         andM (returns (case pub_packet_id packet of
             Some i \<Rightarrow> Ok i
           | None \<Rightarrow> Err (MalformedPacket ''QoS 1 PUBLISH missing packet id''))) (\<lambda>i.
         andM (returns (PubAckPacket_encode \<lparr>pa_packet_id = i, pa_reason_code = 0x00\<rparr>)) (\<lambda>ack.
         pureM (enqueue ack Act_None None)))
       else returns (Ok ())) (\<lambda>_ s.
     case try_complete_request packet s of
       (True, s) \<Rightarrow> Some (Ok (), s)
     | (False, s) \<Rightarrow>
         (case conn_io (rt_try_send_event rt (Evt_Publish packet)) s of
            (Sent, s) \<Rightarrow> Some (Ok (), s)
          | (Full, s) \<Rightarrow> Some (Err (QueueFull ''event''), s)
          | (Closed, s) \<Rightarrow> Some (Err ClientClosed, s)))"

definition take_pending_ack ::
  "u16 \<Rightarrow> AckClass \<Rightarrow> 'w MqttConnection \<Rightarrow> PendingAck option result \<times> 'w MqttConnection" where
  "take_pending_ack packet_id received s =
    (case map_of (cn_pending_acks s) packet_id of
       None \<Rightarrow> (Ok None, s)
     | Some pending \<Rightarrow>
         if ack_class (pk_kind pending) \<noteq> received
         then (Err (UnexpectedPacket ''acknowledgement type does not match pending packet id''), s)
         else (Ok (Some pending), remove_pending_ack packet_id s))"

definition puback_kind :: "PubAckPacket \<Rightarrow> PendingAckKind \<Rightarrow> 'w MqttConnection \<Rightarrow> 'w MqttConnection" where
  "puback_kind ack kind s =
    (case kind of
       Ack_Publish result \<Rightarrow>
         if pa_reason_code ack \<ge> 0x80
         then sends [(result, Res_Publish (Err (AckRejected ''PUBACK'' (pa_reason_code ack))))] s
         else sends [(result, Res_Publish (Ok \<lparr>pack_packet_id = Some (pa_packet_id ack),
                pack_reason_code = Some (pa_reason_code ack)\<rparr>))] s
     | Ack_RequestPublish corr \<Rightarrow>
         if pa_reason_code ack \<ge> 0x80
         then fail_request corr (AckRejected ''PUBACK'' (pa_reason_code ack)) s
         else s
     | other \<Rightarrow> sends (kind_fail other (UnexpectedPacket ''PUBACK packet id type mismatch'')) s)"

definition dispatch_puback :: "PubAckPacket \<Rightarrow> ('w, unit) driver" where
  "dispatch_puback ack =
     andM (pureM (take_pending_ack (pa_packet_id ack) Class_Publish)) (\<lambda>taken.
     case taken of
       None \<Rightarrow> returns (Ok ())
     | Some pending \<Rightarrow> updM (puback_kind ack (pk_kind pending)))"

definition complete_subscribe :: "SubAckPacket \<Rightarrow> QoS \<Rightarrow> sender \<Rightarrow> ('w, unit) driver" where
  "complete_subscribe ack requested_qos result s =
    (case validate_suback_codes (sa_reason_codes ack) [requested_qos] of
       Inr _ \<Rightarrow>
         Some (Ok (), sends [(result, Res_Subscription (Ok \<lparr>sack_packet_id = sa_packet_id ack,
           sack_reason_codes = sa_reason_codes ack\<rparr>))] s)
     | Inl (AckRejected packet reason_code) \<Rightarrow>
         Some (Ok (), sends [(result, Res_Subscription (Err (AckRejected packet reason_code)))] s)
     | Inl e \<Rightarrow> Some (Err e, sends [(result, Res_Subscription (Err (duplicate_error e)))] s))"

definition suback_response_topic :: "'w Runtime \<Rightarrow> SubAckPacket \<Rightarrow> rstr \<Rightarrow> ('w, unit) driver" where
  "suback_response_topic rt ack topic s =
    (let forget = (\<lambda>s. s\<lparr>cn_response_subscriptions :=
                    AList.delete topic (cn_response_subscriptions s)\<rparr>) in
     case validate_suback_codes (sa_reason_codes ack) [AtLeastOnce] of
       Inr _ \<Rightarrow>
         publish_waiting_requests rt topic (s\<lparr>cn_response_subscriptions :=
           AList.update topic Ready (cn_response_subscriptions s)\<rparr>)
     | Inl (AckRejected packet reason_code) \<Rightarrow>
         Some (Ok (), fail_requests_for_topic topic (AckRejected packet reason_code) (forget s))
     | Inl e \<Rightarrow> Some (Err e, fail_requests_for_topic topic (duplicate_error e) (forget s)))"

definition dispatch_suback :: "'w Runtime \<Rightarrow> SubAckPacket \<Rightarrow> ('w, unit) driver" where
  "dispatch_suback rt ack =
     andM (pureM (take_pending_ack (sa_packet_id ack) Class_Subscribe)) (\<lambda>taken.
     case taken of
       None \<Rightarrow> returns (Ok ())
     | Some pending \<Rightarrow>
         (case pk_kind pending of
            Ack_Subscribe requested_qos result \<Rightarrow> complete_subscribe ack requested_qos result
          | Ack_ResponseSubscribe topic \<Rightarrow> suback_response_topic rt ack topic
          | other \<Rightarrow> updM (sends (kind_fail other
              (UnexpectedPacket ''SUBACK packet id type mismatch'')))))"

definition unsuback_kind :: "UnsubAckPacket \<Rightarrow> PendingAckKind \<Rightarrow> 'w MqttConnection \<Rightarrow> 'w MqttConnection" where
  "unsuback_kind ack kind s =
    (case kind of
       Ack_Unsubscribe flt result \<Rightarrow>
         let response = and_then (validate_reason_codes ''UNSUBACK'' (ua_reason_codes ack) 1)
               (\<lambda>_. Ok \<lparr>sack_packet_id = ua_packet_id ack, sack_reason_codes = ua_reason_codes ack\<rparr>);
             s = (if is_ok response
                  then s\<lparr>cn_response_subscriptions :=
                         AList.delete flt (cn_response_subscriptions s)\<rparr>
                  else s)
         in sends [(result, Res_Subscription response)] s
     | other \<Rightarrow> sends (kind_fail other (UnexpectedPacket ''UNSUBACK packet id type mismatch'')) s)"

definition dispatch_unsuback :: "UnsubAckPacket \<Rightarrow> ('w, unit) driver" where
  "dispatch_unsuback ack =
     andM (pureM (take_pending_ack (ua_packet_id ack) Class_Unsubscribe)) (\<lambda>taken.
     case taken of
       None \<Rightarrow> returns (Ok ())
     | Some pending \<Rightarrow> updM (unsuback_kind ack (pk_kind pending)))"

definition dispatch_packet :: "'w Runtime \<Rightarrow> Packet \<Rightarrow> ('w, unit) driver" where
  "dispatch_packet rt packet =
    (case packet of
       Pkt_Publish packet \<Rightarrow> dispatch_publish rt packet
     | Pkt_PubAck ack \<Rightarrow> dispatch_puback ack
     | Pkt_SubAck ack \<Rightarrow> dispatch_suback rt ack
     | Pkt_UnsubAck ack \<Rightarrow> dispatch_unsuback ack
     | Pkt_PingResp \<Rightarrow> updM (\<lambda>s. s\<lparr>cn_ping_outstanding_since := None\<rparr>)
     | Pkt_Disconnect p \<Rightarrow>
         andM (updM (\<lambda>s. (emit rt (Evt_Disconnected (Server (dc_reason_code p))) (fail_pending s))
                 \<lparr>cn_terminal_event_sent := True\<rparr>)) (\<lambda>_.
         returns (Err (ServerDisconnected (dc_reason_code p))))
     | Pkt_PingReq \<Rightarrow> returns (Err (UnexpectedPacket ''broker sent PINGREQ''))
     | Pkt_ConnAck _ \<Rightarrow> returns (Err (UnexpectedPacket ''duplicate CONNACK''))
     | _ \<Rightarrow> returns (Err (UnexpectedPacket ''server sent client-only packet'')))"

partial_function (option) decode_and_dispatch :: "'w Runtime \<Rightarrow> ('w, unit) driver" where
  "decode_and_dispatch rt s =
    (case try_decode (cn_frame_reader s) of
       (Inr (Some packet), fr) \<Rightarrow>
         andM (dispatch_packet rt packet) (\<lambda>_ s. decode_and_dispatch rt s) (s\<lparr>cn_frame_reader := fr\<rparr>)
     | (Inr None, fr) \<Rightarrow> Some (Ok (), s\<lparr>cn_frame_reader := fr\<rparr>)
     | (Inl e, fr) \<Rightarrow> Some (Err e, s\<lparr>cn_frame_reader := fr\<rparr>))"

section \<open>Timers\<close>

definition expire_ack :: "u16 \<Rightarrow> 'w MqttConnection \<Rightarrow> 'w MqttConnection" where
  "expire_ack packet_id s =
    (case map_of (cn_pending_acks s) packet_id of
       None \<Rightarrow> s
     | Some pending \<Rightarrow>
         let s = s\<lparr>cn_pending_acks := AList.map_entry packet_id
               (\<lambda>p. p\<lparr>pk_kind := entomb (pk_kind p)\<rparr>) (cn_pending_acks s)\<rparr>;
             error = Timeout (pk_timeout_label pending)
         in case pk_kind pending of
              Ack_ResponseSubscribe topic \<Rightarrow>
                fail_requests_for_topic topic error (s\<lparr>cn_response_subscriptions :=
                  AList.delete topic (cn_response_subscriptions s)\<rparr>)
            | Ack_RequestPublish corr \<Rightarrow> fail_request corr error s
            | other \<Rightarrow> sends (kind_fail other error) s)"

primrec expire_acks :: "u16 list \<Rightarrow> 'w MqttConnection \<Rightarrow> 'w MqttConnection" where
  "expire_acks [] s = s"
| "expire_acks (i # ids) s = expire_acks ids (expire_ack i s)"

definition expire_request :: "(sender \<Rightarrow> bool) \<Rightarrow> bytes \<Rightarrow> 'w MqttConnection \<Rightarrow> 'w MqttConnection" where
  "expire_request is_closed corr s =
    (if (case map_of (cn_pending_requests s) corr of
           Some pending \<Rightarrow> is_closed (pr_result pending) | None \<Rightarrow> False)
     then snd (remove_request corr s)
     else fail_request corr (Timeout ''request response'') s)"

primrec expire_requests ::
  "(sender \<Rightarrow> bool) \<Rightarrow> bytes list \<Rightarrow> 'w MqttConnection \<Rightarrow> 'w MqttConnection" where
  "expire_requests is_closed [] s = s"
| "expire_requests is_closed (corr # cs) s =
     expire_requests is_closed cs (expire_request is_closed corr s)"

definition entomb_cancelled :: "(sender \<Rightarrow> bool) \<Rightarrow> 'w MqttConnection \<Rightarrow> 'w MqttConnection" where
  "entomb_cancelled is_closed s =
     s\<lparr>cn_pending_acks := map (\<lambda>(i, pending). (i,
         if pending_is_cancelled is_closed pending
         then pending\<lparr>pk_kind := entomb (pk_kind pending)\<rparr> else pending)) (cn_pending_acks s)\<rparr>"

text \<open>The receivers' state does not change while the driver holds the thread.\<close>

definition expire_operations :: "'w Runtime \<Rightarrow> 'w MqttConnection \<Rightarrow> 'w MqttConnection" where
  "expire_operations rt s =
    (let (now, s) = conn_now rt s;
         is_closed = (\<lambda>result. rt_is_closed rt result (cn_stream s));
         s = entomb_cancelled is_closed s;
         expired_acks = map fst (filter (\<lambda>(_, pending).
           now \<ge> pk_deadline pending \<and> \<not> is_tombstone (pk_kind pending)) (cn_pending_acks s));
         s = expire_acks expired_acks s;
         expired_requests = map fst (filter (\<lambda>(_, pending).
           now \<ge> pr_deadline pending \<or> is_closed (pr_result pending)) (cn_pending_requests s))
     in expire_requests is_closed expired_requests s)"

definition maintain_keep_alive :: "'w Runtime \<Rightarrow> 'w MqttConnection \<Rightarrow> unit result \<times> 'w MqttConnection" where
  "maintain_keep_alive rt s =
    (case keep_alive_interval (cn_keep_alive_secs s) of
       None \<Rightarrow> (Ok (), s)
     | Some interval \<Rightarrow>
         let (now, s) = conn_now rt s in
         case cn_ping_outstanding_since s of
           Some sent_at \<Rightarrow>
             if now - sent_at \<ge> from_secs (unat (cn_keep_alive_secs s))
             then (Err KeepAliveTimeout, s) else (Ok (), s)
         | None \<Rightarrow>
             if \<not> cn_ping_queued s \<and> now - cn_last_write_at s \<ge> interval then
               (case enqueue PINGREQ_BYTES Act_PingReq None s of
                  (Inl e, s) \<Rightarrow> (Err e, s)
                | (Inr _, s) \<Rightarrow> (Ok (), s\<lparr>cn_ping_queued := True\<rparr>))
             else (Ok (), s))"

text \<open>
  How long the driver may sleep.  \<^verbatim>\<open>sent + ..\<close> and \<^verbatim>\<open>self.last_write_at + interval\<close> panic when the
  sum is not representable.
\<close>

definition earliest :: "instant \<Rightarrow> instant list \<Rightarrow> duration \<Rightarrow> duration" where
  "earliest now deadlines wait = foldl (\<lambda>wait deadline. min wait (deadline - now)) wait deadlines"

definition next_wait_duration ::
  "'w Runtime \<Rightarrow> 'w MqttConnection \<Rightarrow> (duration \<times> 'w MqttConnection) option" where
  "next_wait_duration rt s =
    (let (now, s) = conn_now rt s;
         wait = earliest now (map (pk_deadline \<circ> snd) (cn_pending_acks s)) (cn_poll_interval s);
         wait = earliest now (map (pr_deadline \<circ> snd) (cn_pending_requests s)) wait;
         until = (\<lambda>at d. map_option (\<lambda>deadline. (min wait (deadline - now), s))
                          (instant_checked_add (rt_transport rt) at d))
     in case keep_alive_interval (cn_keep_alive_secs s) of
          None \<Rightarrow> Some (wait, s)
        | Some interval \<Rightarrow>
            (case cn_ping_outstanding_since s of
               Some sent_at \<Rightarrow> until sent_at (from_secs (unat (cn_keep_alive_secs s)))
             | None \<Rightarrow> if \<not> cn_ping_queued s then until (cn_last_write_at s) interval
                       else Some (wait, s)))"

section \<open>The loop\<close>

definition finished :: "'w MqttConnection \<Rightarrow> bool" where
  "finished s \<longleftrightarrow> cn_closing s \<and> cn_outbound s = [] \<and> \<not> cn_needs_flush s"

definition wait_command :: "'w Runtime \<Rightarrow> ('w, unit) driver" where
  "wait_command rt s =
     Option.bind (next_wait_duration rt s) (\<lambda>(wait, s).
       case conn_io (rt_recv_timeout rt wait) s of
         (Received command, s) \<Rightarrow> process_command rt command s
       | (AllDropped, s) \<Rightarrow> abandon s
       | (NothingYet, s) \<Rightarrow> Some (Ok (), s))"

partial_function (option) run_inner :: "'w Runtime \<Rightarrow> ('w, unit) driver" where
  "run_inner rt s =
     andM (updM drain_cancellations) (\<lambda>_.
     andM (drain_commands rt) (\<lambda>_.
     andM (flush_outbound rt) (\<lambda>_ s.
     if finished s then Some (Ok (), s)
     else
       andM (pureM (read_available rt)) (\<lambda>_.
       andM (decode_and_dispatch rt) (\<lambda>_.
       andM (updM (expire_operations rt)) (\<lambda>_.
       andM (pureM (maintain_keep_alive rt)) (\<lambda>_.
       andM (flush_outbound rt) (\<lambda>_ s.
       if finished s then Some (Ok (), s)
       else andM (wait_command rt) (\<lambda>_ s. run_inner rt s) s))))) s))) s"

definition run :: "'w Runtime \<Rightarrow> ('w, unit) driver" where
  "run rt s =
     Option.bind (run_inner rt s) (\<lambda>(r, s).
       let s = fail_pending s;
           s = (if \<not> is_ok r \<and> \<not> cn_terminal_event_sent s
                then emit rt (Evt_Disconnected TransportClosed) s else s);
           s = snd (conn_io (tr_shutdown (rt_transport rt)) s)
       in Some (r, s))"

end
