(* ===== verification/Async_Invariant.thy ===== *)
theory Async_Invariant
  imports Async_Run
begin

text \<open>
  Invariants of the driver.  The locale \<open>step_invariant\<close> lists the elementary changes the methods
  of \<^verbatim>\<open>MqttConnection\<close> make to its state, those by which messages come in apart; a predicate that
  survives each of them survives every method that takes no message.  \<open>dispatch_invariant\<close> adds where a
  message goes and \<open>driver_invariant\<close> reading and parsing.  They are interpreted for the well-formedness
  of the state, for the limits of the connection, for the bytes on the wire, and for what makes a turn
  return.
\<close>

section \<open>Whole frames\<close>

text \<open>
  A complete control packet: a valid fixed header and as many bytes after it as it announces.
  What an encoder returns is one, provided its length fits 32 bits.
\<close>

definition control_frame :: "bytes \<Rightarrow> bool" where
  "control_frame bs \<longleftrightarrow>
     (\<exists>t fl body. header_ok t fl \<and> length body < 2 ^ 28 \<and> bs = packet_bytes t fl body)"

definition encoded :: "bytes \<Rightarrow> bool" where
  "encoded bs \<longleftrightarrow> (length bs < 2 ^ 32 \<longrightarrow> control_frame bs)"

lemma finish_packet_encoded: "finish_packet t fl body = Ok bs \<Longrightarrow> encoded bs"
  unfolding encoded_def
proof
  assume ok: "finish_packet t fl body = Ok bs" and "length bs < 2 ^ 32"
  from ok have "length body \<le> length bs" by (auto simp: finish_packet_def result_iffs)
  then have "length body < 2 ^ 32" using \<open>length bs < 2 ^ 32\<close> by simp
  then show "control_frame bs" using ok by (auto simp: finish_packet_Ok control_frame_def)
qed

lemma control_frame_nonempty: "control_frame bs \<Longrightarrow> bs \<noteq> []"
  by (auto simp: control_frame_def packet_bytes_def header_bytes_def)

lemma packet_bytesI:
  "header_ok t fl \<Longrightarrow> length body < 2 ^ 28 \<Longrightarrow> bs = packet_bytes t fl body \<Longrightarrow> encoded bs"
  by (auto simp: encoded_def control_frame_def)

lemma encoded_packets:
  "PublishPacket_encode p = Ok bs \<Longrightarrow> encoded bs"
  "SubscribePacket_encode sp = Ok bs \<Longrightarrow> encoded bs"
  "UnsubscribePacket_encode up = Ok bs \<Longrightarrow> encoded bs"
  by (auto simp: PublishPacket_encode_def SubscribePacket_encode_def UnsubscribePacket_encode_def
      result_iffs Let_def split: if_splits intro: finish_packet_encoded)

lemma encoded_puback: "PubAckPacket_encode a = Ok bs \<Longrightarrow> encoded bs"
  by (rule packet_bytesI [of PT_PubAck 0 "u16_to_be_bytes (pa_packet_id a)
        @ (if pa_reason_code a = 0 then [] else [pa_reason_code a])"])
    (auto simp: PubAckPacket_encode_def result_iffs encode_fixed_header_Ok encode_u16_def
      packet_bytes_def split: if_splits simp flip: numeral_2_eq_2 numeral_3_eq_3)

lemma encoded_disconnect: "DisconnectPacket_encode d = Ok bs \<Longrightarrow> encoded bs"
  by (rule packet_bytesI [of PT_Disconnect 0 "if dc_reason_code d = 0 then [] else [dc_reason_code d]"])
    (auto simp: DisconnectPacket_encode_def result_iffs encode_fixed_header_Ok packet_bytes_def
      split: if_splits)

lemma encoded_pingreq: "encoded PINGREQ_BYTES"
  by (rule packet_bytesI [of PT_PingReq 0 "[]"])
    (simp_all add: PINGREQ_BYTES_def packet_bytes_def header_bytes_def type_byte_def)

lemmas encoded_intros = encoded_packets encoded_puback encoded_disconnect encoded_pingreq

section \<open>Predicates that a computation maintains\<close>

named_theorems maintains_intros \<open>how a predicate is maintained by composed computations\<close>

definition maintains :: "('s \<Rightarrow> bool) \<Rightarrow> ('s, 'a) comp \<Rightarrow> bool" where
  "maintains I m \<longleftrightarrow> (\<forall>s r s'. I s \<longrightarrow> m s = Some (r, s') \<longrightarrow> I s')"

lemma maintainsI: "(\<And>s r s'. I s \<Longrightarrow> m s = Some (r, s') \<Longrightarrow> I s') \<Longrightarrow> maintains I m"
  by (auto simp: maintains_def)

lemma maintainsD: "maintains I m \<Longrightarrow> I s \<Longrightarrow> m s = Some (r, s') \<Longrightarrow> I s'"
  by (auto simp: maintains_def)

lemma maintains_returns [maintains_intros]: "maintains I (returns r)"
  by (simp add: maintains_def returns_def)

lemma maintains_Some [maintains_intros]: "maintains I (\<lambda>s. Some (r s, s))"
  by (simp add: maintains_def)

lemma maintains_updM: "(\<And>s. I s \<Longrightarrow> I (f s)) \<Longrightarrow> maintains I (updM f)"
  by (simp add: maintains_def updM_def)

lemma maintains_pureM: "(\<And>s r s'. I s \<Longrightarrow> f s = (r, s') \<Longrightarrow> I s') \<Longrightarrow> maintains I (pureM f)"
  by (auto simp: maintains_def pureM_def)

lemma maintains_andM [maintains_intros]:
  "maintains I m \<Longrightarrow> (\<And>x. maintains I (k x)) \<Longrightarrow> maintains I (andM m k)"
  by (rule maintainsI) (auto simp: andM_Some dest: maintainsD)

lemma maintains_checked:
  "(\<And>x. v = Ok x \<Longrightarrow> maintains I (k x)) \<Longrightarrow> maintains I (andM (returns v) k)"
  by (rule maintainsI) (auto simp: andM_Some returns_def dest: maintainsD)

lemma maintains_if [maintains_intros]:
  "maintains I m \<Longrightarrow> maintains I n \<Longrightarrow> maintains I (if b then m else n)"
  by simp

lemma maintains_if_state [maintains_intros]:
  "maintains I m \<Longrightarrow> maintains I n \<Longrightarrow> maintains I (\<lambda>s. if b s then m s else n s)"
  by (rule maintainsI) (auto split: if_splits dest: maintainsD)

lemma maintains_option [maintains_intros]:
  "maintains I m \<Longrightarrow> (\<And>x. maintains I (k x)) \<Longrightarrow>
     maintains I (case v of None \<Rightarrow> m | Some x \<Rightarrow> k x)"
  by (cases v) auto

text \<open>After an error the weaker predicate \<open>J\<close> is left.\<close>

definition yields :: "('s \<Rightarrow> bool) \<Rightarrow> ('s \<Rightarrow> bool) \<Rightarrow> ('s, 'a) comp \<Rightarrow> bool" where
  "yields I J m \<longleftrightarrow> (\<forall>s r s'. I s \<longrightarrow> m s = Some (r, s') \<longrightarrow> J s' \<and> (is_ok r \<longrightarrow> I s'))"

lemma yieldsI:
  "(\<And>s r s'. I s \<Longrightarrow> m s = Some (r, s') \<Longrightarrow> J s' \<and> (is_ok r \<longrightarrow> I s')) \<Longrightarrow> yields I J m"
  by (auto simp: yields_def)

lemma yieldsD: "yields I J m \<Longrightarrow> I s \<Longrightarrow> m s = Some (r, s') \<Longrightarrow> J s' \<and> (is_ok r \<longrightarrow> I s')"
  by (auto simp: yields_def)

lemma maintains_yields: "maintains I m \<Longrightarrow> (\<And>s. I s \<Longrightarrow> J s) \<Longrightarrow> yields I J m"
  by (auto simp: yields_def maintains_def)

lemma yields_andM:
  assumes "yields I J m" and "\<And>x. yields I J (k x)"
  shows "yields I J (andM m k)"
proof (rule yieldsI)
  fix s r s'
  assume "I s" "andM m k s = Some (r, s')"
  then consider e where "m s = Some (Err e, s')" "r = Err e"
    | x s1 where "m s = Some (Ok x, s1)" "k x s1 = Some (r, s')"
    unfolding andM_Some by blast
  then show "J s' \<and> (is_ok r \<longrightarrow> I s')"
    using yieldsD [OF assms(1) \<open>I s\<close>] yieldsD [OF assms(2)] by cases (auto simp: is_ok_def)
qed

lemma yields_if_state:
  "yields I J m \<Longrightarrow> yields I J n \<Longrightarrow> yields I J (\<lambda>s. if b s then m s else n s)"
  by (rule yieldsI) (auto split: if_splits dest: yieldsD)

section \<open>The phases of a turn\<close>

text \<open>The phases of a turn of the driver; the last one is the end of \<^verbatim>\<open>run\<close>.\<close>

definition turn_phases :: "'w Runtime \<Rightarrow> ('w, unit) driver set" where
  "turn_phases rt =
    {updM drain_cancellations, drain_commands rt, flush_outbound rt, pureM (read_available rt),
     decode_and_dispatch rt, updM (expire_operations rt), pureM (maintain_keep_alive rt),
     wait_command rt}"

definition driver_phases :: "'w Runtime \<Rightarrow> ('w, unit) driver set" where
  "driver_phases rt = insert (updM fail_pending) (turn_phases rt)"

text \<open>What every phase of a turn yields, the loop yields.\<close>

lemma run_inner_yields:
  assumes phases: "\<And>m. m \<in> turn_phases rt \<Longrightarrow> yields I J m" and J: "\<And>s. I s \<Longrightarrow> J s"
  shows "yields I J (run_inner rt)"
proof -
  have "rt' = rt \<longrightarrow> I s \<longrightarrow> J (snd y) \<and> (is_ok (fst y) \<longrightarrow> I (snd y))"
    if "run_inner rt' s = Some y" for rt' s y
    using that
  proof (rule run_inner.raw_induct [rotated], goal_cases)
    case (1 loop rt' s y)
    show ?case
    proof (intro impI)
      assume rt: "rt' = rt" and I: "I s"
      have loop: "yields I J (loop rt)" using 1(1) rt by (fastforce simp: yields_def)
      have "yields I J (\<lambda>s. andM (updM drain_cancellations) (\<lambda>_.
         andM (drain_commands rt) (\<lambda>_.
         andM (flush_outbound rt) (\<lambda>_ s.
         if finished s then Some (Ok (), s)
         else
           andM (pureM (read_available rt)) (\<lambda>_.
           andM (decode_and_dispatch rt) (\<lambda>_.
           andM (updM (expire_operations rt)) (\<lambda>_.
           andM (pureM (maintain_keep_alive rt)) (\<lambda>_.
           andM (flush_outbound rt) (\<lambda>_ s.
           if finished s then Some (Ok (), s)
           else andM (wait_command rt) (\<lambda>_. loop rt) s))))) s))) s)"
        by (intro yields_andM yields_if_state loop maintains_yields [OF maintains_Some J]; (rule phases, simp add: turn_phases_def)?)
      from yieldsD [OF this I, of "fst y" "snd y"] show "J (snd y) \<and> (is_ok (fst y) \<longrightarrow> I (snd y))"
        using 1(2) [unfolded rt] by simp
    qed
  qed
  from this [of rt] show ?thesis by (fastforce simp: yields_def)
qed

section \<open>The elementary changes\<close>

text \<open>
  \<open>quiet\<close> relates the world before and after an operation on it that writes nothing to the stream.
  \<open>I\<close> holds as long as no error has stopped the driver; \<open>J\<close>, which is weaker, also afterwards, when
  \<^verbatim>\<open>fail_pending\<close> has thrown the queues away.
\<close>

text \<open>An answer other than the response to a request.\<close>

definition no_response :: "(sender \<times> Response) list \<Rightarrow> bool" where
  "no_response rs \<longleftrightarrow> (\<forall>x p. (x, Res_Request (Ok p)) \<notin> set rs)"

lemma no_response_simps [simp]:
  "no_response []" "no_response (xr # rs) \<longleftrightarrow> (\<forall>p. snd xr \<noteq> Res_Request (Ok p)) \<and> no_response rs"
  "no_response (rs @ rs') \<longleftrightarrow> no_response rs \<and> no_response rs'" "no_response (concat rss) \<longleftrightarrow> (\<forall>rs \<in> set rss. no_response rs)"
  by (cases xr; auto simp: no_response_def)+

lemma no_response_fails [simp]:
  "no_response (kind_fail k e)" "no_response (WrittenAction_fail a e)" "no_response (pending_fail pk e)"
  "no_response (Command_fail c e)"
proof -
  show k: "no_response (kind_fail k e)" for k by (cases k) simp_all
  show "no_response (WrittenAction_fail a e)" by (cases a) simp_all
  show "no_response (pending_fail pk e)" by (simp add: pending_fail_def k)
  show "no_response (Command_fail c e)" by (cases c) simp_all
qed

locale step_invariant =
  fixes rt :: "'w Runtime" and I J :: "'w MqttConnection \<Rightarrow> bool" and quiet :: "'w \<Rightarrow> 'w \<Rightarrow> bool"
  assumes quiet_now: "tr_now (rt_transport rt) w = (t, w') \<Longrightarrow> quiet w w'"
    and quiet_flush: "tr_flush (rt_transport rt) w = (r, w') \<Longrightarrow> quiet w w'"
    and quiet_event: "rt_try_send_event rt ev w = (sr, w') \<Longrightarrow> (\<And>p. ev \<noteq> Evt_Publish p) \<Longrightarrow> quiet w w'"
    and quiet_try_recv: "rt_try_recv rt w = (rc, w') \<Longrightarrow> quiet w w'"
    and quiet_recv: "rt_recv_timeout rt d w = (rc, w') \<Longrightarrow> quiet w w'"
    and I_world: "I s \<Longrightarrow> quiet (cn_stream s) w \<Longrightarrow> I (s\<lparr>cn_stream := w\<rparr>)"
    and I_written: "I s \<Longrightarrow> cn_outbound s = f # rest \<Longrightarrow>
        tr_write (rt_transport rt) (drop (of_offset f) (of_bytes f)) (cn_stream s) = (Ok n, w) \<Longrightarrow>
        0 < n \<Longrightarrow> n \<le> length (of_bytes f) - of_offset f \<Longrightarrow>
        I (advance_front rt f rest n (s\<lparr>cn_stream := w\<rparr>))"
    and I_not_written: "I s \<Longrightarrow> cn_outbound s = f # rest \<Longrightarrow>
        tr_write (rt_transport rt) (drop (of_offset f) (of_bytes f)) (cn_stream s) = (wr, w) \<Longrightarrow>
        (\<And>n. wr = Ok n \<Longrightarrow> n = 0 \<or> n > length (of_bytes f) - of_offset f) \<Longrightarrow>
        I (s\<lparr>cn_stream := w\<rparr>)"
    and I_sends: "I s \<Longrightarrow> no_response rs \<Longrightarrow> I (sends rs s)"
    and I_closing: "I s \<Longrightarrow> I (s\<lparr>cn_closing := bl\<rparr>)"
    and I_channel: "I s \<Longrightarrow> I (s\<lparr>cn_command_channel_closed := bl\<rparr>)"
    and I_terminal: "I s \<Longrightarrow> I (s\<lparr>cn_terminal_event_sent := bl\<rparr>)"
    and I_ping_queued: "I s \<Longrightarrow> I (s\<lparr>cn_ping_queued := bl\<rparr>)"
    and I_ping: "I s \<Longrightarrow> p = None \<or> (\<exists>w t w'. p = Some t \<and> tr_now (rt_transport rt) w = (t, w')) \<Longrightarrow>
        I (s\<lparr>cn_ping_outstanding_since := p\<rparr>)"
    and I_needs_flush: "I s \<Longrightarrow> I (s\<lparr>cn_needs_flush := False\<rparr>)"
    and I_finish: "I s \<Longrightarrow> I (finish_request_lifecycle corr s)"
    and I_consume: "I s \<Longrightarrow>
        I (s\<lparr>cn_request_lifecycle := snd (consume_cancellation corr (cn_request_lifecycle s))\<rparr>)"
    and I_next_id: "I s \<Longrightarrow> cn_next_packet_id s \<noteq> 0"
    and I_bump: "I s \<Longrightarrow> I (bump_packet_id s)"
    and I_insert_ack: "I s \<Longrightarrow> length (cn_pending_acks s) < cn_max_pending_operations s \<Longrightarrow>
        i \<noteq> 0 \<Longrightarrow> map_of (cn_pending_acks s) i = None \<Longrightarrow>
        (is_qos1_publish (pk_kind a) \<Longrightarrow> outgoing_qos1_count s < unat (cn_peer_receive_maximum s)) \<Longrightarrow>
        I (s\<lparr>cn_pending_acks := AList.update i a (cn_pending_acks s)\<rparr>)"
    and I_remove_ack: "I s \<Longrightarrow> I (remove_pending_ack i s)"
    and I_entomb: "I s \<Longrightarrow> I (s\<lparr>cn_pending_acks := AList.map_entry i
        (\<lambda>a. a\<lparr>pk_kind := entomb (pk_kind a)\<rparr>) (cn_pending_acks s)\<rparr>)"
    and I_entomb_cancelled: "I s \<Longrightarrow> I (entomb_cancelled is_closed s)"
    and I_tombstone: "I s \<Longrightarrow> I (tombstone_publish i s)"
    and I_enqueue: "I s \<Longrightarrow> encoded bs \<Longrightarrow> corr' = None \<or> action = Act_None \<Longrightarrow>
        enqueue_with_action bs action corr' s = (Ok (), s') \<Longrightarrow> I s'"
    and I_flushed: "I s \<Longrightarrow> cn_flush_actions s = fl # fls \<Longrightarrow>
        I (s\<lparr>cn_flush_actions := fls, cn_outbound_bytes := cn_outbound_bytes s - pf_bytes fl\<rparr>)"
    and I_drop_unsent: "I s \<Longrightarrow> I (drop_unsent corr s)"
    and I_request: "I s \<Longrightarrow> length (cn_pending_requests s) < cn_max_pending_operations s \<Longrightarrow>
        I (s\<lparr>cn_pending_requests := AList.update corr q (cn_pending_requests s)\<rparr>)"
    and I_take_request: "I s \<Longrightarrow> I (take_request corr s)"
    and I_published: "I s \<Longrightarrow> I (s\<lparr>cn_pending_requests := AList.map_entry corr
        (\<lambda>q. q\<lparr>pr_published := True, pr_publish_packet_id := pid\<rparr>) (cn_pending_requests s)\<rparr>)"
    and I_subscribed: "I s \<Longrightarrow>
        I (s\<lparr>cn_response_subscriptions := AList.update topic st (cn_response_subscriptions s)\<rparr>)"
    and I_unsubscribed: "I s \<Longrightarrow>
        I (s\<lparr>cn_response_subscriptions := AList.delete topic (cn_response_subscriptions s)\<rparr>)"
    and quiet_shutdown: "tr_shutdown (rt_transport rt) w = (r, w') \<Longrightarrow> quiet w w'"
    and I_J: "I s \<Longrightarrow> J s"
    and J_fail_pending: "J s \<Longrightarrow> J (fail_pending s)"
    and J_world: "J s \<Longrightarrow> quiet (cn_stream s) w \<Longrightarrow> J (s\<lparr>cn_stream := w\<rparr>)"
    and J_terminal: "J s \<Longrightarrow> J (s\<lparr>cn_terminal_event_sent := bl\<rparr>)"
begin

lemmas I_flags = I_sends I_closing I_channel I_terminal I_ping_queued I_ping I_needs_flush
  I_finish I_bump I_remove_ack I_take_request I_published I_subscribed I_unsubscribed

subsection \<open>Identifiers, acknowledgements, frames\<close>

lemma now_I: "I s \<Longrightarrow> conn_now rt s = (t, s') \<Longrightarrow> I s'"
  by (auto simp: conn_now_def split: prod.splits dest: quiet_now intro: I_world)

lemma emit_I: "I s \<Longrightarrow> (\<And>p. ev \<noteq> Evt_Publish p) \<Longrightarrow> I (emit rt ev s)"
  by (auto simp: emit_def conn_io_def split: prod.splits intro: I_world quiet_event)

lemma reserve_loop_I:
  "I s \<Longrightarrow> reserve_loop n s = (r, s') \<Longrightarrow> I s' \<and> (\<forall>i. r = Ok i \<longrightarrow> i \<noteq> 0 \<and> map_of (cn_pending_acks s') i = None)"
proof (induction n arbitrary: s)
  case (Suc n)
  then show ?case
    using I_bump [OF Suc.prems(1)] I_next_id [OF Suc.prems(1)]
    by (auto simp: Let_def split: if_splits)
qed auto

lemma reserve_I:
  assumes "I s" "reserve_packet_id s = (r, s')"
  shows "I s'" "r = Ok i \<Longrightarrow> i \<noteq> 0 \<and> map_of (cn_pending_acks s') i = None"
  using reserve_loop_I [OF assms(1)] assms(2) by (auto simp: reserve_packet_id_def)

lemma publish_id_I:
  assumes "I s" "publish_id q s = (r, s')"
  shows "I s'" "r = Ok (Some i) \<Longrightarrow> i \<noteq> 0 \<and> map_of (cn_pending_acks s') i = None"
  using assms by (auto simp: publish_id_def split: if_splits prod.splits sum.splits dest: reserve_I)

lemma insert_pending_ack_I:
  assumes "I s" "i \<noteq> 0" "map_of (cn_pending_acks s) i = None"
    and "is_qos1_publish k \<Longrightarrow> outgoing_qos1_count s < unat (cn_peer_receive_maximum s)"
    and "insert_pending_ack rt i k label s = Some (r, s')"
  shows "I s'"
proof (cases "length (cn_pending_acks s) \<ge> cn_max_pending_operations s")
  case False
  obtain now s1 where s1: "conn_now rt s = (now, s1)" by force
  then have same: "cn_pending_acks s1 = cn_pending_acks s"
      "cn_max_pending_operations s1 = cn_max_pending_operations s"
      "outgoing_qos1_count s1 = outgoing_qos1_count s"
      "cn_peer_receive_maximum s1 = cn_peer_receive_maximum s"
    by (auto simp: conn_now_def outgoing_qos1_count_def split: prod.splits)
  have "I (s1\<lparr>cn_pending_acks := AList.update i
      \<lparr>pk_deadline = d, pk_timeout_label = label, pk_kind = k\<rparr> (cn_pending_acks s1)\<rparr>)" for d
    by (rule I_insert_ack [OF now_I [OF assms(1) s1]]) (use False same assms(2-4) in auto)
  then show ?thesis
    using assms(5) False s1 by (auto simp: insert_pending_ack_def split: option.splits)
qed (use assms in \<open>simp add: insert_pending_ack_def\<close>)

lemma enqueue_with_action_I:
  "I s \<Longrightarrow> encoded bs \<Longrightarrow> corr = None \<or> action = Act_None \<Longrightarrow>
     enqueue_with_action bs action corr s = (r, s') \<Longrightarrow> I s'"
  by (cases r) (auto simp: enqueue_with_action_def split: if_splits option.splits
      intro: I_enqueue [of s bs corr action] simp: enqueue_with_action_def)

lemma enqueue_I:
  "I s \<Longrightarrow> encoded bs \<Longrightarrow> corr = None \<or> action = Act_None \<Longrightarrow> enqueue bs action corr s = (r, s') \<Longrightarrow> I s'"
  by (auto simp: enqueue_def split: prod.splits sum.splits dest: enqueue_with_action_I)

subsection \<open>Requests\<close>

lemma remove_request_I: "I s \<Longrightarrow> remove_request corr s = (r, s') \<Longrightarrow> I s'"
  by (auto simp: remove_request_def Let_def split: option.splits if_splits
      intro!: I_remove_ack I_tombstone I_drop_unsent I_finish I_take_request)

lemma fail_request_I: "I s \<Longrightarrow> I (fail_request corr e s)"
  by (auto simp: fail_request_def split: prod.splits option.splits
      intro: I_sends dest: remove_request_I)

lemma fail_requests_I: "I s \<Longrightarrow> I (fail_requests cs e s)"
  by (induction cs arbitrary: s) (simp_all add: fail_request_I)

lemma fail_requests_for_topic_I: "I s \<Longrightarrow> I (fail_requests_for_topic topic e s)"
  by (simp add: fail_requests_for_topic_def fail_requests_I)

lemma remove_requests_I: "I s \<Longrightarrow> I (remove_requests cs s)"
proof (induction cs arbitrary: s)
  case (Cons c cs)
  then show ?case using remove_request_I [OF Cons.prems, of c] by (metis prod.collapse remove_requests.simps(2))
qed simp

lemma drain_cancellations_I: "I s \<Longrightarrow> I (drain_cancellations s)"
  by (simp add: drain_cancellations_def remove_requests_I)

lemma insertM_I:
  assumes "I s" "i \<noteq> 0" "map_of (cn_pending_acks s) i = None"
    and "is_qos1_publish k \<Longrightarrow> outgoing_qos1_count s < unat (cn_peer_receive_maximum s)"
    and "insertM rt i k label s = Some (r, s')"
  shows "I s'"
  using assms by (auto simp: insertM_def bind_eq_Some_conv dest: insert_pending_ack_I)

lemma reserve_loop_same:
  "reserve_loop n s = (r, s') \<Longrightarrow>
     cn_pending_acks s' = cn_pending_acks s \<and> cn_peer_receive_maximum s' = cn_peer_receive_maximum s"
  by (induction n arbitrary: s) (auto simp: Let_def bump_packet_id_def split: if_splits)

lemma publish_id_count:
  assumes "publish_id q s = (r, s')"
  shows "outgoing_qos1_count s' = outgoing_qos1_count s"
    "cn_peer_receive_maximum s' = cn_peer_receive_maximum s"
  using assms by (auto simp: publish_id_def reserve_packet_id_def outgoing_qos1_count_def
      split: if_splits prod.splits sum.splits dest: reserve_loop_same)

lemma queue_request_I:
  assumes "I s" and bs: "encoded bs"
    and fresh: "\<And>i. pid = Some i \<Longrightarrow> i \<noteq> 0 \<and> map_of (cn_pending_acks s) i = None
      \<and> outgoing_qos1_count s < unat (cn_peer_receive_maximum s)"
    and run: "queue_request rt corr pid bs s = Some (r, s')"
  shows "I s'"
proof -
  let ?m = "case pid of Some i \<Rightarrow> insertM rt i (Ack_RequestPublish corr) ''request publish acknowledgement''
       | None \<Rightarrow> returns (Ok ())"
  have I1: "I s1" if "?m s = Some (x, s1)" for x s1
    using that assms(1) fresh by (cases pid) (auto simp: returns_def dest: insertM_I)
  from run consider (failed) x where "?m s = Some (x, s')"
    | (queued) x s1 where "?m s = Some (x, s1)" "(case enqueue bs Act_None (Some corr) s1 of
         (Inl e, s) \<Rightarrow> Some (Err e, case pid of Some i \<Rightarrow> remove_pending_ack i s | None \<Rightarrow> s)
       | (Inr _, s) \<Rightarrow> Some (Ok (), s\<lparr>cn_pending_requests := AList.map_entry corr
           (\<lambda>p. p\<lparr>pr_published := True, pr_publish_packet_id := pid\<rparr>) (cn_pending_requests s)\<rparr>)) = Some (r, s')"
    unfolding queue_request_def andM_Some by blast
  then show ?thesis
  proof cases
    case (queued x s1)
    obtain q s2 where q: "enqueue bs Act_None (Some corr) s1 = (q, s2)" by force
    from queued(2) q enqueue_I [OF I1 [OF queued(1)] bs _ q] show ?thesis
      by (auto split: sum.splits option.splits intro: I_remove_ack I_published)
  qed (rule I1)
qed

lemma publish_request_I: "maintains I (publish_request rt corr)"
proof (rule maintainsI)
  fix s r s'
  assume I: "I s" and run: "publish_request rt corr s = Some (r, s')"
  show "I s'"
  proof (cases "map_of (cn_pending_requests s) corr")
    case (Some q)
    obtain x s1 where x: "publish_id (pr_qos q) s = (x, s1)" by force
    note I1 = publish_id_I(1) [OF I x] and id1 = publish_id_I(2) [OF I x] and cnt = publish_id_count [OF x]
    have qos1: "pr_qos q = AtLeastOnce" if "x = Ok (Some i)" for i
      using x that by (auto simp: publish_id_def split: if_splits)
    have q: "I s2" if "\<not> (pr_qos q = AtLeastOnce \<and> outgoing_qos1_count s \<ge> unat (cn_peer_receive_maximum s))"
      "x = Ok pid" "PublishPacket_encode p = Ok bs" "queue_request rt corr pid bs s1 = Some (y, s2)" for pid p bs y s2
      using that I1 id1 cnt qos1 by (intro queue_request_I [OF I1 _ _ that(4)] encoded_intros) auto
    from run Some x I I1 q show ?thesis
      by (auto simp: publish_request_def andM_Some pureM_def returns_def split: if_splits)
  qed (use I run in \<open>simp add: publish_request_def\<close>)
qed

lemma publish_requests_I: "maintains I (publish_requests rt cs)"
proof (induction cs)
  case (Cons c cs)
  show ?case
  proof (rule maintainsI)
    fix s r s'
    assume I: "I s" and run: "publish_requests rt (c # cs) s = Some (r, s')"
    then obtain x s1 where x: "publish_request rt c s = Some (x, s1)"
      "publish_requests rt cs (case x of Inl e \<Rightarrow> fail_request c e s1 | Inr _ \<Rightarrow> s1) = Some (r, s')"
      by (auto simp: bind_eq_Some_conv)
    then show "I s'"
      using maintainsD [OF publish_request_I I x(1)] maintainsD [OF Cons.IH _ x(2)]
      by (auto split: sum.splits intro: fail_request_I)
  qed
qed (simp add: maintains_def)

lemma publish_waiting_requests_I: "maintains I (publish_waiting_requests rt topic)"
  using publish_requests_I by (simp add: maintains_def publish_waiting_requests_def)

lemma subscribe_for_responses_I: "maintains I (subscribe_for_responses rt topic)"
proof (rule maintainsI)
  fix s r s'
  assume I: "I s" and run: "subscribe_for_responses rt topic s = Some (r, s')"
  obtain x s1 where x: "reserve_packet_id s = (x, s1)" by force
  note I1 = reserve_I(1) [OF I x] and id1 = reserve_I(2) [OF I x]
  from run x consider (early) "s' = s1"
    | (inserted) i y p bs s2 where "x = Ok i" "SubscribePacket_encode p = Ok bs"
        "insertM rt i (Ack_ResponseSubscribe topic) ''request subscription acknowledgement'' s1 = Some (y, s2)"
        "s' = s2 \<or> (let s = s2\<lparr>cn_response_subscriptions :=
                AList.update topic Subscribing (cn_response_subscriptions s2)\<rparr>
          in case enqueue bs Act_None None s of
          (Inl e, s) \<Rightarrow>
            Some (Err e, (remove_pending_ack i s)
              \<lparr>cn_response_subscriptions := AList.delete topic (cn_response_subscriptions s)\<rparr>)
        | (Inr _, s) \<Rightarrow> Some (Ok (), s)) = Some (r, s')"
    unfolding subscribe_for_responses_def andM_Some pureM_def returns_def
    by (cases x) (blast | simp)+
  then show "I s'"
  proof cases
    case (inserted i y p bs s2)
    have "I s2" using insertM_I [OF I1 _ _ _ inserted(3)] id1 [OF inserted(1)] by simp
    then have I3: "I (s2\<lparr>cn_response_subscriptions :=
                AList.update topic Subscribing (cn_response_subscriptions s2)\<rparr>)" by (rule I_subscribed)
    obtain q s4 where q: "enqueue bs Act_None None (s2\<lparr>cn_response_subscriptions :=
                AList.update topic Subscribing (cn_response_subscriptions s2)\<rparr>) = (q, s4)" by force
    have "cn_response_subscriptions (remove_pending_ack i s4) = cn_response_subscriptions s4"
      by (simp add: remove_pending_ack_def)
    then show ?thesis
      using inserted(4) q enqueue_I [OF I3 encoded_packets(2) [OF inserted(2)] _ q] \<open>I s2\<close>
        I_unsubscribed [OF I_remove_ack, of s4 topic i]
      by (auto simp: Let_def split: sum.splits)
  qed (use I1 in simp)
qed

lemma refuse_request_I: "I s \<Longrightarrow> I (refuse_request q result e s)"
  by (simp add: refuse_request_def I_sends I_finish)

lemma admit_request_I:
  assumes I: "I s" "length (cn_pending_requests s) < cn_max_pending_operations s"
    and run: "admit_request rt request result d s = Some (r, s')"
  shows "I s'"
proof -
  define s1 where "s1 = s\<lparr>cn_pending_requests := AList.update (rq_correlation_data request)
               \<lparr>pr_topic = rq_topic request, pr_payload = rq_payload request,
                pr_response_topic = rq_response_topic request, pr_qos = rq_qos request,
                pr_properties = rq_properties request, pr_deadline = d,
                pr_result = result, pr_publish_packet_id = None, pr_published = False\<rparr>
               (cn_pending_requests s)\<rparr>"
  have I1: "I s1" unfolding s1_def by (rule I_request [OF I])
  from run I1 maintainsD [OF publish_request_I I1] maintainsD [OF subscribe_for_responses_I I1] show ?thesis
    unfolding admit_request_def Let_def s1_def [symmetric]
    by (auto split: if_splits option.splits ResponseSubscription.splits)
qed

lemma begin_request_I: "maintains I (begin_request rt request result)"
proof (rule maintainsI)
  fix s r s'
  assume I: "I s" and run: "begin_request rt request result s = Some (r, s')"
  define corr where "corr = rq_correlation_data request"
  obtain cancelled l where l: "consume_cancellation corr (cn_request_lifecycle s) = (cancelled, l)" by force
  define s1 where "s1 = s\<lparr>cn_request_lifecycle := l\<rparr>"
  have I1: "I s1" using I_consume [OF I, of corr] l by (simp add: s1_def)
  obtain now s2 where s2: "conn_now rt s1 = (now, s2)" by force
  then have I2: "I s2" and same: "cn_pending_requests s2 = cn_pending_requests s1"
      "cn_max_pending_operations s2 = cn_max_pending_operations s1"
    using now_I [OF I1 s2] by (auto simp: conn_now_def split: prod.splits)
  note admit = admit_request_I [OF I2, unfolded same]
  from run l I1 show "I s'"
    unfolding begin_request_def Let_def corr_def [symmetric]
    by (auto simp flip: s1_def simp: s2 not_le split: if_splits sum.splits option.splits
        intro: refuse_request_I [OF I1] refuse_request_I [OF I2] dest: admit)
qed

subsection \<open>Commands\<close>

lemma await_ack_I:
  assumes "I s" "i \<noteq> 0" "map_of (cn_pending_acks s) i = None" and bs: "encoded bs"
    and "is_qos1_publish k \<Longrightarrow> outgoing_qos1_count s < unat (cn_peer_receive_maximum s)"
    and run: "await_ack rt i k label bs s = Some (r, s')"
  shows "I s'"
proof -
  from run obtain x s1 where x: "insert_pending_ack rt i k label s = Some (x, s1)"
    by (auto simp: await_ack_def bind_eq_Some_conv)
  have I1: "I s1" by (rule insert_pending_ack_I [OF assms(1-3,5) x]) simp
  obtain q s2 where q: "enqueue bs Act_None None s1 = (q, s2)" by force
  from run x q I1 enqueue_I [OF I1 bs _ q] show ?thesis
    by (auto simp: await_ack_def split: sum.splits option.splits intro: I_sends I_remove_ack)
qed

lemma begin_publish_I: "maintains I (begin_publish rt topic payload opts result)"
proof (rule maintainsI)
  fix s r s'
  assume I: "I s" and run: "begin_publish rt topic payload opts result s = Some (r, s')"
  obtain x s1 where x: "publish_id (po_qos opts) s = (x, s1)" by force
  note I1 = publish_id_I(1) [OF I x] and id1 = publish_id_I(2) [OF I x]
  have e: "I s2" if "PublishPacket_encode p = Ok bs" "enqueue_with_action bs a None s1 = (y, s2)" for p bs a y s2
    using enqueue_with_action_I [OF I1 encoded_packets(1), of _ bs None a] that by blast
  have a: "I s2" if "x = Ok (Some i)" "PublishPacket_encode p = Ok bs"
      "\<not> outgoing_qos1_count s1 \<ge> unat (cn_peer_receive_maximum s1)"
      "await_ack rt i (Ack_Publish result) label bs s1 = Some (y, s2)" for i p bs label y s2
    using await_ack_I [OF I1 _ _ encoded_packets(1) _ that(4)] that(1-3) id1 by auto
  from run x I_sends [OF I, of "[(q, z)]" for q z] I_sends [OF I1, of "[(q, z)]" for q z] show "I s'"
    by (auto simp: begin_publish_def split: sum.splits option.splits if_splits prod.splits
        intro: I_sends dest: e a)
qed

lemma begin_subscribe_I: "maintains I (begin_subscribe rt flt qos result)"
proof (rule maintainsI)
  fix s r s'
  assume I: "I s" and run: "begin_subscribe rt flt qos result s = Some (r, s')"
  obtain x s1 where x: "reserve_packet_id s = (x, s1)" by force
  note I1 = reserve_I(1) [OF I x] and id1 = reserve_I(2) [OF I x]
  have a: "I s2" if "x = Ok i" "SubscribePacket_encode p = Ok bs"
      "await_ack rt i (Ack_Subscribe qos result) label bs s1 = Some (y, s2)" for i p bs label y s2
    using await_ack_I [OF I1 _ _ encoded_packets(2) _ that(3)] that(1-2) id1 by auto
  from run x I_sends [OF I, of "[(q, z)]" for q z] I_sends [OF I1, of "[(q, z)]" for q z] show "I s'"
    by (auto simp: begin_subscribe_def split: sum.splits dest: a)
qed

lemma begin_unsubscribe_I: "maintains I (begin_unsubscribe rt flt result)"
proof (rule maintainsI)
  fix s r s'
  assume I: "I s" and run: "begin_unsubscribe rt flt result s = Some (r, s')"
  obtain x s1 where x: "reserve_packet_id s = (x, s1)" by force
  note I1 = reserve_I(1) [OF I x] and id1 = reserve_I(2) [OF I x]
  have a: "I s2" if "x = Ok i" "UnsubscribePacket_encode p = Ok bs"
      "await_ack rt i (Ack_Unsubscribe flt result) label bs s1 = Some (y, s2)" for i p bs label y s2
    using await_ack_I [OF I1 _ _ encoded_packets(3) _ that(3)] that(1-2) id1 by auto
  from run x I_sends [OF I, of "[(q, z)]" for q z] I_sends [OF I1, of "[(q, z)]" for q z] show "I s'"
    by (auto simp: begin_unsubscribe_def split: sum.splits dest: a)
qed

lemma begin_disconnect_I: "maintains I (begin_disconnect result)"
  unfolding begin_disconnect_def
proof (rule maintains_andM [OF maintains_updM], erule I_closing, rule maintains_checked, rule maintainsI)
  fix bs s r s'
  assume "DisconnectPacket_encode \<lparr>dc_reason_code = 0\<rparr> = Ok bs" and I: "I s"
    and run: "(case enqueue_with_action bs (Act_Disconnect result) None s of
       (Inl (e, action), s) \<Rightarrow>
         Some (Ok (), (sends (WrittenAction_fail action e) s)\<lparr>cn_closing := False\<rparr>)
     | (Inr _, s) \<Rightarrow> Some (Ok (), s)) = Some (r, s')"
  obtain y s2 where y: "enqueue_with_action bs (Act_Disconnect result) None s = (y, s2)" by force
  have "I s2" by (rule enqueue_with_action_I [OF I encoded_disconnect _ y]) (fact | simp)+
  then show "I s'"
    using run y by (auto split: sum.splits simp: I_closing I_sends)
qed

lemma enqueue_maintains: "encoded bs \<Longrightarrow> maintains I (pureM (enqueue bs action None))"
  by (auto intro!: maintains_pureM intro: enqueue_I)

lemma begin_abandoned_disconnect_I: "maintains I begin_abandoned_disconnect"
  unfolding begin_abandoned_disconnect_def
  by (intro maintains_if_state maintains_Some maintains_checked maintains_andM maintains_updM I_closing
      enqueue_maintains) (auto intro: encoded_disconnect)

lemma abandon_I: "maintains I abandon"
  unfolding abandon_def
  by (intro maintains_andM maintains_updM I_channel begin_abandoned_disconnect_I)

lemma process_command_I: "maintains I (process_command rt command)"
proof (rule maintainsI)
  fix s r s'
  assume I: "I s" and run: "process_command rt command s = Some (r, s')"
  note ops = begin_publish_I begin_subscribe_I begin_unsubscribe_I begin_disconnect_I begin_request_I
  have request: "I s2" if "begin_request rt q result s = Some (x, s1)"
      "s2 = (case x of Inl e \<Rightarrow> fail_request c e s1 | Inr _ \<Rightarrow> s1)" for q result x s1 s2 c
    using that maintainsD [OF begin_request_I I that(1)] by (auto split: sum.splits intro: fail_request_I)
  show "I s'"
  proof (cases "cn_closing s")
    case False
    then show ?thesis
      using run ops [THEN maintainsD, OF I]
      by (cases command) (auto simp: process_command_def bind_eq_Some_conv intro: request)
  qed (use I run in \<open>auto simp: process_command_def I_sends\<close>)
qed

lemma conn_io_I: "I s \<Longrightarrow> (\<And>w r w'. f w = (r, w') \<Longrightarrow> quiet w w') \<Longrightarrow> conn_io f s = (r, s') \<Longrightarrow> I s'"
  by (auto simp: conn_io_def split: prod.splits intro: I_world)

lemma drain_loop_I: "maintains I (drain_loop rt n)"
proof (induction n)
  case (Suc n)
  show ?case
  proof (rule maintainsI)
    fix s r s'
    assume I: "I s" and run: "drain_loop rt (Suc n) s = Some (r, s')"
    obtain x s1 where x: "conn_io (rt_try_recv rt) s = (x, s1)" by force
    have "I s1" by (rule conn_io_I [OF I _ x]) (rule quiet_try_recv)
    then show "I s'"
      using run x maintainsD [OF abandon_I, of s1 r s']
        maintainsD [OF maintains_andM [OF process_command_I Suc.IH], of s1 _ r s']
      by (cases x) simp_all
  qed
qed (simp add: maintains_def)

lemma drain_commands_I: "maintains I (drain_commands rt)"
  using drain_loop_I by (simp add: maintains_def drain_commands_def)

subsection \<open>Writing\<close>

lemma complete_written_I: "I s \<Longrightarrow> I (complete_written rt action s)"
proof (cases action)
  case Act_PingReq
  assume I: "I s"
  obtain now w where now: "tr_now (rt_transport rt) (cn_stream s) = (now, w)" by force
  have "I (s\<lparr>cn_stream := w, cn_ping_queued := False\<rparr>)"
    by (intro I_ping_queued I_world I quiet_now [OF now])
  then have "I (s\<lparr>cn_stream := w, cn_ping_queued := False, cn_ping_outstanding_since := Some now\<rparr>)"
    using now by (intro I_ping) auto
  then show ?thesis using Act_PingReq now by (simp add: complete_written_def conn_now_def)
qed (simp_all add: complete_written_def I_sends I_terminal emit_I)

lemma complete_written_actions [simp]:
  "cn_flush_actions (complete_written rt action s) = cn_flush_actions s"
  by (auto simp: complete_written_def emit_def sends_def conn_io_def conn_now_def
      split: WrittenAction.splits prod.splits)

lemma complete_flushed_I:
  "I s \<Longrightarrow> cn_flush_actions s = fls \<Longrightarrow> I (complete_flushed rt fls s)"
proof (induction fls arbitrary: s)
  case Nil
  then have same: "s\<lparr>cn_flush_actions := []\<rparr> = s" by simp
  show ?case unfolding complete_flushed.simps same by (rule Nil)
next
  case (Cons fl fls)
  then show ?case by (simp add: complete_written_I I_flushed)
qed

lemma flush_accepted_I: "I s \<Longrightarrow> flush_accepted rt s = (r, s') \<Longrightarrow> I s'"
proof -
  assume I: "I s" and run: "flush_accepted rt s = (r, s')"
  obtain x s1 where x: "conn_io (tr_flush (rt_transport rt)) s = (x, s1)" by force
  have "I s1" by (rule conn_io_I [OF I _ x]) (rule quiet_flush)
  then show "I s'"
    using run x by (auto simp: flush_accepted_def split: sum.splits if_splits
        intro: complete_flushed_I I_needs_flush)
qed

lemma write_loop_I: "maintains I (write_loop rt)"
proof -
  have "rt' = rt \<longrightarrow> I s \<longrightarrow> I (snd y)" if "write_loop rt' s = Some y" for rt' s y
    using that
  proof (rule write_loop.raw_induct [rotated], goal_cases)
    case (1 loop rt' s y)
    show ?case
    proof (intro impI)
      assume rt: "rt' = rt" and I: "I s"
      have IH: "I s1 \<Longrightarrow> loop rt s1 = Some y \<Longrightarrow> I (snd y)" for s1 using 1(1) rt by blast
      show "I (snd y)"
      proof (cases "cn_outbound s")
        case (Cons f rest)
        obtain x w where x: "tr_write (rt_transport rt) (drop (of_offset f) (of_bytes f)) (cn_stream s) = (x, w)"
          by force
        show ?thesis
        proof (cases "\<exists>n. x = Ok n \<and> 0 < n \<and> n \<le> length (of_bytes f) - of_offset f")
          case True
          then show ?thesis
            using 1(2) rt Cons x I_written [OF I Cons] IH by (auto simp: conn_io_def)
        next
          case False
          then have "I (s\<lparr>cn_stream := w\<rparr>)" by (intro I_not_written [OF I Cons x]) auto
          then show ?thesis
            using 1(2) rt Cons x False IH by (auto simp: conn_io_def split: sum.splits if_splits)
        qed
      qed (use 1(2) I in auto)
    qed
  qed
  from this [of rt] show ?thesis by (auto simp: maintains_def)
qed

lemma flush_outbound_I: "maintains I (flush_outbound rt)"
  unfolding flush_outbound_def
  by (intro maintains_intros write_loop_I maintains_pureM) (erule (1) flush_accepted_I)+

subsection \<open>Dispatching\<close>

lemma take_pending_ack_I: "I s \<Longrightarrow> take_pending_ack i cl s = (r, s') \<Longrightarrow> I s'"
  by (auto simp: take_pending_ack_def split: option.splits if_splits intro: I_remove_ack)

lemma puback_kind_I: "I s \<Longrightarrow> I (puback_kind ack k s)"
  by (cases k) (simp_all add: puback_kind_def I_sends fail_request_I)

lemma unsuback_kind_I: "I s \<Longrightarrow> I (unsuback_kind ack k s)"
  by (cases k) (simp_all add: unsuback_kind_def Let_def I_sends I_unsubscribed)

lemma dispatch_puback_I: "maintains I (dispatch_puback ack)"
  unfolding dispatch_puback_def
  by (intro maintains_intros maintains_pureM maintains_updM puback_kind_I) (rule take_pending_ack_I)

lemma dispatch_unsuback_I: "maintains I (dispatch_unsuback ack)"
  unfolding dispatch_unsuback_def
  by (intro maintains_intros maintains_pureM maintains_updM unsuback_kind_I) (rule take_pending_ack_I)

lemma complete_subscribe_I: "maintains I (complete_subscribe ack q result)"
  by (rule maintainsI) (auto simp: complete_subscribe_def I_sends split: sum.splits error.splits)

lemma suback_response_topic_I: "maintains I (suback_response_topic rt ack topic)"
proof (rule maintainsI)
  fix s r s'
  assume I: "I s" and run: "suback_response_topic rt ack topic s = Some (r, s')"
  note fails = fail_requests_for_topic_I [OF I_unsubscribed [OF I]]
    and ready = maintainsD [OF publish_waiting_requests_I I_subscribed [OF I]]
  show "I s'"
  proof (cases "validate_suback_codes (sa_reason_codes ack) [AtLeastOnce]")
    case (Inl e)
    then show ?thesis using run fails by (cases e) (auto simp: suback_response_topic_def)
  next
    case (Inr u)
    then show ?thesis using run ready by (auto simp: suback_response_topic_def Let_def)
  qed
qed

lemma dispatch_suback_I: "maintains I (dispatch_suback rt ack)"
  unfolding dispatch_suback_def
proof (intro maintains_andM maintains_pureM maintains_option maintains_returns)
  show "maintains I (case pk_kind p of
            Ack_Subscribe requested_qos result \<Rightarrow> complete_subscribe ack requested_qos result
          | Ack_ResponseSubscribe topic \<Rightarrow> suback_response_topic rt ack topic
          | other \<Rightarrow> updM (sends (kind_fail other
              (UnexpectedPacket ''SUBACK packet id type mismatch''))))" for p
    by (cases "pk_kind p")
      (auto intro!: complete_subscribe_I suback_response_topic_I maintains_updM intro: I_sends)
qed (rule take_pending_ack_I)

lemmas yieldsI_maintains = maintains_yields [where I = I and J = J, OF _ I_J]

lemma emit_J: "J s \<Longrightarrow> (\<And>p. ev \<noteq> Evt_Publish p) \<Longrightarrow> J (emit rt ev s)"
  by (auto simp: emit_def conn_io_def split: prod.splits intro: J_world quiet_event)

subsection \<open>Timers\<close>

lemma expire_ack_I: "I s \<Longrightarrow> I (expire_ack i s)"
  by (auto simp: expire_ack_def Let_def split: option.splits PendingAckKind.splits
      intro!: I_sends fail_request_I fail_requests_for_topic_I
        I_unsubscribed [of "s\<lparr>cn_pending_acks := xs\<rparr>" for xs, simplified] I_entomb)

lemma expire_acks_I: "I s \<Longrightarrow> I (expire_acks ids s)"
  by (induction ids arbitrary: s) (simp_all add: expire_ack_I)

lemma expire_request_I: "I s \<Longrightarrow> I (expire_request is_closed corr s)"
  using remove_request_I [of s corr "fst (remove_request corr s)"]
  by (simp add: expire_request_def fail_request_I)

lemma expire_requests_I: "I s \<Longrightarrow> I (expire_requests is_closed cs s)"
  by (induction cs arbitrary: s) (simp_all add: expire_request_I)

lemma expire_operations_I: "I s \<Longrightarrow> I (expire_operations rt s)"
  by (auto simp: expire_operations_def Let_def split: prod.splits dest: now_I
      intro!: expire_requests_I expire_acks_I I_entomb_cancelled)

lemma maintain_keep_alive_I:
  assumes I: "I s" and run: "maintain_keep_alive rt s = (r, s')"
  shows "I s'"
proof -
  obtain now s1 where s1: "conn_now rt s = (now, s1)" by force
  note I1 = now_I [OF I s1]
  obtain x s2 where x: "enqueue PINGREQ_BYTES Act_PingReq None s1 = (x, s2)" by force
  note I2 = enqueue_I [OF I1 encoded_pingreq _ x, simplified]
  from run s1 x I I1 I2 I_ping_queued [OF I2] show ?thesis
    by (auto simp: maintain_keep_alive_def split: option.splits if_splits sum.splits)
qed

lemma next_wait_duration_I: "I s \<Longrightarrow> next_wait_duration rt s = Some (d, s') \<Longrightarrow> I s'"
  by (auto simp: next_wait_duration_def Let_def split: prod.splits option.splits if_splits dest: now_I)

lemma wait_command_I: "maintains I (wait_command rt)"
proof (rule maintainsI)
  fix s r s'
  assume I: "I s" and run: "wait_command rt s = Some (r, s')"
  then obtain d s1 where d: "next_wait_duration rt s = Some (d, s1)"
    by (auto simp: wait_command_def bind_eq_Some_conv)
  note I1 = next_wait_duration_I [OF I d]
  obtain x s2 where x: "conn_io (rt_recv_timeout rt d) s1 = (x, s2)" by force
  have "I s2" by (rule conn_io_I [OF I1 _ x]) (rule quiet_recv)
  then show "I s'"
    using run d x maintainsD [OF process_command_I, of s2 _ r s'] maintainsD [OF abandon_I, of s2 r s']
    by (cases x) (simp_all add: wait_command_def)
qed

end

text \<open>A message answers a request or becomes an event.\<close>

locale dispatch_invariant = step_invariant rt I J quiet
  for rt :: "'w Runtime" and I J :: "'w MqttConnection \<Rightarrow> bool" and quiet :: "'w \<Rightarrow> 'w \<Rightarrow> bool" +
  assumes quiet_message: "rt_try_send_event rt (Evt_Publish p) w = (sr, w') \<Longrightarrow> quiet w w'"
    and I_response: "I s \<Longrightarrow> I (sends [(x, Res_Request (Ok p))] s)"
begin

lemma try_complete_request_I: "I s \<Longrightarrow> try_complete_request p s = (b, s') \<Longrightarrow> I s'"
  by (auto simp: try_complete_request_def split: option.splits if_splits prod.splits
      intro: I_response dest: remove_request_I)

lemma dispatch_publish_I: "maintains I (dispatch_publish rt packet)"
  unfolding dispatch_publish_def
proof (rule maintains_andM)
  show "maintains I (if pub_qos packet = AtLeastOnce then
         andM (returns (case pub_packet_id packet of
             Some i \<Rightarrow> Ok i
           | None \<Rightarrow> Err (MalformedPacket ''QoS 1 PUBLISH missing packet id''))) (\<lambda>i.
         andM (returns (PubAckPacket_encode \<lparr>pa_packet_id = i, pa_reason_code = 0x00\<rparr>)) (\<lambda>ack.
         pureM (enqueue ack Act_None None)))
       else returns (Ok ()))"
    by (intro maintains_if maintains_returns maintains_checked enqueue_maintains) (rule encoded_puback)
next
  fix x
  show "maintains I (\<lambda>s. case try_complete_request packet s of
       (True, s) \<Rightarrow> Some (Ok (), s)
     | (False, s) \<Rightarrow>
         (case conn_io (rt_try_send_event rt (Evt_Publish packet)) s of
            (Sent, s) \<Rightarrow> Some (Ok (), s)
          | (Full, s) \<Rightarrow> Some (Err (QueueFull ''event''), s)
          | (Closed, s) \<Rightarrow> Some (Err ClientClosed, s)))"
  proof (rule maintainsI)
    fix s r s'
    assume I: "I s" and run: "(case try_complete_request packet s of
       (True, s) \<Rightarrow> Some (Ok (), s)
     | (False, s) \<Rightarrow>
         (case conn_io (rt_try_send_event rt (Evt_Publish packet)) s of
            (Sent, s) \<Rightarrow> Some (Ok (), s)
          | (Full, s) \<Rightarrow> Some (Err (QueueFull ''event''), s)
          | (Closed, s) \<Rightarrow> Some (Err ClientClosed, s))) = Some (r, s')"
    obtain b s1 where b: "try_complete_request packet s = (b, s1)" by force
    note I1 = try_complete_request_I [OF I b]
    obtain x s2 where x: "conn_io (rt_try_send_event rt (Evt_Publish packet)) s1 = (x, s2)" by force
    have "I s2" by (rule conn_io_I [OF I1 _ x]) (rule quiet_message)
    with run b x I1 show "I s'" by (auto split: bool.splits try_send.splits)
  qed
qed

lemma dispatch_packet_I: "yields I J (dispatch_packet rt packet)"
proof (cases "\<exists>p. packet = Pkt_Disconnect p")
  case False
  then have "maintains I (dispatch_packet rt packet)"
    unfolding dispatch_packet_def
    by (cases packet)
      (auto intro!: maintains_andM maintains_returns maintains_updM
        intro: dispatch_publish_I dispatch_puback_I dispatch_suback_I dispatch_unsuback_I I_ping)
  then show ?thesis by (rule yieldsI_maintains)
qed (auto simp: yields_def dispatch_packet_def andM_def updM_def returns_def is_ok_def
    J_terminal emit_J J_fail_pending I_J)

end

text \<open>With what reading and parsing change, the predicate survives a turn and the whole of \<open>run\<close>.\<close>

locale driver_invariant = dispatch_invariant rt I J quiet
  for rt :: "'w Runtime" and I J :: "'w MqttConnection \<Rightarrow> bool" and quiet :: "'w \<Rightarrow> 'w \<Rightarrow> bool" +
  assumes quiet_read: "tr_read (rt_transport rt) n w = (b, w') \<Longrightarrow> quiet w w'"
    and I_push: "I s \<Longrightarrow> tr_read (rt_transport rt) n w = (Ok bs, w') \<Longrightarrow>
        n \<le> remaining_capacity (cn_frame_reader s) \<Longrightarrow>
        I (s\<lparr>cn_frame_reader := frame_push (cn_frame_reader s) bs\<rparr>)"
    and I_decode: "I s \<Longrightarrow> I (s\<lparr>cn_frame_reader := snd (try_decode (cn_frame_reader s))\<rparr>)"
begin

lemma read_loop_I: "I s \<Longrightarrow> read_loop rt n s = (r, s') \<Longrightarrow> I s'"
proof (induction n arbitrary: s)
  case (Suc n)
  let ?cap = "min (remaining_capacity (cn_frame_reader s)) 8192"
  show ?case
  proof (cases "?cap = 0")
    case False
    obtain x w where x: "tr_read (rt_transport rt) ?cap (cn_stream s) = (x, w)" by force
    have I1: "I (s\<lparr>cn_stream := w\<rparr>)" by (rule I_world [OF Suc.prems(1) quiet_read [OF x]])
    show ?thesis
    proof (cases x)
      case (Inr bs)
      with x I_push [OF I1, of ?cap] have "I (s\<lparr>cn_stream := w,
          cn_frame_reader := frame_push (cn_frame_reader s) bs\<rparr>)" by simp
      then show ?thesis
        using Suc.prems(2) False x Inr Suc.IH I_terminal [OF emit_I [OF I1]]
        by (auto simp: conn_io_def Let_def split: if_splits)
    qed (use Suc.prems(2) False x Suc.IH [OF I1] I1 in \<open>auto simp: conn_io_def Let_def split: if_splits\<close>)
  qed (use Suc.prems in auto)
qed simp

lemma read_available_I: "I s \<Longrightarrow> read_available rt s = (r, s') \<Longrightarrow> I s'"
  unfolding read_available_def by (rule read_loop_I)

lemma decode_and_dispatch_I: "yields I J (decode_and_dispatch rt)"
proof -
  have "rt' = rt \<longrightarrow> I s \<longrightarrow> J (snd y) \<and> (is_ok (fst y) \<longrightarrow> I (snd y))"
    if "decode_and_dispatch rt' s = Some y" for rt' s y
    using that
  proof (rule decode_and_dispatch.raw_induct [rotated], goal_cases)
    case (1 loop rt' s y)
    show ?case
    proof (intro impI)
      assume rt: "rt' = rt" and I: "I s"
      have "yields I J (loop rt)" using 1(1) rt by (fastforce simp: yields_def)
      then have step: "yields I J (andM (dispatch_packet rt p) (\<lambda>_. loop rt))" for p
        by (intro yields_andM dispatch_packet_I)
      obtain x fr where x: "try_decode (cn_frame_reader s) = (x, fr)" by force
      then have fr: "I (s\<lparr>cn_frame_reader := fr\<rparr>)" using I_decode [OF I] by simp
      then show "J (snd y) \<and> (is_ok (fst y) \<longrightarrow> I (snd y))"
        using 1(2) rt x yieldsD [OF step, of _ _ "fst y" "snd y"] I_J [OF fr]
        by (auto simp: is_ok_def split: sum.splits option.splits)
    qed
  qed
  from this [of rt] show ?thesis by (fastforce simp: yields_def)
qed

lemma turn_phase_yields:
  assumes "m \<in> turn_phases rt"
  shows "yields I J m"
proof -
  have "maintains I (updM drain_cancellations)"
    by (rule maintains_updM) (rule drain_cancellations_I)
  moreover have "maintains I (updM (expire_operations rt))"
    by (rule maintains_updM) (rule expire_operations_I)
  moreover have "maintains I (pureM (read_available rt))"
    by (rule maintains_pureM) (erule (1) read_available_I)
  moreover have "maintains I (pureM (maintain_keep_alive rt))"
    by (rule maintains_pureM) (erule (1) maintain_keep_alive_I)
  moreover have "maintains I m \<Longrightarrow> yields I J m" for m :: "('w, unit) driver"
    by (rule yieldsI_maintains)
  ultimately show ?thesis
    using assms drain_commands_I flush_outbound_I wait_command_I decode_and_dispatch_I
    by (auto simp: turn_phases_def)
qed

lemma run_inner_I: "yields I J (run_inner rt)"
  by (rule run_inner_yields [OF turn_phase_yields I_J])

lemma run_J:
  assumes "I s" "run rt s = Some (r, s')"
  shows "J s'"
proof -
  from assms(2) obtain s1 where s1: "run_inner rt s = Some (r, s1)"
    and s': "s' = snd (conn_io (tr_shutdown (rt_transport rt))
        (if \<not> is_ok r \<and> \<not> cn_terminal_event_sent (fail_pending s1)
         then emit rt (Evt_Disconnected TransportClosed) (fail_pending s1) else fail_pending s1))"
    by (auto simp: run_def bind_eq_Some_conv Let_def)
  have "J (fail_pending s1)" using yieldsD [OF run_inner_I assms(1) s1] J_fail_pending by blast
  then have J2: "J (if \<not> is_ok r \<and> \<not> cn_terminal_event_sent (fail_pending s1)
         then emit rt (Evt_Disconnected TransportClosed) (fail_pending s1) else fail_pending s1)"
    (is "J ?s2") by (simp add: emit_J)
  obtain x w where x: "tr_shutdown (rt_transport rt) (cn_stream ?s2) = (x, w)" by force
  show ?thesis using J_world [OF J2 quiet_shutdown [OF x]] x s' by (simp add: conn_io_def)
qed

end

section \<open>Well-formed driver states\<close>

text \<open>
  The byte counter is the size of what is queued and of what waits for a flush, and stays within
  its limit; only the frame at the front has been written in part; no caller waits for the frame of
  a request itself; packet identifiers in use are
  distinct, non-zero and within the limit of pending operations; so are the requests.
\<close>

definition queued_bytes :: "'w MqttConnection \<Rightarrow> nat" where
  "queued_bytes s = sum_list (map (length \<circ> of_bytes) (cn_outbound s))
     + sum_list (map pf_bytes (cn_flush_actions s))"

definition driver_inv :: "'w MqttConnection \<Rightarrow> bool" where
  "driver_inv s \<longleftrightarrow>
     cn_outbound_bytes s = queued_bytes s
     \<and> cn_outbound_bytes s \<le> cn_max_outbound_queue_bytes s
     \<and> (\<forall>f \<in> set (cn_outbound s). of_offset f < length (of_bytes f) \<and> control_frame (of_bytes f)
          \<and> length (of_bytes f) \<le> cn_peer_max_packet_size s
          \<and> (of_request_correlation f = None \<or> of_action f = Act_None))
     \<and> (\<forall>f \<in> set (tl (cn_outbound s)). of_offset f = 0)
     \<and> cn_peer_max_packet_size s < 2 ^ 32
     \<and> distinct (map fst (cn_pending_acks s)) \<and> 0 \<notin> fst ` set (cn_pending_acks s)
     \<and> length (cn_pending_acks s) \<le> cn_max_pending_operations s
     \<and> cn_next_packet_id s \<noteq> 0
     \<and> frame_inv (cn_frame_reader s)
     \<and> distinct (map fst (cn_pending_requests s))
     \<and> length (cn_pending_requests s) \<le> cn_max_pending_operations s
     \<and> distinct (map fst (cn_response_subscriptions s))
     \<and> lifecycle_inv (cn_request_lifecycle s)"

lemma length_AList_update: "length (AList.update k v xs) \<le> Suc (length xs)"
  by (induction xs) auto

lemma length_AList_delete: "length (AList.delete k xs) \<le> length xs"
  by (simp add: AList.delete_eq)

lemma keys_map_entry [simp]: "map fst (AList.map_entry k f xs) = map fst xs"
  by (induction xs) auto

lemma length_map_entry [simp]: "length (AList.map_entry k f xs) = length xs"
  by (metis keys_map_entry length_map)

lemma keys_image_map_entry [simp]: "fst ` set (AList.map_entry k f xs) = fst ` set xs"
  by (metis keys_map_entry set_map)

lemma foldl_minus: "foldl (\<lambda>n x. n - f x) (n :: nat) xs = n - sum_list (map f xs)"
  by (induction xs arbitrary: n) auto

lemma sum_list_filter_split:
  "sum_list (map f (filter P xs)) + sum_list (map f (filter (\<lambda>x. \<not> P x) xs)) = sum_list (map f xs)"
  for f :: "'a \<Rightarrow> nat"
  by (induction xs) auto

lemma in_set_tl: "x \<in> set (tl xs) \<Longrightarrow> x \<in> set xs"
  by (cases xs) auto

lemma tl_filter_unsent:
  assumes "\<forall>f \<in> set (tl fs). of_offset f = 0" "f \<in> set (tl (filter P fs))"
  shows "of_offset f = 0"
  using assms by (cases fs) (auto split: if_splits dest: in_set_tl)

lemma delete_fst_subset: "set (map fst (AList.delete k xs)) \<subseteq> set (map fst xs)"
  by (auto simp: AList.delete_eq)

lemma distinct_keys_delete: "distinct (map fst xs) \<Longrightarrow> distinct (map fst (AList.delete k xs))"
  by (rule distinct_delete)

lemma lifecycle_inv_finish_all:
  "lifecycle_inv l \<Longrightarrow> lifecycle_inv (foldl (\<lambda>l (c, _). lifecycle_finish c l) l qs)"
  by (induction qs arbitrary: l) (auto simp: lifecycle_inv_finish)

lemmas driver_inv_defs = driver_inv_def queued_bytes_def

lemma driver_inv_written:
  assumes inv: "driver_inv s" and out: "cn_outbound s = f # rest"
    and n: "0 < n" "n \<le> length (of_bytes f) - of_offset f"
  shows "driver_inv (advance_front rt f rest n (s\<lparr>cn_stream := w\<rparr>))"
proof -
  have "\<forall>g \<in> set (tl rest). of_offset g = 0"
    using inv out by (auto simp: driver_inv_def dest: in_set_tl)
  moreover have "of_offset f < length (of_bytes f)" using inv out by (simp add: driver_inv_def)
  ultimately show ?thesis
    using inv out n by (auto simp: driver_inv_defs advance_front_def conn_now_def Let_def split: prod.splits)
qed

lemma driver_inv_drop_unsent: "driver_inv s \<Longrightarrow> driver_inv (drop_unsent corr s)"
  using sum_list_filter_split [of "length \<circ> of_bytes" "unsent_of corr" "cn_outbound s"]
  by (auto simp: driver_inv_defs drop_unsent_def foldl_minus comp_def dest: tl_filter_unsent [rotated])

lemma driver_inv_fail_pending: "driver_inv s \<Longrightarrow> driver_inv (fail_pending s)"
  by (simp add: driver_inv_defs fail_pending_def Let_def sends_def lifecycle_inv_finish_all)

lemma driver_inv_enqueue:
  assumes "driver_inv s" "encoded bs" "c = None \<or> a = Act_None" "enqueue_with_action bs a c s = (Ok (), s')"
  shows "driver_inv s'"
proof -
  have len: "length bs \<le> cn_peer_max_packet_size s" and s': "s' = s\<lparr>cn_outbound_bytes := cn_outbound_bytes s + length bs,
      cn_outbound := cn_outbound s @ [\<lparr>of_bytes = bs, of_offset = 0, of_action = a, of_request_correlation = c\<rparr>]\<rparr>"
    and "cn_outbound_bytes s + length bs \<le> cn_max_outbound_queue_bytes s"
    using assms(4) by (auto simp: enqueue_with_action_def split: if_splits option.splits dest: checked_add_SomeD)
  moreover have "control_frame bs" using assms(1,2) len by (auto simp: encoded_def driver_inv_def)
  ultimately show ?thesis
    using assms(1,3) control_frame_nonempty [of bs] by (cases "cn_outbound s") (auto simp: driver_inv_defs)
qed

lemma driver_inv_acks:
  assumes "driver_inv s"
  shows "driver_inv (remove_pending_ack i s)"
    "driver_inv (s\<lparr>cn_pending_acks := AList.map_entry i g (cn_pending_acks s)\<rparr>)"
    "driver_inv (entomb_cancelled is_closed s)"
    "length (cn_pending_acks s) < cn_max_pending_operations s \<Longrightarrow> i \<noteq> 0 \<Longrightarrow>
       driver_inv (s\<lparr>cn_pending_acks := AList.update i a (cn_pending_acks s)\<rparr>)"
  using assms delete_fst_subset [of i "cn_pending_acks s"]
    length_AList_delete [of i "cn_pending_acks s"] length_AList_update [of i a "cn_pending_acks s"]
  by (auto simp: driver_inv_defs remove_pending_ack_def entomb_cancelled_def distinct_keys_delete
      distinct_update dom_update split_def comp_def image_image)

lemma driver_inv_frames:
  assumes "driver_inv s"
  shows "driver_inv (s\<lparr>cn_frame_reader := snd (try_decode (cn_frame_reader s))\<rparr>)"
    "length bs \<le> remaining_capacity (cn_frame_reader s) \<Longrightarrow>
       driver_inv (s\<lparr>cn_frame_reader := frame_push (cn_frame_reader s) bs\<rparr>)"
  using assms try_decode_result(2) [of "cn_frame_reader s"] frame_push_fits(1) [of "cn_frame_reader s" bs]
  by (auto simp: driver_inv_defs)

lemma driver_inv_flags:
  assumes "driver_inv s"
  shows "driver_inv (s\<lparr>cn_stream := w\<rparr>)" "driver_inv (sends rs s)" "driver_inv (s\<lparr>cn_closing := b\<rparr>)"
    "driver_inv (s\<lparr>cn_command_channel_closed := b\<rparr>)" "driver_inv (s\<lparr>cn_terminal_event_sent := b\<rparr>)"
    "driver_inv (s\<lparr>cn_ping_queued := b\<rparr>)" "driver_inv (s\<lparr>cn_ping_outstanding_since := p\<rparr>)"
    "driver_inv (s\<lparr>cn_needs_flush := b\<rparr>)" "driver_inv (bump_packet_id s)"
  using assms by (simp_all add: driver_inv_defs sends_def bump_packet_id_def Let_def)

lemma driver_inv_tables:
  assumes "driver_inv s"
  shows "driver_inv (finish_request_lifecycle corr s)"
    "driver_inv (s\<lparr>cn_request_lifecycle := snd (consume_cancellation corr (cn_request_lifecycle s))\<rparr>)"
    "driver_inv (take_request corr s)"
    "driver_inv (s\<lparr>cn_pending_requests := AList.map_entry corr g (cn_pending_requests s)\<rparr>)"
    "driver_inv (s\<lparr>cn_response_subscriptions := AList.update topic st (cn_response_subscriptions s)\<rparr>)"
    "driver_inv (s\<lparr>cn_response_subscriptions := AList.delete topic (cn_response_subscriptions s)\<rparr>)"
    "length (cn_pending_requests s) < cn_max_pending_operations s \<Longrightarrow>
       driver_inv (s\<lparr>cn_pending_requests := AList.update corr q (cn_pending_requests s)\<rparr>)"
  using assms length_AList_delete [of corr "cn_pending_requests s"]
    length_AList_update [of corr q "cn_pending_requests s"]
  by (simp_all add: driver_inv_defs finish_request_lifecycle_def take_request_def lifecycle_inv_finish
      lifecycle_inv_consume distinct_keys_delete distinct_update)

lemma driver_inv_flushed:
  "driver_inv s \<Longrightarrow> cn_flush_actions s = fl # fls \<Longrightarrow>
     driver_inv (s\<lparr>cn_flush_actions := fls, cn_outbound_bytes := cn_outbound_bytes s - pf_bytes fl\<rparr>)"
  by (simp add: driver_inv_defs)

lemma driver_inv_next_id: "driver_inv s \<Longrightarrow> cn_next_packet_id s \<noteq> 0"
  by (simp add: driver_inv_def)

lemma driver_inv_read:
  "transport_ok (rt_transport rt) \<Longrightarrow> driver_inv s \<Longrightarrow> tr_read (rt_transport rt) n w = (Ok bs, w') \<Longrightarrow>
     n \<le> remaining_capacity (cn_frame_reader s) \<Longrightarrow>
     driver_inv (s\<lparr>cn_frame_reader := frame_push (cn_frame_reader s) bs\<rparr>)"
  by (rule driver_inv_frames(2)) (auto simp: transport_ok_def dest: order_trans)

lemmas driver_inv_steps = driver_inv_flags driver_inv_tables driver_inv_acks driver_inv_frames(1)
  driver_inv_drop_unsent driver_inv_fail_pending driver_inv_flushed driver_inv_next_id

interpretation wf: driver_invariant rt "\<lambda>s. transport_ok (rt_transport rt) \<and> driver_inv s"
  driver_inv "\<lambda>_ _. True" for rt
proof (unfold_locales, goal_cases)
  case (7 s f rest n w)
  then show ?case using driver_inv_written [of s f rest n rt w] by simp
next
  case (25 s bs corr' action s')
  then show ?case using driver_inv_enqueue [of s bs corr' action s'] by simp
next
  case (41 s n w bs w')
  then show ?case using driver_inv_read [of rt s n w bs w'] by simp
qed (simp_all add: driver_inv_steps tombstone_publish_def)

end
