(* ===== verification/Async_Wire.thy ===== *)
theory Async_Wire
  imports Async_Invariant "HOL-Library.Sublist"
begin

text \<open>
  What a connection of the asynchronous driver keeps (its limits, and the answers it has given),
  and the framing of the bytes it writes: two interpretations of \<open>driver_invariant\<close>.
\<close>

section \<open>What a connection keeps\<close>

definition same_limits :: "'w MqttConnection \<Rightarrow> 'w MqttConnection \<Rightarrow> bool" where
  "same_limits s s' \<longleftrightarrow>
     cn_peer_max_packet_size s' = cn_peer_max_packet_size s
     \<and> cn_peer_receive_maximum s' = cn_peer_receive_maximum s
     \<and> cn_server_capabilities s' = cn_server_capabilities s
     \<and> cn_max_outbound_queue_bytes s' = cn_max_outbound_queue_bytes s
     \<and> cn_max_pending_operations s' = cn_max_pending_operations s
     \<and> cn_keep_alive_secs s' = cn_keep_alive_secs s
     \<and> cn_ack_timeout s' = cn_ack_timeout s
     \<and> prefix (cn_sent s) (cn_sent s')"

lemmas driver_defs = sends_def finish_request_lifecycle_def bump_packet_id_def remove_pending_ack_def
  entomb_cancelled_def tombstone_publish_def drop_unsent_def take_request_def fail_pending_def
  advance_front_def conn_now_def Let_def

lemma enqueue_with_action_Ok:
  "enqueue_with_action bs a c s = (Ok (), s') \<longleftrightarrow>
     length bs \<le> cn_peer_max_packet_size s \<and> cn_outbound_bytes s + length bs \<le> usize_max
     \<and> cn_outbound_bytes s + length bs \<le> cn_max_outbound_queue_bytes s
     \<and> s' = s\<lparr>cn_outbound_bytes := cn_outbound_bytes s + length bs,
          cn_outbound := cn_outbound s @ [\<lparr>of_bytes = bs, of_offset = 0, of_action = a,
            of_request_correlation = c\<rparr>]\<rparr>"
  by (auto simp: enqueue_with_action_def checked_add_def split: option.splits if_splits)

interpretation limits: driver_invariant rt
  "\<lambda>s. same_limits s0 s \<and> cn_next_packet_id s \<noteq> 0" "same_limits s0" "\<lambda>_ _. True" for rt s0
  by unfold_locales
    (auto simp: same_limits_def driver_defs enqueue_with_action_Ok split: prod.splits)

section \<open>The bytes on the wire\<close>

text \<open>
  \<open>wire\<close> reads off the world what the stream has accepted so far.  A write that reports \<open>n\<close> bytes has
  accepted the first \<open>n\<close>, a failed one none, and nothing else writes.
\<close>

definition wire_ok :: "'w Runtime \<Rightarrow> ('w \<Rightarrow> bytes) \<Rightarrow> bool" where
  "wire_ok rt wire \<longleftrightarrow>
     (\<forall>buf w n w'. tr_write (rt_transport rt) buf w = (Ok n, w') \<longrightarrow>
        n \<le> length buf \<and> wire w' = wire w @ take n buf)
     \<and> (\<forall>buf w e w'. tr_write (rt_transport rt) buf w = (Err e, w') \<longrightarrow> wire w' = wire w)
     \<and> (\<forall>w. wire (snd (tr_now (rt_transport rt) w)) = wire w)
     \<and> (\<forall>w. wire (snd (tr_flush (rt_transport rt) w)) = wire w)
     \<and> (\<forall>n w. wire (snd (tr_read (rt_transport rt) n w)) = wire w)
     \<and> (\<forall>w. wire (snd (tr_shutdown (rt_transport rt) w)) = wire w)
     \<and> (\<forall>ev w. wire (snd (rt_try_send_event rt ev w)) = wire w)
     \<and> (\<forall>w. wire (snd (rt_try_recv rt w)) = wire w)
     \<and> (\<forall>d w. wire (snd (rt_recv_timeout rt d w)) = wire w)"

definition started :: "'w MqttConnection \<Rightarrow> bytes" where
  "started s = (case cn_outbound s of [] \<Rightarrow> [] | f # _ \<Rightarrow> take (of_offset f) (of_bytes f))"

text \<open>Since the wire carried \<open>base\<close>: whole frames, then the written part of the front frame.\<close>

definition framed :: "('w \<Rightarrow> bytes) \<Rightarrow> bytes \<Rightarrow> 'w MqttConnection \<Rightarrow> bool" where
  "framed wire base s \<longleftrightarrow> (\<exists>frames. (\<forall>fr \<in> set frames. control_frame fr)
     \<and> wire (cn_stream s) = base @ concat frames @ started s)"

definition framed_or_cut :: "('w \<Rightarrow> bytes) \<Rightarrow> bytes \<Rightarrow> 'w MqttConnection \<Rightarrow> bool" where
  "framed_or_cut wire base s \<longleftrightarrow> (\<exists>frames last. (\<forall>fr \<in> set frames. control_frame fr)
     \<and> wire (cn_stream s) = base @ concat frames @ last
     \<and> (last = [] \<or> (\<exists>fr. control_frame fr \<and> prefix last fr)))"

lemma framed_cong:
  "started s' = started s \<Longrightarrow> wire (cn_stream s') = wire (cn_stream s) \<Longrightarrow>
     framed wire base s' \<longleftrightarrow> framed wire base s"
  by (simp add: framed_def)

lemma framed_written:
  assumes fr: "framed wire base s" and inv: "driver_inv s" and out: "cn_outbound s = f # rest"
    and w: "wire w = wire (cn_stream s) @ take n (drop (of_offset f) (of_bytes f))"
    and n: "0 < n" "n \<le> length (of_bytes f) - of_offset f"
    and now: "\<And>w. wire (snd (tr_now (rt_transport rt) w)) = wire w"
  shows "framed wire base (advance_front rt f rest n (s\<lparr>cn_stream := w\<rparr>))" (is "framed _ _ ?s'")
proof -
  from fr obtain frames where frames: "\<forall>fr \<in> set frames. control_frame fr"
    "wire (cn_stream s) = base @ concat frames @ take (of_offset f) (of_bytes f)"
    by (auto simp: framed_def started_def out)
  have f: "control_frame (of_bytes f)" "of_offset f < length (of_bytes f)" "\<forall>g \<in> set rest. of_offset g = 0"
    using inv out by (auto simp: driver_inv_def)
  have w': "wire (cn_stream ?s') = base @ concat frames @ take (of_offset f + n) (of_bytes f)"
    using now [of w] w frames(2)
    by (auto simp: advance_front_def conn_now_def Let_def take_add split: prod.splits)
  show ?thesis
  proof (cases "of_offset f + n = length (of_bytes f)")
    case True
    then have "started ?s' = []"
      using f(3) by (cases rest) (auto simp: started_def advance_front_def conn_now_def Let_def split: prod.splits)
    then show ?thesis
      unfolding framed_def using w' True frames(1) f(1)
      by (intro exI [of _ "frames @ [of_bytes f]"]) auto
  next
    case False
    then have "started ?s' = take (of_offset f + n) (of_bytes f)"
      by (auto simp: started_def advance_front_def conn_now_def Let_def split: prod.splits)
    then show ?thesis unfolding framed_def using w' frames(1) by auto
  qed
qed

lemma framed_framed_or_cut: "driver_inv s \<Longrightarrow> framed wire base s \<Longrightarrow> framed_or_cut wire base s"
  by (cases "cn_outbound s")
    (fastforce simp: framed_def framed_or_cut_def started_def driver_inv_def take_is_prefix)+

lemma started_drop_unsent:
  assumes "driver_inv s"
  shows "started (drop_unsent corr s) = started s"
proof (cases "cn_outbound s")
  case (Cons f rest)
  let ?rest = "filter (\<lambda>frame. \<not> unsent_of corr frame) rest"
  have kept: "take (of_offset g) (of_bytes g) = []" if "?rest = g # gs" for g gs
  proof -
    have "g \<in> set ?rest" unfolding that by simp
    then show ?thesis using assms Cons by (simp add: driver_inv_def)
  qed
  show ?thesis
  proof (cases "unsent_of corr f")
    case True
    then have "started s = []" by (simp add: started_def Cons unsent_of_def)
    moreover have "cn_outbound (drop_unsent corr s) = ?rest" using True by (simp add: drop_unsent_def Cons)
    then have "started (drop_unsent corr s) = []" by (cases ?rest) (simp_all only: started_def list.case kept)
    ultimately show ?thesis by simp
  qed (simp add: started_def drop_unsent_def Cons)
qed (simp add: started_def drop_unsent_def)

definition quiet_on :: "'w Runtime \<Rightarrow> ('w \<Rightarrow> bytes) \<Rightarrow> 'w \<Rightarrow> 'w \<Rightarrow> bool" where
  "quiet_on rt wire w w' \<longleftrightarrow> (wire_ok rt wire \<longrightarrow> wire w' = wire w)"

definition on_wire :: "'w Runtime \<Rightarrow> ('w \<Rightarrow> bytes) \<Rightarrow> bytes \<Rightarrow> 'w MqttConnection \<Rightarrow> bool" where
  "on_wire rt wire base s \<longleftrightarrow> transport_ok (rt_transport rt) \<and> wire_ok rt wire \<and> driver_inv s
     \<and> framed wire base s"

lemma wire_okD:
  assumes "wire_ok rt wire"
  shows "tr_write (rt_transport rt) buf w = (Ok n, w') \<Longrightarrow> n \<le> length buf \<and> wire w' = wire w @ take n buf"
    "tr_write (rt_transport rt) buf w = (Err e, w') \<Longrightarrow> wire w' = wire w"
    "wire (snd (tr_now (rt_transport rt) w)) = wire w"
  using assms by (auto simp: wire_ok_def)

lemma quiet_onI:
  "tr_now (rt_transport rt) w = (t, w') \<Longrightarrow> quiet_on rt wire w w'"
  "tr_flush (rt_transport rt) w = (r, w') \<Longrightarrow> quiet_on rt wire w w'"
  "tr_read (rt_transport rt) n w = (b, w') \<Longrightarrow> quiet_on rt wire w w'"
  "tr_shutdown (rt_transport rt) w = (r, w') \<Longrightarrow> quiet_on rt wire w w'"
  "rt_try_send_event rt ev w = (sr, w') \<Longrightarrow> quiet_on rt wire w w'"
  "rt_try_recv rt w = (rc, w') \<Longrightarrow> quiet_on rt wire w w'"
  "rt_recv_timeout rt d w = (rc, w') \<Longrightarrow> quiet_on rt wire w w'"
  by (auto simp: quiet_on_def wire_ok_def) (metis snd_conv)+

lemma on_wireI:
  assumes "on_wire rt wire base s" "driver_inv s'"
    and "started s' = started s" "wire (cn_stream s') = wire (cn_stream s)"
  shows "on_wire rt wire base s'"
  using assms framed_cong [of s' s wire base] by (simp add: on_wire_def)

lemma same_queue [simp]:
  "cn_outbound (sends rs s) = cn_outbound s" "cn_stream (sends rs s) = cn_stream s"
  "cn_outbound (bump_packet_id s) = cn_outbound s" "cn_stream (bump_packet_id s) = cn_stream s"
  "cn_outbound (finish_request_lifecycle c s) = cn_outbound s"
  "cn_stream (finish_request_lifecycle c s) = cn_stream s"
  "cn_outbound (remove_pending_ack i s) = cn_outbound s" "cn_stream (remove_pending_ack i s) = cn_stream s"
  "cn_outbound (entomb_cancelled cl s) = cn_outbound s" "cn_stream (entomb_cancelled cl s) = cn_stream s"
  "cn_outbound (tombstone_publish i s) = cn_outbound s" "cn_stream (tombstone_publish i s) = cn_stream s"
  "cn_outbound (take_request c s) = cn_outbound s" "cn_stream (take_request c s) = cn_stream s"
  "cn_stream (drop_unsent c s) = cn_stream s" "cn_stream (fail_pending s) = cn_stream s"
  by (simp_all add: driver_defs)

lemma driver_inv_tombstone: "driver_inv s \<Longrightarrow> driver_inv (tombstone_publish i s)"
  by (simp add: tombstone_publish_def driver_inv_steps)

interpretation wire: driver_invariant rt "on_wire rt wire base"
  "\<lambda>s. wire_ok rt wire \<and> framed_or_cut wire base s" "quiet_on rt wire" for rt wire base
proof (unfold_locales, goal_cases)
  case (7 s f rest n w)
  then show ?case
    using driver_inv_written [of s f rest n rt w] framed_written [of wire base s f rest w n rt]
      wire_okD [of rt wire]
    by (simp add: on_wire_def)
next
  case (8 s f rest wr w)
  have "wire w = wire (cn_stream s)"
  proof (cases wr)
    case (Inr n)
    then show ?thesis using 8 wire_okD(1) [of rt wire _ _ n w] by (fastforce simp: on_wire_def)
  qed (use 8 wire_okD(2) in \<open>auto simp: on_wire_def\<close>)
  then show ?case using 8(1) by (intro on_wireI [OF 8(1)]) (auto simp: on_wire_def driver_inv_steps started_def)
next
  case (25 s bs corr' action s')
  have "started s' = started s \<and> cn_stream s' = cn_stream s"
    using 25(4) by (auto simp: enqueue_with_action_Ok started_def split: list.splits)
  then show ?case
    using 25 driver_inv_enqueue [of s bs corr' action s'] by (intro on_wireI [OF 25(1)]) (auto simp: on_wire_def)
next
  case (27 s corr)
  then show ?case
    by (intro on_wireI [OF 27]) (simp_all add: on_wire_def driver_inv_steps started_drop_unsent)
next
  case (41 s n w bs w')
  then show ?case
    by (intro on_wireI [OF 41(1)]) (simp_all add: on_wire_def driver_inv_read [of rt s n w bs w'] started_def)
next
  case (34 s)
  then show ?case by (simp add: on_wire_def framed_framed_or_cut)
next
  case (36 s w)
  then show ?case by (simp add: quiet_on_def framed_or_cut_def)
qed (erule quiet_onI | simp add: on_wire_def driver_inv_steps driver_inv_tombstone framed_def started_def
    quiet_on_def framed_or_cut_def)+

end
