(* ===== verification/Async_Senders.thy ===== *)
theory Async_Senders
  imports Async_Wire "HOL-Library.Multiset"
begin

text \<open>
  Packet identifiers of the asynchronous driver, and the callers that wait for an answer: which
  oneshot senders the driver holds and which it has answered, and that no command's sender is
  lost.
\<close>

section \<open>Packet identifiers\<close>

definition succ_id :: "u16 \<Rightarrow> u16" where
  "succ_id i = (if i + 1 = 0 then 1 else i + 1)"

lemma bump_packet_id_eq: "bump_packet_id s = s\<lparr>cn_next_packet_id := succ_id (cn_next_packet_id s)\<rparr>"
  by (simp add: bump_packet_id_def succ_id_def Let_def)

lemma unat_succ_id: "i \<noteq> 0 \<Longrightarrow> unat (succ_id i) = unat i mod 65535 + 1"
proof -
  assume "i \<noteq> 0"
  then have "0 < unat i" by (simp add: unat_gt_0)
  moreover have "unat i < 65536" using unat_u16_bound [of i] by simp
  moreover have "unat (i + 1) = (unat i + 1) mod 65536" by (simp add: unat_word_ariths)
  ultimately show ?thesis
    by (cases "unat i = 65535") (auto simp: succ_id_def unat_eq_zero [symmetric])
qed

lemma succ_id_nonzero: "succ_id i \<noteq> 0"
  by (simp add: succ_id_def)

lemma unat_nth_id: "i \<noteq> 0 \<Longrightarrow> unat ((succ_id ^^ k) i) = (unat i - 1 + k) mod 65535 + 1"
proof (induction k)
  case 0
  then have "0 < unat i" "unat i < 65536" using unat_u16_bound [of i] by (auto simp: unat_gt_0)
  then show ?case by simp
next
  case (Suc k)
  have "(succ_id ^^ k) i \<noteq> 0" using Suc by (cases k) (auto simp: succ_id_nonzero)
  then show ?case using Suc by (simp add: unat_succ_id mod_Suc_eq)
qed

lemma every_id_tried:
  assumes "i \<noteq> 0" "j \<noteq> 0"
  shows "\<exists>k < 65535. (succ_id ^^ k) i = j"
proof -
  let ?k = "(unat j + 65535 - unat i) mod 65535"
  have bounds: "0 < unat i" "unat i < 65536" "0 < unat j" "unat j < 65536"
    using assms unat_u16_bound [of i] unat_u16_bound [of j] by (auto simp: unat_gt_0)
  have "(unat i - 1 + ?k) mod 65535 = (unat i - 1 + (unat j + 65535 - unat i)) mod 65535"
    by (simp add: mod_add_right_eq)
  also have "unat i - 1 + (unat j + 65535 - unat i) = (unat j - 1) + 65535" using bounds by simp
  also have "((unat j - 1) + 65535) mod 65535 = unat j - 1" using bounds by (simp only: mod_add_self2) simp
  finally have "unat ((succ_id ^^ ?k) i) = unat j" using bounds(3) by (simp add: unat_nth_id [OF assms(1)])
  then show ?thesis by (intro exI [of _ ?k]) (simp add: unsigned_word_eqI)
qed

text \<open>The identifiers the loop looks at, and what it returns.\<close>

lemma reserve_loop_spec:
  "reserve_loop n s = (r, s') \<Longrightarrow>
     (\<forall>i. r = Ok i \<longrightarrow> (\<exists>k < n. i = (succ_id ^^ k) (cn_next_packet_id s)) \<and> map_of (cn_pending_acks s) i = None)
     \<and> (\<forall>e. r = Err e \<longrightarrow> e = QueueFull ''packet identifiers''
          \<and> (\<forall>k < n. map_of (cn_pending_acks s) ((succ_id ^^ k) (cn_next_packet_id s)) \<noteq> None))
     \<and> s' = s\<lparr>cn_next_packet_id := cn_next_packet_id s'\<rparr>
     \<and> (cn_next_packet_id s \<noteq> 0 \<longrightarrow> cn_next_packet_id s' \<noteq> 0)"
proof (induction n arbitrary: s)
  case (Suc n)
  let ?s = "bump_packet_id s"
  show ?case
  proof (cases "map_of (cn_pending_acks s) (cn_next_packet_id s)")
    case None
    with Suc.prems have "r = Ok (cn_next_packet_id s)" "s' = ?s"
      by (auto simp: bump_packet_id_eq Let_def)
    with None show ?thesis
      by (auto simp: bump_packet_id_eq succ_id_nonzero intro!: exI [of _ 0])
  next
    case (Some a)
    with Suc.prems have "reserve_loop n ?s = (r, s')" by (simp add: bump_packet_id_eq Let_def)
    have shift: "(succ_id ^^ k) (succ_id (cn_next_packet_id s)) = (succ_id ^^ Suc k) (cn_next_packet_id s)" for k
      by (simp add: funpow_swap1)
    have later: "\<exists>k' < Suc n. (succ_id ^^ Suc k) c = (succ_id ^^ k') c" if "k < n" for k c
      using that by (intro exI [of _ "Suc k"]) simp
    from Suc.IH [OF \<open>reserve_loop n ?s = (r, s')\<close>] Some show ?thesis
      by (auto simp: bump_packet_id_eq succ_id_nonzero shift less_Suc_eq_0_disj [of _ n, symmetric]
          simp del: funpow.simps(2) intro: later)
        (auto simp: less_Suc_eq_0_disj simp del: funpow.simps(2))
  qed
qed auto

lemma reserve_packet_id_spec:
  assumes "cn_next_packet_id s \<noteq> 0" "reserve_packet_id s = (r, s')"
  shows "r = Ok i \<Longrightarrow> i \<noteq> 0 \<and> map_of (cn_pending_acks s) i = None"
    and "r = Err e \<Longrightarrow> e = QueueFull ''packet identifiers'' \<and> (\<forall>i. i \<noteq> 0 \<longrightarrow> map_of (cn_pending_acks s) i \<noteq> None)"
    and "s' = s\<lparr>cn_next_packet_id := cn_next_packet_id s'\<rparr>" "cn_next_packet_id s' \<noteq> 0"
proof -
  note spec = reserve_loop_spec [OF assms(2) [unfolded reserve_packet_id_def]]
  have nz: "(succ_id ^^ k) (cn_next_packet_id s) \<noteq> 0" for k
    using assms(1) by (cases k) (auto simp: succ_id_nonzero)
  show "r = Ok i \<Longrightarrow> i \<noteq> 0 \<and> map_of (cn_pending_acks s) i = None" using spec nz by auto
  show "r = Err e \<Longrightarrow> e = QueueFull ''packet identifiers'' \<and> (\<forall>i. i \<noteq> 0 \<longrightarrow> map_of (cn_pending_acks s) i \<noteq> None)"
    using spec every_id_tried [OF assms(1)] by metis
  show "s' = s\<lparr>cn_next_packet_id := cn_next_packet_id s'\<rparr>" "cn_next_packet_id s' \<noteq> 0"
    using spec assms(1) by auto
qed

lemma free_id_exists:
  assumes "length (cn_pending_acks s) < 65535"
  shows "\<exists>i. i \<noteq> 0 \<and> map_of (cn_pending_acks s) i = None"
proof (rule ccontr)
  assume none: "\<not> ?thesis"
  have "(UNIV :: u16 set) - {0} \<subseteq> set (map fst (cn_pending_acks s))"
  proof
    fix i :: u16
    assume "i \<in> UNIV - {0}"
    with none have "map_of (cn_pending_acks s) i \<noteq> None" by auto
    then show "i \<in> set (map fst (cn_pending_acks s))" by (simp add: map_of_eq_None_iff)
  qed
  from card_mono [OF finite_set this] have "card ((UNIV :: u16 set) - {0}) \<le> length (cn_pending_acks s)"
    using card_length [of "map fst (cn_pending_acks s)"] by simp
  then show False using assms by (simp add: card_Diff_singleton card_word)
qed

section \<open>Who waits for an answer\<close>

text \<open>
  The oneshot senders the driver holds, and those it has answered, both with multiplicity.
\<close>

fun action_senders :: "WrittenAction \<Rightarrow> sender list" where
  "action_senders (Act_PublishQos0 result) = [result]"
| "action_senders (Act_Disconnect result) = [result]"
| "action_senders _ = []"

fun kind_senders :: "PendingAckKind \<Rightarrow> sender list" where
  "kind_senders (Ack_Publish result) = [result]"
| "kind_senders (Ack_Subscribe _ result) = [result]"
| "kind_senders (Ack_Unsubscribe _ result) = [result]"
| "kind_senders _ = []"

fun command_sender :: "Command \<Rightarrow> sender" where
  "command_sender (Cmd_Publish _ _ _ result) = result"
| "command_sender (Cmd_Subscribe _ _ result) = result"
| "command_sender (Cmd_Unsubscribe _ result) = result"
| "command_sender (Cmd_Disconnect result) = result"
| "command_sender (Cmd_Request _ result) = result"

definition held :: "'w MqttConnection \<Rightarrow> sender multiset" where
  "held s = mset (concat (map (kind_senders \<circ> pk_kind \<circ> snd) (cn_pending_acks s)))
     + mset (concat (map (action_senders \<circ> of_action) (cn_outbound s)))
     + mset (concat (map (action_senders \<circ> pf_action) (cn_flush_actions s)))
     + mset (map (pr_result \<circ> snd) (cn_pending_requests s))"

definition answered :: "'w MqttConnection \<Rightarrow> sender multiset" where
  "answered s = mset (map fst (cn_sent s))"

definition accounted :: "'w MqttConnection \<Rightarrow> sender multiset" where
  "accounted s = held s + answered s"

lemma kind_fail_senders [simp]: "map fst (kind_fail k e) = kind_senders k"
  by (cases k) simp_all

lemma action_fail_senders [simp]: "map fst (WrittenAction_fail a e) = action_senders a"
  by (cases a) simp_all

lemma command_fail_senders [simp]: "map fst (Command_fail c e) = [command_sender c]"
  by (cases c) simp_all

lemma update_new: "map_of xs k = None \<Longrightarrow> AList.update k v xs = xs @ [(k, v)]"
  by (induction xs) (auto split: if_splits)

lemma delete_new: "map_of xs k = None \<Longrightarrow> AList.delete k (xs @ [(k, v)]) = xs"
  by (induction xs) (auto simp: AList.delete_eq split: if_splits)

lemma accounted_sends [simp]: "accounted (sends rs s) = accounted s + mset (map fst rs)"
  by (simp add: accounted_def held_def answered_def sends_def)

lemma accounted_next_id [simp]: "accounted (s\<lparr>cn_next_packet_id := i\<rparr>) = accounted s"
  "accounted (s\<lparr>cn_stream := w\<rparr>) = accounted s" "accounted (s\<lparr>cn_closing := b\<rparr>) = accounted s"
  "accounted (s\<lparr>cn_request_lifecycle := l\<rparr>) = accounted s"
  "accounted (s\<lparr>cn_response_subscriptions := x\<rparr>) = accounted s"
  "accounted (s\<lparr>cn_terminal_event_sent := b\<rparr>) = accounted s"
  "accounted (s\<lparr>cn_needs_flush := b\<rparr>) = accounted s"
  by (simp_all add: accounted_def held_def answered_def)

lemma accounted_reserve: "reserve_packet_id s = (r, s') \<Longrightarrow> accounted s' = accounted s"
  using reserve_loop_spec [of 65535 s r s'] accounted_next_id(1) [of "cn_next_packet_id s'" s]
  by (auto simp: reserve_packet_id_def)

lemma accounted_now: "conn_now rt s = (t, s') \<Longrightarrow> accounted s' = accounted s"
  by (auto simp: conn_now_def split: prod.splits)

lemma accounted_enqueue:
  "enqueue_with_action bs a c s = (r, s') \<Longrightarrow>
     accounted s' = (case r of Inl _ \<Rightarrow> accounted s | Inr _ \<Rightarrow> accounted s + mset (action_senders a))
     \<and> (\<forall>x. r = Inl x \<longrightarrow> snd x = a \<and> s' = s) \<and> cn_pending_acks s' = cn_pending_acks s"
  by (auto simp: enqueue_with_action_def accounted_def held_def answered_def split: if_splits option.splits)

lemma insert_pending_ack_new:
  assumes "insert_pending_ack rt i k label s = Some (r, s')" "map_of (cn_pending_acks s) i = None"
  shows "case r of Inl x \<Rightarrow> snd x = k \<and> s' = s
    | Inr _ \<Rightarrow> (\<exists>d w. s' = s\<lparr>cn_stream := w, cn_pending_acks := cn_pending_acks s
        @ [(i, \<lparr>pk_deadline = d, pk_timeout_label = label, pk_kind = k\<rparr>)]\<rparr>)"
  using assms by (auto simp: insert_pending_ack_def conn_now_def Let_def update_new
      split: if_splits option.splits prod.splits intro!: exI)

lemma accounted_insert:
  "accounted (s\<lparr>cn_stream := w, cn_pending_acks := cn_pending_acks s @ [(i, a)]\<rparr>)
     = accounted s + mset (kind_senders (pk_kind a))"
  by (simp add: accounted_def held_def answered_def)

lemma accounted_await_ack:
  assumes "await_ack rt i k label bs s = Some (r, s')" "map_of (cn_pending_acks s) i = None"
  shows "accounted s' = accounted s + mset (kind_senders k)"
proof -
  from assms(1) obtain x s1 where x: "insert_pending_ack rt i k label s = Some (x, s1)"
    by (auto simp: await_ack_def bind_eq_Some_conv)
  note new = insert_pending_ack_new [OF x assms(2)]
  show ?thesis
  proof (cases x)
    case (Inl p)
    then show ?thesis using assms(1) x new by (cases p) (auto simp: await_ack_def)
  next
    case (Inr u)
    with new obtain d w where "s1 = s\<lparr>cn_stream := w, cn_pending_acks := cn_pending_acks s
        @ [(i, \<lparr>pk_deadline = d, pk_timeout_label = label, pk_kind = k\<rparr>)]\<rparr>" by auto
    then obtain a where a: "pk_kind a = k"
      "s1 = s\<lparr>cn_stream := w, cn_pending_acks := cn_pending_acks s @ [(i, a)]\<rparr>" by (metis PendingAck.select_convs(3))
    have undo: "remove_pending_ack i s1 = s\<lparr>cn_stream := w\<rparr>" "map_of (cn_pending_acks s1) i = Some a"
      using assms(2) by (auto simp: a remove_pending_ack_def delete_new map_add_def)
    obtain q s2 where q: "enqueue_with_action bs Act_None None s1 = (q, s2)" by force
    have acc: "accounted s1 = accounted s + mset (kind_senders k)" by (simp add: a accounted_insert)
    from accounted_enqueue [OF q] show ?thesis
      using assms(1) x Inr q a(1) undo acc
      by (cases q) (auto simp: await_ack_def enqueue_def pending_fail_def)
  qed
qed

lemma reserved_is_free:
  assumes "cn_next_packet_id s \<noteq> 0" "reserve_packet_id s = (Ok i, s')"
  shows "map_of (cn_pending_acks s') i = None"
  using reserve_packet_id_spec(1) [OF assms] arg_cong [OF reserve_packet_id_spec(3) [OF assms], of cn_pending_acks]
  by simp

lemma publish_id_is_free:
  assumes "cn_next_packet_id s \<noteq> 0" "publish_id qos s = (x, s')"
  shows "accounted s' = accounted s" "x = Ok (Some i) \<Longrightarrow> map_of (cn_pending_acks s') i = None"
  using assms by (auto simp: publish_id_def accounted_reserve reserved_is_free split: if_splits prod.splits sum.splits)

lemma accounted_begin_publish:
  assumes "cn_next_packet_id s \<noteq> 0" "begin_publish rt topic payload opts result s = Some (r, s')"
  shows "accounted s' = accounted s + {#result#}"
proof -
  obtain x s1 where x: "publish_id (po_qos opts) s = (x, s1)" by force
  note s1 = publish_id_is_free [OF assms(1) x]
  have e: "accounted (case y of Inl p \<Rightarrow> sends (WrittenAction_fail (snd p) (fst p)) s2 | Inr _ \<Rightarrow> s2) = accounted s + {#result#}"
    if "enqueue_with_action bs (Act_PublishQos0 result) None s1 = (y, s2)" for bs y s2
    using accounted_enqueue [OF that] s1 by (cases y) auto
  have a: "accounted s2 = accounted s + {#result#}"
    if "x = Ok (Some i)" "await_ack rt i (Ack_Publish result) label bs s1 = Some (y, s2)" for i label bs y s2
    using accounted_await_ack [OF that(2)] s1 that(1) by simp
  from assms(2) x s1(1) show ?thesis
    by (auto simp: begin_publish_def split: sum.splits option.splits if_splits prod.splits dest: e a)
qed

lemma accounted_begin_subscribe:
  assumes "cn_next_packet_id s \<noteq> 0" "begin_subscribe rt flt qos result s = Some (r, s')"
  shows "accounted s' = accounted s + {#result#}"
proof -
  obtain x s1 where x: "reserve_packet_id s = (x, s1)" by force
  have a: "accounted s2 = accounted s + {#result#}"
    if "x = Ok i" "await_ack rt i (Ack_Subscribe qos result) label bs s1 = Some (y, s2)" for i label bs y s2
    using accounted_await_ack [OF that(2)] accounted_reserve [OF x] reserved_is_free [OF assms(1)] x that(1) by simp
  from assms(2) x accounted_reserve [OF x] show ?thesis
    by (auto simp: begin_subscribe_def split: sum.splits dest: a)
qed

lemma accounted_begin_unsubscribe:
  assumes "cn_next_packet_id s \<noteq> 0" "begin_unsubscribe rt flt result s = Some (r, s')"
  shows "accounted s' = accounted s + {#result#}"
proof -
  obtain x s1 where x: "reserve_packet_id s = (x, s1)" by force
  have a: "accounted s2 = accounted s + {#result#}"
    if "x = Ok i" "await_ack rt i (Ack_Unsubscribe flt result) label bs s1 = Some (y, s2)" for i label bs y s2
    using accounted_await_ack [OF that(2)] accounted_reserve [OF x] reserved_is_free [OF assms(1)] x that(1) by simp
  from assms(2) x accounted_reserve [OF x] show ?thesis
    by (auto simp: begin_unsubscribe_def split: sum.splits dest: a)
qed

lemma disconnect_encodes: "DisconnectPacket_encode \<lparr>dc_reason_code = 0\<rparr> = Ok [0xE0, 0]"
  by (simp add: DisconnectPacket_encode_def is_disconnect_reason_code_def eval_defs encode_fixed_header_def)

lemma accounted_begin_disconnect:
  assumes "begin_disconnect result s = Some (r, s')"
  shows "accounted s' = accounted s + {#result#}"
proof -
  obtain y s2 where y: "enqueue_with_action [0xE0, 0] (Act_Disconnect result) None (s\<lparr>cn_closing := True\<rparr>) = (y, s2)"
    by force
  from assms y accounted_enqueue [OF y] show ?thesis
    by (cases y) (auto simp: begin_disconnect_def andM_def updM_def returns_def disconnect_encodes)
qed

subsection \<open>Requests\<close>

lemma mset_delete_key:
  "distinct (map fst xs) \<Longrightarrow> map_of xs k = Some v \<Longrightarrow>
     mset (map (f \<circ> snd) (AList.delete k xs)) + {#f v#} = mset (map (f \<circ> snd) xs)"
proof (induction xs)
  case (Cons x xs)
  then show ?case
    by (cases "fst x = k") (auto simp: delete_id)
qed simp

lemma map_entry_results:
  "(\<And>p. f (g p) = f p) \<Longrightarrow> map (f \<circ> snd) (AList.map_entry k g xs) = map (f \<circ> snd) xs"
  by (induction xs) auto

lemma accounted_drop_unsent:
  assumes "driver_inv s"
  shows "accounted (drop_unsent corr s) = accounted s"
proof -
  have silent: "action_senders (of_action f) = []" if "f \<in> set (cn_outbound s)" "unsent_of corr f" for f
    using assms that by (auto simp: driver_inv_def unsent_of_def)
  have "(\<forall>f \<in> set fs. P f \<longrightarrow> h f = []) \<Longrightarrow> concat (map h (filter (\<lambda>f. \<not> P f) fs)) = concat (map h fs)"
    for P and h :: "OutboundFrame \<Rightarrow> sender list" and fs
    by (induction fs) auto
  from this [of "cn_outbound s" "unsent_of corr" "action_senders \<circ> of_action"] silent show ?thesis
    by (simp add: accounted_def held_def answered_def drop_unsent_def)
qed

lemma accounted_take_request:
  assumes "driver_inv s" "map_of (cn_pending_requests s) corr = Some p"
  shows "accounted (take_request corr s) + {#pr_result p#} = accounted s"
  using mset_delete_key [of "cn_pending_requests s" corr p pr_result] assms
  by (simp add: accounted_def held_def answered_def take_request_def driver_inv_def)

text \<open>Removing a request that has no packet identifier lets go of its own sender and of no other.\<close>

lemma accounted_remove_request:
  assumes "driver_inv s" "map_of (cn_pending_requests s) corr = Some p" "pr_publish_packet_id p = None"
    and "remove_request corr s = (r, s')"
  shows "r = Some p" "accounted s' + {#pr_result p#} = accounted s"
proof -
  let ?s = "finish_request_lifecycle corr (take_request corr s)"
  have "accounted (drop_unsent corr ?s) = accounted ?s"
    by (rule accounted_drop_unsent) (simp add: driver_inv_steps assms(1))
  then show "r = Some p" "accounted s' + {#pr_result p#} = accounted s"
    using assms accounted_take_request [OF assms(1,2)]
    by (auto simp: remove_request_def Let_def finish_request_lifecycle_def)
qed

lemma accounted_fail_request:
  assumes "driver_inv s" "map_of (cn_pending_requests s) corr = Some p" "pr_publish_packet_id p = None"
  shows "accounted (fail_request corr e s) = accounted s"
proof -
  obtain r s' where r: "remove_request corr s = (r, s')" by force
  from accounted_remove_request [OF assms r] r show ?thesis by (simp add: fail_request_def)
qed

lemma insertM_SomeE:
  assumes "insertM rt i k label s = Some (y, s')"
  obtains z where "insert_pending_ack rt i k label s = Some (z, s')" "is_ok y = is_ok z"
proof (cases "insert_pending_ack rt i k label s")
  case (Some p)
  then show thesis using assms that [of "fst p"] by (cases p; cases "fst p") (auto simp: insertM_def)
qed (use assms in \<open>simp add: insertM_def\<close>)

lemma accounted_insertM:
  assumes "insertM rt i k label s = Some (y, s')" "map_of (cn_pending_acks s) i = None" "kind_senders k = []"
  shows "accounted s' = accounted s" "cn_pending_requests s' = cn_pending_requests s"
    "is_ok y \<Longrightarrow> accounted (remove_pending_ack i s') = accounted s"
proof -
  from assms(1) obtain z where z: "insert_pending_ack rt i k label s = Some (z, s')" "is_ok y = is_ok z"
    by (rule insertM_SomeE)
  note new = insert_pending_ack_new [OF z(1) assms(2)]
  show "accounted s' = accounted s" "cn_pending_requests s' = cn_pending_requests s"
    "is_ok y \<Longrightarrow> accounted (remove_pending_ack i s') = accounted s"
    using new z(2) assms(2,3)
    by (auto simp: accounted_insert remove_pending_ack_def delete_new is_ok_def split: sum.splits)
qed

lemma accounted_enqueue_silent:
  "enqueue bs Act_None c s = (y, s') \<Longrightarrow>
     accounted s' = accounted s \<and> cn_pending_requests s' = cn_pending_requests s \<and> (\<forall>e. y = Err e \<longrightarrow> s' = s)"
  by (auto simp: enqueue_def enqueue_with_action_def accounted_def held_def answered_def
      split: if_splits option.splits prod.splits sum.splits)

lemma accounted_queue_request:
  assumes "\<And>i. pid = Some i \<Longrightarrow> map_of (cn_pending_acks s) i = None"
    and "queue_request rt corr pid bs s = Some (r, s')"
  shows "accounted s' = accounted s" "r = Err e \<Longrightarrow> cn_pending_requests s' = cn_pending_requests s"
proof -
  have mark: "accounted (t\<lparr>cn_pending_requests := AList.map_entry corr
     (\<lambda>p. p\<lparr>pr_published := True, pr_publish_packet_id := pid\<rparr>) qs\<rparr>) = accounted t"
    if "cn_pending_requests t = qs" for t :: "'a MqttConnection" and qs
    using that [symmetric] by (simp add: accounted_def held_def answered_def map_entry_results)
  note enq = accounted_enqueue_silent
  show "accounted s' = accounted s" "r = Err e \<Longrightarrow> cn_pending_requests s' = cn_pending_requests s"
  proof (atomize (full), cases pid)
    case None
    obtain y s2 where y: "enqueue bs Act_None (Some corr) s = (y, s2)" by force
    with assms(2) None enq [OF y]
    show "accounted s' = accounted s \<and> (r = Err e \<longrightarrow> cn_pending_requests s' = cn_pending_requests s)"
      by (cases y) (auto simp: queue_request_def andM_def returns_def mark [unfolded None])
  next
    case (Some i)
    from assms(2) Some obtain x s1 where x: "insert_pending_ack rt i (Ack_RequestPublish corr)
        ''request publish acknowledgement'' s = Some (x, s1)"
      by (auto simp: queue_request_def andM_def insertM_def bind_eq_Some_conv)
    note new = insert_pending_ack_new [OF x assms(1) [OF Some]]
    show "accounted s' = accounted s \<and> (r = Err e \<longrightarrow> cn_pending_requests s' = cn_pending_requests s)"
    proof (cases x)
      case (Inl p)
      then show ?thesis using assms(2) Some x new
        by (cases p) (auto simp: queue_request_def andM_def insertM_def)
    next
      case (Inr u)
      with new obtain d w where s1: "s1 = s\<lparr>cn_stream := w, cn_pending_acks := cn_pending_acks s
        @ [(i, \<lparr>pk_deadline = d, pk_timeout_label = ''request publish acknowledgement'',
              pk_kind = Ack_RequestPublish corr\<rparr>)]\<rparr>" by auto
      then have "accounted s1 = accounted s" "cn_pending_requests s1 = cn_pending_requests s"
        "accounted (remove_pending_ack i s1) = accounted s"
        "cn_pending_requests (remove_pending_ack i s1) = cn_pending_requests s"
        using assms(1) [OF Some] by (simp_all add: accounted_insert remove_pending_ack_def delete_new)
      moreover obtain y s2 where y: "enqueue bs Act_None (Some corr) s1 = (y, s2)" by force
      ultimately show ?thesis
        using assms(2) Some x Inr enq [OF y]
        by (cases y) (auto simp: queue_request_def andM_def insertM_def mark [unfolded Some])
    qed
  qed
qed

lemma accounted_publish_request:
  assumes "cn_next_packet_id s \<noteq> 0" "publish_request rt corr s = Some (r, s')"
  shows "accounted s' = accounted s" "r = Err e \<Longrightarrow> cn_pending_requests s' = cn_pending_requests s"
proof -
  have "accounted s' = accounted s \<and> (\<forall>e. r = Err e \<longrightarrow> cn_pending_requests s' = cn_pending_requests s)"
  proof (cases "map_of (cn_pending_requests s) corr")
    case (Some q)
    obtain x s1 where x: "publish_id (pr_qos q) s = (x, s1)" by force
    note s1 = publish_id_is_free [OF assms(1) x]
    have same: "cn_pending_requests s1 = cn_pending_requests s"
      using x reserve_packet_id_spec(3) [OF assms(1)]
      by (auto simp: publish_id_def split: if_splits prod.splits sum.splits dest: arg_cong [of _ _ cn_pending_requests])
    have q: "accounted s2 = accounted s \<and> (\<forall>e. y = Err e \<longrightarrow> cn_pending_requests s2 = cn_pending_requests s)"
      if "x = Ok pid" "queue_request rt corr pid bs s1 = Some (y, s2)" for pid bs y s2
      using accounted_queue_request [OF _ that(2)] s1 that(1) same by auto
    from assms(2) Some x s1(1) same q show ?thesis
      by (auto simp: publish_request_def andM_Some pureM_def returns_def split: if_splits)
  qed (use assms(2) in \<open>simp add: publish_request_def\<close>)
  then show "accounted s' = accounted s" "r = Err e \<Longrightarrow> cn_pending_requests s' = cn_pending_requests s" by auto
qed

lemma subscribe_for_responses_cases:
  assumes "subscribe_for_responses rt topic s = Some (r, s')" "reserve_packet_id s = (x, s1)"
  obtains (refused) "s' = s1"
    | (inserted) i y s2 where "x = Ok i" "insertM rt i (Ack_ResponseSubscribe topic)
        ''request subscription acknowledgement'' s1 = Some (y, s2)" "s' = s2" "\<not> is_ok y"
    | (queued) i bs s2 q s3 where "x = Ok i" "insertM rt i (Ack_ResponseSubscribe topic)
        ''request subscription acknowledgement'' s1 = Some (Ok (), s2)"
      "enqueue bs Act_None None (s2\<lparr>cn_response_subscriptions :=
          AList.update topic Subscribing (cn_response_subscriptions s2)\<rparr>) = (q, s3)"
      "s' = (case q of Inl _ \<Rightarrow> (remove_pending_ack i s3)
          \<lparr>cn_response_subscriptions := AList.delete topic (cn_response_subscriptions s3)\<rparr> | Inr _ \<Rightarrow> s3)"
proof (cases x)
  case (Inl e)
  then show thesis
    using assms refused by (auto simp: subscribe_for_responses_def andM_def pureM_def)
next
  case (Inr i)
  let ?p = "\<lparr>sub_packet_id = i, sub_filters = [(topic, AtLeastOnce)], sub_properties = Properties_new\<rparr>"
  show thesis
  proof (cases "SubscribePacket_encode ?p")
    case (Inl e)
    then show thesis
      using assms Inr refused by (auto simp: subscribe_for_responses_def andM_def pureM_def returns_def)
  next
    case (Inr bs)
    from assms \<open>x = Ok i\<close> Inr obtain y s2 where y: "insertM rt i (Ack_ResponseSubscribe topic)
        ''request subscription acknowledgement'' s1 = Some (y, s2)"
      by (auto simp: subscribe_for_responses_def andM_def pureM_def returns_def bind_eq_Some_conv)
    obtain q s3 where q: "enqueue bs Act_None None (s2\<lparr>cn_response_subscriptions :=
          AList.update topic Subscribing (cn_response_subscriptions s2)\<rparr>) = (q, s3)" by force
    show thesis
    proof (cases y)
      case (Inl e)
      then show thesis using assms \<open>x = Ok i\<close> Inr y inserted
        by (auto simp: subscribe_for_responses_def andM_def pureM_def returns_def)
    next
      case (Inr u)
      then show thesis
        using assms \<open>x = Ok i\<close> \<open>SubscribePacket_encode ?p = Ok bs\<close> y q queued
        by (cases q) (auto simp: subscribe_for_responses_def andM_def pureM_def returns_def Let_def)
    qed
  qed
qed

lemma accounted_subscribe_for_responses:
  assumes "cn_next_packet_id s \<noteq> 0" "subscribe_for_responses rt topic s = Some (r, s')"
  shows "accounted s' = accounted s \<and> cn_pending_requests s' = cn_pending_requests s"
proof -
  obtain x s1 where x: "reserve_packet_id s = (x, s1)" by force
  have s1: "accounted s1 = accounted s" "cn_pending_requests s1 = cn_pending_requests s"
    using accounted_reserve [OF x] arg_cong [OF reserve_packet_id_spec(3) [OF assms(1) x], of cn_pending_requests] by auto
  note free = reserved_is_free [OF assms(1)]
  from assms(2) x show ?thesis
  proof (cases rule: subscribe_for_responses_cases)
    case refused
    then show ?thesis using s1 by simp
  next
    case (inserted i y s2)
    then show ?thesis using accounted_insertM(1,2) [OF inserted(2)] free x s1 by simp
  next
    case (queued i bs s2 q s3)
    have "map_of (cn_pending_acks s1) i = None" using free x queued(1) by simp
    from accounted_insertM [OF queued(2) this] accounted_enqueue_silent [OF queued(3)] queued(4) s1
    show ?thesis by (cases q) (auto simp: remove_pending_ack_def accounted_def held_def answered_def)
  qed
qed

lemma accounted_refuse: "accounted (refuse_request q result e s) = accounted s + {#result#}"
  by (simp add: refuse_request_def finish_request_lifecycle_def)

lemma accounted_admit_request:
  assumes inv: "driver_inv s" "transport_ok (rt_transport rt)"
    and room: "length (cn_pending_requests s) < cn_max_pending_operations s"
    and new: "map_of (cn_pending_requests s) (rq_correlation_data q) = None"
    and run: "admit_request rt q result d s = Some (r, s')"
  shows "accounted (case r of Inl e \<Rightarrow> fail_request (rq_correlation_data q) e s' | Inr _ \<Rightarrow> s')
    = accounted s + {#result#}"
proof -
  define p where "p = \<lparr>pr_topic = rq_topic q, pr_payload = rq_payload q,
                pr_response_topic = rq_response_topic q, pr_qos = rq_qos q,
                pr_properties = rq_properties q, pr_deadline = d,
                pr_result = result, pr_publish_packet_id = None, pr_published = False\<rparr>"
  define s1 where "s1 = s\<lparr>cn_pending_requests := AList.update (rq_correlation_data q) p (cn_pending_requests s)\<rparr>"
  have nz: "cn_next_packet_id s1 \<noteq> 0"
    using driver_inv_next_id [OF inv(1)] by (simp add: s1_def)
  have here: "map_of (cn_pending_requests s1) (rq_correlation_data q) = Some p"
    by (simp add: s1_def update_conv)
  have a1: "accounted s1 = accounted s + {#result#}"
    using new by (simp add: s1_def p_def update_new accounted_def held_def answered_def)
  have a2: "accounted s' = accounted s1 \<and> (\<forall>e. r = Err e \<longrightarrow> cn_pending_requests s' = cn_pending_requests s1)"
    using run accounted_publish_request [OF nz] accounted_subscribe_for_responses [OF nz]
    unfolding admit_request_def Let_def p_def [symmetric] s1_def [symmetric]
    by (auto split: if_splits option.splits ResponseSubscription.splits)
  have "driver_inv s'" using wf.admit_request_I [of rt s, OF _ room run] inv by simp
  from a1 a2 here accounted_fail_request [OF this, of "rq_correlation_data q" p] show ?thesis
    by (cases r) (auto simp: p_def)
qed

lemma accounted_begin_request:
  assumes inv: "driver_inv s" "transport_ok (rt_transport rt)"
    and fresh: "rq_correlation_data q \<notin> set (rl_cancelled (cn_request_lifecycle s))"
    and run: "begin_request rt q result s = Some (r, s')"
  shows "accounted (case r of Inl e \<Rightarrow> fail_request (rq_correlation_data q) e s' | Inr _ \<Rightarrow> s')
    = accounted s + {#result#}"
proof -
  obtain now s2 where s2: "conn_now rt s = (now, s2)" by force
  have I2: "driver_inv s2" "accounted s2 = accounted s" "cn_pending_requests s2 = cn_pending_requests s"
     "cn_max_pending_operations s2 = cn_max_pending_operations s"
    using s2 inv(1) by (auto simp: conn_now_def driver_inv_steps split: prod.splits)
  have consumed: "consume_cancellation (rq_correlation_data q) (cn_request_lifecycle s) = (False, cn_request_lifecycle s)"
    using fresh by (simp add: consume_cancellation_def)
  note admit = accounted_admit_request [OF I2(1) inv(2), unfolded I2(2-4)]
  from run show ?thesis
    unfolding begin_request_def Let_def consumed prod.case
    by (auto simp: s2 not_le accounted_refuse I2 split: if_splits sum.splits option.splits dest: admit)
qed

text \<open>Every command: unless it is a request that was cancelled before, its sender is held or answered.\<close>

lemma accounted_process_command:
  assumes inv: "driver_inv s" "transport_ok (rt_transport rt)"
    and run: "process_command rt command s = Some (r, s')"
    and fresh: "\<And>q result. command = Cmd_Request q result \<Longrightarrow>
      rq_correlation_data q \<notin> set (rl_cancelled (cn_request_lifecycle s))"
  shows "accounted s' = accounted s + {#command_sender command#}"
proof (cases "cn_closing s")
  case False
  note nz = driver_inv_next_id [OF inv(1)]
  show ?thesis
  proof (cases command)
    case (Cmd_Request q result)
    with run False obtain x s1 where "begin_request rt q result s = Some (x, s1)"
      "s' = (case x of Inl e \<Rightarrow> fail_request (rq_correlation_data q) e s1 | Inr _ \<Rightarrow> s1)"
      by (auto simp: process_command_def bind_eq_Some_conv)
    then show ?thesis using accounted_begin_request [OF inv fresh] Cmd_Request by simp
  qed (use run False accounted_begin_publish [OF nz] accounted_begin_subscribe [OF nz]
      accounted_begin_unsubscribe [OF nz] accounted_begin_disconnect in \<open>auto simp: process_command_def\<close>)
qed (use run in \<open>auto simp: process_command_def\<close>)

end
