(* ===== verification/Async_Connect.thy ===== *)
theory Async_Connect
  imports Async_Run
begin

text \<open>
  The handshake of the asynchronous client (\<^verbatim>\<open>src/async_client.rs\<close>, \<^verbatim>\<open>connect_with\<close> and the helpers at
  the end of the file).  It is blocking; every step counts against one deadline.  The computations
  run on the world \<^typ>\<open>'w\<close> itself.
\<close>

section \<open>The shared deadline\<close>

definition nowW :: "'w Transport \<Rightarrow> ('w, instant) comp" where
  "nowW tr w = (let (t, w') = tr_now tr w in Some (Ok t, w'))"

definition ioW :: "('w \<Rightarrow> 'a io_result \<times> 'w) \<Rightarrow> ('w, 'a) comp" where
  "ioW f w = (let (r, w') = f w in Some (from_io r, w'))"

definition connect_deadline :: "'w Transport \<Rightarrow> duration \<Rightarrow> ('w, instant) comp" where
  "connect_deadline tr timeout =
     andM (nowW tr) (\<lambda>now.
     returns (case instant_checked_add tr now timeout of
        Some d \<Rightarrow> Ok d
      | None \<Rightarrow> Err (InvalidOptions ''connect timeout is too large'')))"

definition connect_remaining :: "'w Transport \<Rightarrow> instant \<Rightarrow> ('w, duration) comp" where
  "connect_remaining tr deadline =
     andM (nowW tr) (\<lambda>now.
     returns (if deadline > now then Ok (deadline - now) else Err (Timeout ''connect'')))"

definition map_connect_io :: "'a io_result \<Rightarrow> 'a result" where
  "map_connect_io r =
    (case r of
       Inl error \<Rightarrow>
         if io_kind error = TimedOut \<or> io_kind error = WouldBlock then Err (Timeout ''connect'')
         else Err (Io error)
     | Inr v \<Rightarrow> Ok v)"

definition set_connect_timeouts :: "'w Transport \<Rightarrow> instant \<Rightarrow> ('w, unit) comp" where
  "set_connect_timeouts tr deadline =
     andM (connect_remaining tr deadline) (\<lambda>d.
     andM (ioW (tr_set_read_timeout tr (Some d))) (\<lambda>_.
     andM (connect_remaining tr deadline) (\<lambda>d.
     ioW (tr_set_write_timeout tr (Some d)))))"

section \<open>Writing and reading under the deadline\<close>

partial_function (option) write_all_until ::
  "'w Transport \<Rightarrow> bytes \<Rightarrow> instant \<Rightarrow> ('w, unit) comp" where
  "write_all_until tr bs deadline w =
    (if bs = [] then Some (Ok (), w)
     else
       andM (connect_remaining tr deadline) (\<lambda>d.
       andM (ioW (tr_set_write_timeout tr (Some d))) (\<lambda>_ w.
       case tr_write tr bs w of
         (Inr written, w) \<Rightarrow>
           if written = 0 then Some (Err (Io (IoError WriteZero '''')), w)
           else if written \<le> length bs
           then andM (connect_remaining tr deadline) (\<lambda>_ w.
                write_all_until tr (drop written bs) deadline w) w
           else Some (Err (Io (IoError InvalidData ''transport reported an oversized write'')), w)
       | (Inl error, w) \<Rightarrow>
           if io_kind error = Interrupted then write_all_until tr bs deadline w
           else Some (map_connect_io (Err error), w))) w)"

text \<open>\<open>acc\<close> is the part of the caller's buffer that is filled, \<open>n\<close> the length of the rest.\<close>

partial_function (option) read_exact_until ::
  "'w Transport \<Rightarrow> nat \<Rightarrow> bytes \<Rightarrow> instant \<Rightarrow> ('w, bytes) comp" where
  "read_exact_until tr n acc deadline w =
    (if n = 0 then Some (Ok acc, w)
     else
       andM (connect_remaining tr deadline) (\<lambda>d.
       andM (ioW (tr_set_read_timeout tr (Some d))) (\<lambda>_ w.
       case tr_read tr n w of
         (Inr bs, w) \<Rightarrow>
           if bs = [] then Some (Err ConnectionClosed, w)
           else if length bs \<le> n
           then andM (connect_remaining tr deadline) (\<lambda>_ w.
                read_exact_until tr (n - length bs) (acc @ bs) deadline w) w
           else Some (Err (Io (IoError InvalidData ''transport reported an oversized read'')), w)
       | (Inl error, w) \<Rightarrow>
           if io_kind error = Interrupted then read_exact_until tr n acc deadline w
           else Some (map_connect_io (Err error), w))) w)"

section \<open>One packet\<close>

partial_function (option) read_header_loop ::
  "'w Transport \<Rightarrow> u32 \<Rightarrow> bytes \<Rightarrow> instant \<Rightarrow> ('w, bytes) comp" where
  "read_header_loop tr multiplier header deadline w =
     andM (read_exact_until tr 1 [] deadline) (\<lambda>b w.
       let header = header @ b in
       if and (hd b) 0x80 = 0 then Some (Ok header, w)
       else if multiplier = 128 * 128 * 128
       then Some (Err (MalformedPacket ''variable int too long''), w)
       else read_header_loop tr (multiplier * 128) header deadline w) w"

definition read_packet_blocking ::
  "'w Transport \<Rightarrow> nat \<Rightarrow> instant \<Rightarrow> ('w, Packet) comp" where
  "read_packet_blocking tr max_packet_size deadline =
     andM (read_exact_until tr 1 [] deadline) (\<lambda>first.
     andM (read_header_loop tr 1 first deadline) (\<lambda>header_bytes.
     andM (returns (decode_fixed_header header_bytes)) (\<lambda>(header, header_len).
     andM (returns (case checked_add header_len (unat (remaining_length header)) of
         Some total_size \<Rightarrow> Ok total_size
       | None \<Rightarrow> Err (MalformedPacket ''packet size overflow''))) (\<lambda>total_size.
     if total_size > max_packet_size
     then returns (Err (PacketTooLarge total_size max_packet_size))
     else
       andM (read_exact_until tr (unat (remaining_length header)) [] deadline) (\<lambda>body.
       returns (Packet_decode header body))))))"

section \<open>The handshake\<close>

definition async_connect_packet :: "ConnectOptions \<Rightarrow> ConnectPacket result" where
  "async_connect_packet opts =
    (if co_max_packet_size opts > 4294967295
     then Err (MalformedPacket ''maximum packet size exceeds MQTT limit'')
     else
       let properties = props_push Properties_new MaximumPacketSize
             (U32 (word_of_nat (co_max_packet_size opts)));
           properties = props_push properties ReceiveMaximum
             (U16 (word_of_nat (min (co_event_capacity opts) 65535)))
       in Ok \<lparr>cp_protocol_version = 5, cp_clean_start = co_clean_start opts,
             cp_keep_alive = co_keep_alive_secs opts, cp_client_id = co_client_id opts,
             cp_username = co_username opts, cp_password = co_password opts,
             cp_properties = properties\<rparr>)"

definition expect_connack :: "Packet \<Rightarrow> ConnAckPacket result" where
  "expect_connack packet =
    (case packet of
       Pkt_ConnAck connack \<Rightarrow>
         if ca_reason_code connack < 0x80 then Ok connack
         else Err (ConnectionRefused (ca_reason_code connack))
     | _ \<Rightarrow> Err (UnexpectedPacket ''expected CONNACK''))"

definition new_connection ::
  "ConnectOptions \<Rightarrow> ConnAckPacket \<Rightarrow> ServerCapabilities \<Rightarrow> instant \<Rightarrow> 'w \<Rightarrow> 'w MqttConnection" where
  "new_connection opts connack capabilities now w =
    \<lparr>cn_stream = w,
     cn_frame_reader = FrameReader_with_max_packet_size (co_max_packet_size opts),
     cn_request_lifecycle = RequestLifecycle_new (co_command_capacity opts),
     cn_outbound = [], cn_outbound_bytes = 0, cn_pending_acks = [], cn_next_packet_id = 1,
     cn_last_write_at = now, cn_ping_outstanding_since = None,
     cn_keep_alive_secs =
       (case get_u16 (ca_properties connack) ServerKeepAlive of
          Some secs \<Rightarrow> secs | None \<Rightarrow> co_keep_alive_secs opts),
     cn_peer_max_packet_size =
       (case get_u32 (ca_properties connack) MaximumPacketSize of
          Some v \<Rightarrow> unat v | None \<Rightarrow> 268435460),
     cn_peer_receive_maximum =
       (case get_u16 (ca_properties connack) ReceiveMaximum of
          Some v \<Rightarrow> v | None \<Rightarrow> 65535),
     cn_server_capabilities = capabilities,
     cn_max_outbound_queue_bytes = co_max_outbound_queue_bytes opts,
     cn_max_pending_operations = co_command_capacity opts,
     cn_ack_timeout = co_ack_timeout opts, cn_poll_interval = co_poll_interval opts,
     cn_closing = False, cn_command_channel_closed = False, cn_needs_flush = False,
     cn_flush_actions = [], cn_ping_queued = False, cn_terminal_event_sent = False,
     cn_pending_requests = [], cn_response_subscriptions = [], cn_sent = []\<rparr>"

text \<open>The handle keeps, next to the channels, the broker's maximum packet size.\<close>

record AsyncMqttClient =
  ac_max_packet_size :: nat

text \<open>From the flush of the CONNECT packet on.\<close>

definition finish_handshake ::
  "'w Transport \<Rightarrow> ConnectOptions \<Rightarrow> instant \<Rightarrow> ('w, AsyncMqttClient \<times> 'w MqttConnection) comp" where
  "finish_handshake tr opts deadline =
     andM (connect_remaining tr deadline) (\<lambda>d.
     andM (ioW (tr_set_write_timeout tr (Some d))) (\<lambda>_.
     andM (\<lambda>w. let (r, w') = tr_flush tr w in Some (map_connect_io r, w')) (\<lambda>_.
     andM (connect_remaining tr deadline) (\<lambda>_.
     andM (read_packet_blocking tr (co_max_packet_size opts) deadline) (\<lambda>packet.
     andM (returns (expect_connack packet)) (\<lambda>connack.
     andM (connect_remaining tr deadline) (\<lambda>_.
     andM (returns (validate_connack (co_client_id opts) (co_clean_start opts) connack)) (\<lambda>_.
     andM (\<lambda>w. map_option (\<lambda>caps. (Ok caps, w)) (ServerCapabilities_from_connack connack)) (\<lambda>caps.
     andM (ioW (tr_set_read_timeout tr None)) (\<lambda>_.
     andM (ioW (tr_set_write_timeout tr None)) (\<lambda>_.
     andM (ioW (tr_set_nonblocking tr True)) (\<lambda>_.
     andM (nowW tr) (\<lambda>now w.
     let connection = new_connection opts connack caps now w in
     Some (Ok (\<lparr>ac_max_packet_size = cn_peer_max_packet_size connection\<rparr>, connection), w))))))))))))))"

definition connect_with_deadline ::
  "'w Transport \<Rightarrow> ConnectOptions \<Rightarrow> instant \<Rightarrow> ('w, AsyncMqttClient \<times> 'w MqttConnection) comp" where
  "connect_with_deadline tr opts deadline =
     andM (ioW (tr_set_nonblocking tr False)) (\<lambda>_.
     andM (set_connect_timeouts tr deadline) (\<lambda>_.
     andM (returns (and_then (async_connect_packet opts) ConnectPacket_encode)) (\<lambda>bs.
     andM (write_all_until tr bs deadline) (\<lambda>_.
     finish_handshake tr opts deadline))))"

definition async_connect_with ::
  "'w Transport \<Rightarrow> ConnectOptions \<Rightarrow> ('w, AsyncMqttClient \<times> 'w MqttConnection) comp" where
  "async_connect_with tr opts =
     andM (nowW tr) (\<lambda>t0.
     andM (returns (options_validate (\<lambda>d. instant_checked_add tr t0 d \<noteq> None) opts)) (\<lambda>_.
     andM (connect_deadline tr (co_connect_timeout opts)) (\<lambda>deadline.
     connect_with_deadline tr opts deadline)))"

end
