(* ===== verification/Async_Client.thy ===== *)
theory Async_Client
  imports Async_Connect Topic
begin

text \<open>
  The command handle of the asynchronous client (\<^verbatim>\<open>AsyncMqttClient\<close>) and the request/response
  layer (\<^verbatim>\<open>src/request_response.rs\<close>).  An operation of the handle runs until it waits on the channel
  of its result; \<open>receive_result\<close> is what the wait returns.  The number of a fresh channel and the
  bytes of a fresh UUID are arguments; the clock of the validation is read once, at the start.
\<close>

section \<open>Sending commands\<close>

text \<open>\<^verbatim>\<open>receiver.await.unwrap_or(Err(Error::ClientClosed))\<close>: None is a dropped sender.\<close>

definition receive_result :: "'a result option \<Rightarrow> 'a result" where
  "receive_result received = (case received of Some r \<Rightarrow> r | None \<Rightarrow> Err ClientClosed)"

definition send_command :: "'w Runtime \<Rightarrow> Command \<Rightarrow> 'w \<Rightarrow> unit result \<times> 'w" where
  "send_command rt command w =
    (case rt_try_send_command rt command w of
       (Sent, w) \<Rightarrow> (Ok (), w)
     | (Full, w) \<Rightarrow> (Err (QueueFull ''command''), w)
     | (Closed, w) \<Rightarrow> (Err ClientClosed, w))"

definition start_publish ::
  "'w Runtime \<Rightarrow> AsyncMqttClient \<Rightarrow> rstr \<Rightarrow> bytes \<Rightarrow> PublishOptions \<Rightarrow> sender \<Rightarrow> 'w \<Rightarrow> unit result \<times> 'w" where
  "start_publish rt client topic payload opts result w =
    (if length payload > ac_max_packet_size client
     then (Err (PacketTooLarge (length payload) (ac_max_packet_size client)), w)
     else send_command rt (Cmd_Publish topic payload opts result) w)"

definition start_subscribe :: "'w Runtime \<Rightarrow> rstr \<Rightarrow> QoS \<Rightarrow> sender \<Rightarrow> 'w \<Rightarrow> unit result \<times> 'w" where
  "start_subscribe rt flt qos result w = send_command rt (Cmd_Subscribe flt qos result) w"

definition start_unsubscribe :: "'w Runtime \<Rightarrow> rstr \<Rightarrow> sender \<Rightarrow> 'w \<Rightarrow> unit result \<times> 'w" where
  "start_unsubscribe rt flt result w = send_command rt (Cmd_Unsubscribe flt result) w"

definition start_disconnect :: "'w Runtime \<Rightarrow> sender \<Rightarrow> 'w \<Rightarrow> unit result \<times> 'w" where
  "start_disconnect rt result w = send_command rt (Cmd_Disconnect result) w"

text \<open>The lifecycle is shared with the driver.\<close>

definition start_request ::
  "'w Runtime \<Rightarrow> AsyncMqttClient \<Rightarrow> RequestCommand \<Rightarrow> sender \<Rightarrow> RequestLifecycle \<times> 'w
     \<Rightarrow> sender result \<times> RequestLifecycle \<times> 'w" where
  "start_request rt client request result lw =
    (let (l, w) = lw in
     if length (rq_payload request) > ac_max_packet_size client
     then (Err (PacketTooLarge (length (rq_payload request)) (ac_max_packet_size client)), l, w)
     else case lifecycle_register (rq_correlation_data request) l of
       (Inl e, l) \<Rightarrow> (Err e, l, w)
     | (Inr _, l) \<Rightarrow>
         (case send_command rt (Cmd_Request request result) w of
            (Inl e, w) \<Rightarrow> (Err e, lifecycle_finish (rq_correlation_data request) l, w)
          | (Inr _, w) \<Rightarrow> (Ok result, l, w)))"

section \<open>Request options\<close>

record RequestOptions =
  ro_response_topic :: rstr
  ro_qos :: QoS
  ro_timeout :: duration
  ro_properties :: Properties
  ro_correlation_data :: "bytes option"

definition RequestOptions_new :: "rstr \<Rightarrow> RequestOptions" where
  "RequestOptions_new topic =
    \<lparr>ro_response_topic = topic, ro_qos = AtLeastOnce, ro_timeout = from_secs 30,
     ro_properties = Properties_new, ro_correlation_data = None\<rparr>"

definition request_with_qos :: "RequestOptions \<Rightarrow> QoS \<Rightarrow> RequestOptions" where
  "request_with_qos o' qos = o'\<lparr>ro_qos := qos\<rparr>"

definition request_with_timeout :: "RequestOptions \<Rightarrow> duration \<Rightarrow> RequestOptions" where
  "request_with_timeout o' timeout = o'\<lparr>ro_timeout := timeout\<rparr>"

definition request_with_properties :: "RequestOptions \<Rightarrow> Properties \<Rightarrow> RequestOptions" where
  "request_with_properties o' properties = o'\<lparr>ro_properties := properties\<rparr>"

definition request_with_correlation_data :: "RequestOptions \<Rightarrow> bytes \<Rightarrow> RequestOptions" where
  "request_with_correlation_data o' corr = o'\<lparr>ro_correlation_data := Some corr\<rparr>"

text \<open>\<open>fits\<close> is whether \<^verbatim>\<open>Instant::now().checked_add\<close> exists.\<close>

definition request_validate :: "(duration \<Rightarrow> bool) \<Rightarrow> RequestOptions \<Rightarrow> unit result" where
  "request_validate fits o' =
    (if ro_response_topic o' = [] then Err (InvalidOptions ''response topic must not be empty'')
     else if contains_wildcard (ro_response_topic o')
     then Err (InvalidOptions ''response topic must not contain wildcards'')
     else if starts_with (ro_response_topic o') share_prefix
     then Err (InvalidOptions ''response topic must not use the shared-subscription prefix'')
     else if ro_timeout o' = 0 then Err (InvalidOptions ''request timeout must be non-zero'')
     else if \<not> fits (ro_timeout o') then Err (InvalidOptions ''request timeout is too large'')
     else Ok ())"

definition request_command :: "bytes \<Rightarrow> rstr \<Rightarrow> bytes \<Rightarrow> RequestOptions \<Rightarrow> RequestCommand" where
  "request_command uuid topic payload o' =
    (let corr = (case ro_correlation_data o' of Some c \<Rightarrow> c | None \<Rightarrow> uuid);
         properties = set_response_topic (ro_properties o') (ro_response_topic o');
         properties = set_correlation_data properties corr
     in \<lparr>rq_topic = topic, rq_payload = payload, rq_response_topic = ro_response_topic o',
         rq_correlation_data = corr, rq_qos = ro_qos o', rq_timeout = ro_timeout o',
         rq_properties = properties\<rparr>)"

text \<open>\<^verbatim>\<open>request\<close> up to the wait: the correlation data its cancellation guard holds.\<close>

definition request_start ::
  "'w Runtime \<Rightarrow> AsyncMqttClient \<Rightarrow> bytes \<Rightarrow> rstr \<Rightarrow> bytes \<Rightarrow> RequestOptions \<Rightarrow> sender
     \<Rightarrow> RequestLifecycle \<times> 'w \<Rightarrow> bytes result \<times> RequestLifecycle \<times> 'w" where
  "request_start rt client uuid topic payload o' result lw =
    (let (l, w) = lw;
         (now, w) = tr_now (rt_transport rt) w;
         command = request_command uuid topic payload o'
     in case request_validate (\<lambda>d. instant_checked_add (rt_transport rt) now d \<noteq> None) o' of
          Inl e \<Rightarrow> (Err e, l, w)
        | Inr _ \<Rightarrow>
            (case start_request rt client command result (l, w) of
               (Inl e, lw) \<Rightarrow> (Err e, lw)
             | (Inr _, lw) \<Rightarrow> (Ok (rq_correlation_data command), lw)))"

text \<open>The guard: \<^verbatim>\<open>finish\<close> after the answer, or \<^verbatim>\<open>drop\<close> when the future is dropped.\<close>

type_synonym RequestCancellation = "bytes option"

definition cancellation_new :: "bytes \<Rightarrow> RequestCancellation" where
  "cancellation_new corr = Some corr"

definition cancellation_finish ::
  "RequestCancellation \<Rightarrow> RequestLifecycle \<Rightarrow> RequestCancellation \<times> RequestLifecycle" where
  "cancellation_finish guard l =
    (case guard of Some corr \<Rightarrow> (None, lifecycle_finish corr l) | None \<Rightarrow> (None, l))"

definition cancellation_drop :: "RequestCancellation \<Rightarrow> RequestLifecycle \<Rightarrow> RequestLifecycle" where
  "cancellation_drop guard l =
    (case guard of Some corr \<Rightarrow> lifecycle_cancel corr l | None \<Rightarrow> l)"

text \<open>
  The rest of \<^verbatim>\<open>request\<close>: \<open>answer\<close> is what awaiting the oneshot channel gives, \<^term>\<open>None\<close> when its sender was
  dropped.
\<close>

definition request_end ::
  "bytes \<Rightarrow> PublishPacket result option \<Rightarrow> RequestLifecycle \<Rightarrow> PublishPacket result \<times> RequestLifecycle" where
  "request_end corr answer l =
    (let guard = cancellation_new corr;
         result = (case answer of Some r \<Rightarrow> r | None \<Rightarrow> Err ClientClosed);
         (guard, l) = cancellation_finish guard l
     in (result, l))"

section \<open>Events\<close>

text \<open>\<open>recv\<close> is \<^verbatim>\<open>recv\<close> on the event channel; the handles share it under a mutex.\<close>

definition next_event :: "('w \<Rightarrow> Event option \<times> 'w) \<Rightarrow> 'w \<Rightarrow> Event option \<times> 'w" where
  "next_event recv w = recv w"

end
