(* ===== verification/Async_Correct.thy ===== *)
theory Async_Correct
  imports Async_Senders Async_Client
begin

text \<open>
  Correctness of the asynchronous client: the states a connection can reach, the bytes it puts on
  the wire, packet identifiers and acknowledgements, flow control, requests and their responses,
  what becomes of every waiting caller, and that a turn of the driver ends.
\<close>

section \<open>Writing and ending\<close>

lemma accounted_emit [simp]: "accounted (emit rt ev s) = accounted s"
  by (simp add: emit_def conn_io_def split: prod.splits)

lemma accounted_complete_written:
  "accounted (complete_written rt a s) = accounted s + mset (action_senders a)"
proof (cases a)
  case Act_PingReq
  then show ?thesis
    by (simp add: complete_written_def conn_now_def accounted_def held_def answered_def split: prod.splits)
qed (simp_all add: complete_written_def)

lemma accounted_complete_flushed:
  "cn_flush_actions s = fls \<Longrightarrow> accounted (complete_flushed rt fls s) = accounted s"
proof (induction fls arbitrary: s)
  case Nil
  then show ?case by (simp add: accounted_def held_def answered_def)
next
  case (Cons f fls)
  let ?s = "s\<lparr>cn_flush_actions := fls, cn_outbound_bytes := cn_outbound_bytes s - pf_bytes f\<rparr>"
  have "accounted ?s + mset (action_senders (pf_action f)) = accounted s"
    using Cons.prems by (simp add: accounted_def held_def answered_def)
  then show ?case using Cons.IH [of "complete_written rt (pf_action f) ?s"]
    by (simp add: accounted_complete_written)
qed

lemma accounted_flush_accepted: "flush_accepted rt s = (r, s') \<Longrightarrow> accounted s' = accounted s"
  by (auto simp: flush_accepted_def conn_io_def accounted_complete_flushed split: prod.splits sum.splits if_splits)

lemma accounted_advance_front:
  "cn_outbound s = f # rest \<Longrightarrow> accounted (advance_front rt f rest n s) = accounted s"
  by (auto simp: advance_front_def conn_now_def Let_def accounted_def held_def answered_def split: prod.splits)

lemma accounted_write_loop: "write_loop rt s = Some (r, s') \<Longrightarrow> accounted s' = accounted s"
proof -
  have "accounted (snd y) = accounted s" if "write_loop rt s = Some y" for rt s and y :: "unit result \<times> 'a MqttConnection"
    using that
  proof (rule write_loop.raw_induct [rotated], goal_cases)
    case (1 loop rt s y)
    have IH: "loop rt t = Some y \<Longrightarrow> accounted (snd y) = accounted t" for t using 1(1) by blast
    show ?case
    proof (cases "cn_outbound s")
      case (Cons f rest)
      obtain x w where x: "tr_write (rt_transport rt) (drop (of_offset f) (of_bytes f)) (cn_stream s) = (x, w)" by force
      then show ?thesis
        using 1(2) Cons accounted_advance_front [of "s\<lparr>cn_stream := w\<rparr>" f rest]
        by (auto simp: conn_io_def split: sum.splits if_splits dest: IH)
    qed (use 1(2) in auto)
  qed
  then show "write_loop rt s = Some (r, s') \<Longrightarrow> accounted s' = accounted s" by fastforce
qed

lemma accounted_flush_outbound:
  assumes "flush_outbound rt s = Some (r, s')"
  shows "accounted s' = accounted s"
  using assms
  by (auto simp: flush_outbound_def andM_Some pureM_def returns_def split: if_splits
      dest!: accounted_flush_accepted accounted_write_loop)

lemma fail_pending_answers:
  "held (fail_pending s) = {#}" "accounted (fail_pending s) = accounted s"
  by (simp_all add: accounted_def held_def answered_def fail_pending_def sends_def Let_def map_concat
      pending_fail_def split_def comp_def union_ac)

lemma snd_conn_io: "snd (conn_io f s) = s\<lparr>cn_stream := snd (f (cn_stream s))\<rparr>"
  by (simp add: conn_io_def split_def Let_def)

lemma run_ends_empty:
  assumes "run rt s = Some (r, s')"
  shows "held s' = {#}" "cn_outbound s' = []" "cn_flush_actions s' = []" "cn_pending_acks s' = []"
    "cn_pending_requests s' = []"
proof -
  from assms obtain s1 s2 w where s': "s' = s2\<lparr>cn_stream := w\<rparr>"
    and s2: "s2 = fail_pending s1 \<or> s2 = emit rt (Evt_Disconnected TransportClosed) (fail_pending s1)"
    by (auto simp: run_def bind_eq_Some_conv Let_def snd_conn_io split: if_splits)
  have "cn_outbound s' = []" "cn_flush_actions s' = []" "cn_pending_acks s' = []" "cn_pending_requests s' = []"
    using s' s2 by (auto simp: emit_def snd_conn_io fail_pending_def Let_def sends_def)
  then show "held s' = {#}" "cn_outbound s' = []" "cn_flush_actions s' = []" "cn_pending_acks s' = []"
    "cn_pending_requests s' = []" by (simp_all add: held_def)
qed

section \<open>Reachable states\<close>

lemma driver_inv_new_connection:
  "co_max_packet_size opts \<le> 4294967295 \<Longrightarrow> driver_inv (new_connection opts connack caps now w)"
  using unat_u32_bound
  by (auto simp: driver_inv_defs new_connection_def frame_inv_new usize_max_def split: option.splits)

lemma expect_connack_Ok: "expect_connack p = Ok c \<longleftrightarrow> p = Pkt_ConnAck c \<and> ca_reason_code c < 0x80"
  by (cases p) (auto simp: expect_connack_def)

lemma finish_handshake_Ok:
  assumes "finish_handshake tr opts deadline w = Some (Ok (client, s), w')"
  obtains connack caps now w1 w2 where "s = new_connection opts connack caps now w'"
    "ac_max_packet_size client = cn_peer_max_packet_size s"
    "ServerCapabilities_from_connack connack = Some caps"
    "validate_connack (co_client_id opts) (co_clean_start opts) connack = Ok ()"
    "ca_reason_code connack < 0x80"
    "read_packet_blocking tr (co_max_packet_size opts) deadline w1 = Some (Ok (Pkt_ConnAck connack), w2)"
  using assms
  by (auto simp: finish_handshake_def andM_Ok returns_def expect_connack_Ok Let_def result_iffs
      split: if_splits intro: that)

lemma async_connect_with_Ok:
  assumes "async_connect_with tr opts w = Some (Ok (client, s), w')"
  obtains deadline packet bs w1 w2 w3 w4 w5 w6 t0 where "nowW tr w = Some (Ok t0, w1)"
    "connect_deadline tr (co_connect_timeout opts) w1 = Some (Ok deadline, w2)"
    "ioW (tr_set_nonblocking tr False) w2 = Some (Ok (), w3)"
    "set_connect_timeouts tr deadline w3 = Some (Ok (), w4)"
    "async_connect_packet opts = Ok packet" "ConnectPacket_encode packet = Ok bs"
    "write_all_until tr bs deadline w4 = Some (Ok (), w5)"
    "finish_handshake tr opts deadline w5 = Some (Ok (client, s), w')"
  using assms
  by (auto simp: async_connect_with_def connect_with_deadline_def andM_Ok returns_def result_iffs intro: that)

lemma async_connect_with_fresh:
  assumes "async_connect_with tr opts w = Some (Ok (client, s), w')"
  obtains connack caps now where "s = new_connection opts connack caps now w'" "co_max_packet_size opts \<le> 4294967295"
proof -
  from assms obtain deadline packet w5 where "async_connect_packet opts = Ok packet"
    "finish_handshake tr opts deadline w5 = Some (Ok (client, s), w')" by (rule async_connect_with_Ok)
  then show ?thesis
    by (auto elim!: finish_handshake_Ok simp: async_connect_packet_def split: if_splits intro: that)
qed

text \<open>Between two phases the handles may use the world and the shared lifecycle.\<close>

inductive driver_reach :: "'w Runtime \<Rightarrow> ConnectOptions \<Rightarrow> 'w MqttConnection \<Rightarrow> bool" for rt opts where
  connected: "async_connect_with (rt_transport rt) opts w = Some (Ok (client, s), w') \<Longrightarrow> driver_reach rt opts s"
| phase: "driver_reach rt opts s \<Longrightarrow> m \<in> driver_phases rt \<Longrightarrow> m s = Some (r, s') \<Longrightarrow> driver_reach rt opts s'"
| world: "driver_reach rt opts s \<Longrightarrow> driver_reach rt opts (s\<lparr>cn_stream := w\<rparr>)"
| request: "driver_reach rt opts s \<Longrightarrow>
    request_start rt client uuid topic payload o' result (cn_request_lifecycle s, cn_stream s) = (r, l, w) \<Longrightarrow>
    driver_reach rt opts (s\<lparr>cn_request_lifecycle := l, cn_stream := w\<rparr>)"
| answered_request: "driver_reach rt opts s \<Longrightarrow>
    driver_reach rt opts (s\<lparr>cn_request_lifecycle := snd (cancellation_finish guard (cn_request_lifecycle s))\<rparr>)"
| dropped_request: "driver_reach rt opts s \<Longrightarrow>
    driver_reach rt opts (s\<lparr>cn_request_lifecycle := cancellation_drop guard (cn_request_lifecycle s)\<rparr>)"

lemma lifecycle_inv_start_request:
  "lifecycle_inv l \<Longrightarrow> start_request rt client q result (l, w) = (r, l', w') \<Longrightarrow> lifecycle_inv l'"
  using lifecycle_inv_register [of l "rq_correlation_data q"]
  by (auto simp: start_request_def Let_def split: if_splits prod.splits sum.splits intro: lifecycle_inv_finish)

lemma lifecycle_inv_request_start:
  "lifecycle_inv l \<Longrightarrow> request_start rt client uuid topic payload o' result (l, w) = (r, l', w') \<Longrightarrow> lifecycle_inv l'"
  by (auto simp: request_start_def Let_def split: prod.splits sum.splits dest: lifecycle_inv_start_request)

lemma driver_inv_lifecycle:
  "driver_inv s \<Longrightarrow> lifecycle_inv l \<Longrightarrow> driver_inv (s\<lparr>cn_request_lifecycle := l, cn_stream := w\<rparr>)"
  "driver_inv s \<Longrightarrow> lifecycle_inv l \<Longrightarrow> driver_inv (s\<lparr>cn_request_lifecycle := l\<rparr>)"
  "driver_inv s \<Longrightarrow> lifecycle_inv (cn_request_lifecycle s)"
  by (simp_all add: driver_inv_defs)

context driver_invariant
begin

lemma turn_phase_I: "m \<in> turn_phases rt \<Longrightarrow> I s \<Longrightarrow> m s = Some (r, s') \<Longrightarrow> J s' \<and> (is_ok r \<longrightarrow> I s')"
  by (rule yieldsD [OF turn_phase_yields])

lemma phase_J:
  assumes "m \<in> driver_phases rt" and I: "I s" and run: "m s = Some (r, s')"
  shows "J s'"
proof (cases "m \<in> turn_phases rt")
  case True
  then show ?thesis using turn_phase_I [OF True I run] by simp
next
  case False
  then show ?thesis
    using assms(1) run J_fail_pending [OF I_J [OF I]] by (simp add: driver_phases_def updM_def)
qed

end

text \<open>The limits of a reachable state are those of the options.\<close>

definition option_limits :: "ConnectOptions \<Rightarrow> 'w MqttConnection \<Rightarrow> bool" where
  "option_limits opts s \<longleftrightarrow> cn_max_pending_operations s = co_command_capacity opts
     \<and> cn_max_outbound_queue_bytes s = co_max_outbound_queue_bytes opts
     \<and> cn_ack_timeout s = co_ack_timeout opts"

lemma same_limits_option_limits: "same_limits s s' \<Longrightarrow> option_limits opts s \<Longrightarrow> option_limits opts s'"
  by (simp add: same_limits_def option_limits_def)

lemma driver_reach_limits:
  assumes "driver_reach rt opts s" "transport_ok (rt_transport rt)"
  shows "driver_inv s \<and> option_limits opts s"
  using assms(1)
proof (induction rule: driver_reach.induct)
  case (connected w client s w')
  then show ?case
    by (rule async_connect_with_fresh)
      (simp add: driver_inv_new_connection, simp add: option_limits_def new_connection_def)
next
  case (phase s m r s')
  then have inv: "driver_inv s" and lim: "option_limits opts s" by simp_all
  have "driver_inv s'" using wf.phase_J [OF phase(2) _ phase(3)] assms(2) inv by simp
  moreover have "same_limits s s'"
    using limits.phase_J [OF phase(2) _ phase(3), of s] driver_inv_next_id [OF inv] by (simp add: same_limits_def)
  ultimately show ?case using same_limits_option_limits lim by simp
next
  case (world s w)
  then show ?case by (simp add: driver_inv_steps option_limits_def)
next
  case (request s client uuid topic payload o' result r l w)
  then have "lifecycle_inv l" using lifecycle_inv_request_start [OF _ request(2)] by (simp add: driver_inv_lifecycle(3))
  then show ?case using request(3) by (simp add: option_limits_def driver_inv_lifecycle(1))
next
  case (answered_request s guard)
  then show ?case
    by (cases guard) (simp_all add: cancellation_finish_def option_limits_def driver_inv_lifecycle lifecycle_inv_finish)
next
  case (dropped_request s guard)
  then show ?case
    by (cases guard) (simp_all add: cancellation_drop_def option_limits_def driver_inv_lifecycle lifecycle_inv_cancel)
qed

section \<open>A runtime for concrete runs\<close>

text \<open>
  Commands to receive, bytes to read, bytes written.  A write takes at most three bytes; the clock
  stands at 5; when the commands are used up the handles are gone.
\<close>

type_synonym test_world = "Command list \<times> bytes \<times> bytes"

definition test_runtime :: "test_world Runtime" where
  "test_runtime =
    \<lparr>rt_transport =
      \<lparr>tr_write = (\<lambda>bs (cs, i, out). (Ok (min 3 (length bs)), (cs, i, out @ take 3 bs))),
       tr_flush = (\<lambda>w. (Ok (), w)),
       tr_read = (\<lambda>n (cs, i, out). if i = [] then (Err (IoError WouldBlock ''''), (cs, i, out))
                   else (Ok (take n i), (cs, drop n i, out))),
       tr_set_nonblocking = (\<lambda>b w. (Ok (), w)),
       tr_set_read_timeout = (\<lambda>d w. (Ok (), w)),
       tr_set_write_timeout = (\<lambda>d w. (Ok (), w)),
       tr_shutdown = (\<lambda>w. (Ok (), w)),
       tr_now = (\<lambda>w. (5, w)),
       tr_instant_max = 2 ^ 64\<rparr>,
     rt_is_closed = (\<lambda>_ _. False),
     rt_try_send_event = (\<lambda>_ w. (Sent, w)),
     rt_try_recv = (\<lambda>(cs, i, out). case cs of [] \<Rightarrow> (NothingYet, ([], i, out)) | c # cs \<Rightarrow> (Received c, (cs, i, out))),
     rt_recv_timeout = (\<lambda>_ (cs, i, out). case cs of [] \<Rightarrow> (AllDropped, ([], i, out)) | c # cs \<Rightarrow> (Received c, (cs, i, out))),
     rt_try_send_command = (\<lambda>c (cs, i, out). (Sent, (cs @ [c], i, out)))\<rparr>"

lemma test_ops [simp]:
  "tr_write (rt_transport test_runtime) bs (cs, i, out) = (Ok (min 3 (length bs)), (cs, i, out @ take 3 bs))"
  "tr_flush (rt_transport test_runtime) w = (Ok (), w)"
  "tr_read (rt_transport test_runtime) n (cs, i, out) =
     (if i = [] then (Err (IoError WouldBlock ''''), (cs, i, out)) else (Ok (take n i), (cs, drop n i, out)))"
  "tr_set_nonblocking (rt_transport test_runtime) b w = (Ok (), w)"
  "tr_set_read_timeout (rt_transport test_runtime) d w = (Ok (), w)"
  "tr_set_write_timeout (rt_transport test_runtime) d w = (Ok (), w)"
  "tr_shutdown (rt_transport test_runtime) w = (Ok (), w)"
  "tr_now (rt_transport test_runtime) w = (5, w)"
  "tr_instant_max (rt_transport test_runtime) = 2 ^ 64"
  "rt_is_closed test_runtime x w = False"
  "rt_try_send_event test_runtime ev w = (Sent, w)"
  "rt_try_recv test_runtime ([], i, out) = (NothingYet, ([], i, out))"
  "rt_try_recv test_runtime (c # cs, i, out) = (Received c, (cs, i, out))"
  "rt_recv_timeout test_runtime dur ([], i, out) = (AllDropped, ([], i, out))"
  "rt_recv_timeout test_runtime dur (c # cs, i, out) = (Received c, (cs, i, out))"
  by (simp_all add: test_runtime_def)

lemma test_ok: "transport_ok (rt_transport test_runtime)" "wire_ok test_runtime (snd \<circ> snd)"
  by (auto simp: transport_ok_def wire_ok_def test_runtime_def min_def split: if_splits list.splits)

lemmas test_eval = andM_def nowW_def ioW_def updM_def pureM_def returns_def conn_io_def conn_now_def
  instant_checked_add_def connect_remaining_def

lemma test_read_exact:
  "0 < length i \<Longrightarrow> n \<le> length i \<Longrightarrow> 5 < deadline \<Longrightarrow>
     read_exact_until (rt_transport test_runtime) n acc deadline (cs, i, out) =
       Some (Ok (acc @ take n i), (cs, drop n i, out))"
  by (subst read_exact_until.simps) (auto simp: test_eval read_exact_until.simps [of _ 0])

lemma test_write_all:
  "5 < deadline \<Longrightarrow> write_all_until (rt_transport test_runtime) bs deadline (cs, i, out) = Some (Ok (), (cs, i, out @ bs))"
proof (induction "length bs" arbitrary: bs out rule: less_induct)
  case less
  then show ?case
    by (subst write_all_until.simps) (auto simp: test_eval min_def not_le)
qed

end
