(* ===== verification/Client.thy ===== *)
theory Client
  imports Transport Frame
begin

text \<open>
  The blocking client (\<^verbatim>\<open>src/client.rs\<close>), generic over its transport.
\<close>

type_synonym deadline = "instant \<times> string"

record 'w MqttClient =
  cl_stream :: 'w
  cl_frame_reader :: FrameReader
  cl_incoming :: "PublishPacket list"
  cl_max_incoming_messages :: nat
  cl_next_packet_id :: u16
  cl_keep_alive_secs :: u16
  cl_ack_timeout :: duration
  cl_max_outbound_packet_size :: nat
  cl_server_capabilities :: ServerCapabilities
  cl_last_read_at :: instant
  cl_last_write_at :: instant
  cl_ping_sent_at :: "instant option"
  cl_connected :: bool

type_synonym ('w, 'a) client_op = "('w MqttClient, 'a) comp"

text \<open>A call on the stream, as \<^verbatim>\<open>io::Result\<close> and with \<^verbatim>\<open>?\<close>; and the clock.\<close>

definition on_stream :: "('w \<Rightarrow> 'a \<times> 'w) \<Rightarrow> 'w MqttClient \<Rightarrow> 'a \<times> 'w MqttClient" where
  "on_stream f c = (let (r, w) = f (cl_stream c) in (r, c\<lparr>cl_stream := w\<rparr>))"

definition ioM :: "('w \<Rightarrow> 'a io_result \<times> 'w) \<Rightarrow> ('w, 'a) client_op" where
  "ioM f c = (let (r, c') = on_stream f c in Some (from_io r, c'))"

definition nowM :: "'w Transport \<Rightarrow> ('w, instant) client_op" where
  "nowM tr c = (let (t, c') = on_stream (tr_now tr) c in Some (Ok t, c'))"

section \<open>Free functions\<close>

definition ping_interval :: "u16 \<Rightarrow> duration option" where
  "ping_interval keep_alive_secs =
    (if keep_alive_secs \<noteq> 0 then Some (from_secs (unat keep_alive_secs)) else None)"

definition validate_ack_code :: "string \<Rightarrow> u8 \<Rightarrow> unit result" where
  "validate_ack_code packet reason_code =
    (if reason_code \<ge> 0x80 then Err (AckRejected packet reason_code) else Ok ())"

fun try_for_each :: "('a \<Rightarrow> unit result) \<Rightarrow> 'a list \<Rightarrow> unit result" where
  "try_for_each f [] = Ok ()"
| "try_for_each f (x # xs) = and_then (f x) (\<lambda>_. try_for_each f xs)"

definition validate_ack_codes :: "string \<Rightarrow> bytes \<Rightarrow> nat \<Rightarrow> unit result" where
  "validate_ack_codes packet reason_codes expected =
    (if length reason_codes \<noteq> expected
     then Err (MalformedPacket ''ack reason code count mismatch'')
     else try_for_each (validate_ack_code packet) reason_codes)"

definition deadline_after :: "'w Transport \<Rightarrow> duration \<Rightarrow> string \<Rightarrow> ('w, deadline) client_op" where
  "deadline_after tr timeout operation =
     andM (nowM tr) (\<lambda>now.
     returns (case instant_checked_add tr now timeout of
        Some d \<Rightarrow> Ok (d, operation)
      | None \<Rightarrow> Err (InvalidOptions ''timeout is too large'')))"

definition map_write_result :: "unit io_result \<Rightarrow> string \<Rightarrow> unit result" where
  "map_write_result r operation =
    (case r of
       Inl error \<Rightarrow>
         if io_kind error = TimedOut \<or> io_kind error = WouldBlock then Err (Timeout operation)
         else Err (Io error)
     | Inr _ \<Rightarrow> Ok ())"

section \<open>Sending\<close>

definition ensure_connected :: "('w, unit) client_op" where
  "ensure_connected c = Some (if cl_connected c then Ok () else Err ClientClosed, c)"

text \<open>\<^verbatim>\<open>if let Err(error) = r { self.connected = false; return Err(error) }\<close>\<close>

definition or_disconnect :: "unit result \<Rightarrow> ('w, unit) client_op" where
  "or_disconnect r c =
    (case r of
       Inl e \<Rightarrow> Some (Err e, c\<lparr>cl_connected := False\<rparr>)
     | Inr _ \<Rightarrow> Some (Ok (), c))"

definition send_encoded :: "'w Transport \<Rightarrow> bytes \<Rightarrow> string \<Rightarrow> ('w, unit) client_op" where
  "send_encoded tr bs operation c =
    (if length bs > cl_max_outbound_packet_size c
     then Some (Err (PacketTooLarge (length bs) (cl_max_outbound_packet_size c)), c)
     else case write_all tr bs (cl_stream c) of
       None \<Rightarrow> None
     | Some (r, w) \<Rightarrow>
         andM (or_disconnect (map_write_result r operation)) (\<lambda>_.
         \<lambda>c. let (r, c) = on_stream (tr_flush tr) c in
         andM (or_disconnect (map_write_result r operation)) (\<lambda>_.
         andM (nowM tr) (\<lambda>now.
         updM (\<lambda>c. c\<lparr>cl_last_write_at := now\<rparr>))) c) (c\<lparr>cl_stream := w\<rparr>))"

definition send_puback :: "'w Transport \<Rightarrow> u16 \<Rightarrow> ('w, unit) client_op" where
  "send_puback tr packet_id =
     andM (returns (PubAckPacket_encode \<lparr>pa_packet_id = packet_id, pa_reason_code = 0x00\<rparr>)) (\<lambda>bs.
     send_encoded tr bs ''PUBACK'')"

definition next_packet_id :: "'w MqttClient \<Rightarrow> u16 \<times> 'w MqttClient" where
  "next_packet_id c =
    (let i = cl_next_packet_id c;
         c = c\<lparr>cl_next_packet_id := cl_next_packet_id c + 1\<rparr>;
         c = (if cl_next_packet_id c = 0 then c\<lparr>cl_next_packet_id := 1\<rparr> else c)
     in (i, c))"

definition next_packet_idM :: "('w, u16) client_op" where
  "next_packet_idM c = (let (i, c') = next_packet_id c in Some (Ok i, c'))"

section \<open>Receiving\<close>

definition accept_publish :: "'w Transport \<Rightarrow> PublishPacket \<Rightarrow> ('w, unit) client_op" where
  "accept_publish tr packet c =
    (if length (cl_incoming c) \<ge> cl_max_incoming_messages c
     then Some (Err (QueueFull ''incoming message''), c)
     else
       let c = c\<lparr>cl_incoming := cl_incoming c @ [packet]\<rparr> in
       if pub_qos packet = AtLeastOnce then
         andM (returns (case pub_packet_id packet of
             Some i \<Rightarrow> Ok i
           | None \<Rightarrow> Err (MalformedPacket ''QoS 1 PUBLISH missing packet identifier''))) (\<lambda>i.
         send_puback tr i) c
       else Some (Ok (), c))"

text \<open>The part of \<^verbatim>\<open>service_timers\<close> behind the deadline check.\<close>

definition keep_alive_timer :: "'w Transport \<Rightarrow> instant \<Rightarrow> ('w, unit) client_op" where
  "keep_alive_timer tr now c =
    (if \<not> cl_connected c then Some (Ok (), c)
     else case cl_ping_sent_at c of
       Some sent_at \<Rightarrow>
         if now - sent_at \<ge> cl_ack_timeout c
         then Some (Err KeepAliveTimeout, c\<lparr>cl_connected := False\<rparr>)
         else Some (Ok (), c)
     | None \<Rightarrow>
         (case ping_interval (cl_keep_alive_secs c) of
            None \<Rightarrow> Some (Ok (), c)
          | Some interval \<Rightarrow>
              if now - cl_last_write_at c \<ge> interval then
                andM (send_encoded tr PINGREQ_BYTES ''keepalive'') (\<lambda>_.
                andM (nowM tr) (\<lambda>t.
                updM (\<lambda>c. c\<lparr>cl_ping_sent_at := Some t\<rparr>))) c
              else Some (Ok (), c)))"

definition service_timers :: "'w Transport \<Rightarrow> deadline option \<Rightarrow> ('w, unit) client_op" where
  "service_timers tr dl =
     andM (nowM tr) (\<lambda>now c.
     case dl of
       Some (at, operation) \<Rightarrow>
         if now \<ge> at then Some (Err (Timeout operation), c) else keep_alive_timer tr now c
     | None \<Rightarrow> keep_alive_timer tr now c)"

definition next_read_timeout ::
  "'w Transport \<Rightarrow> instant \<Rightarrow> deadline option \<Rightarrow> 'w MqttClient \<Rightarrow> duration option" where
  "next_read_timeout tr now dl c =
    (let wake_at = map_option fst dl;
         timer_at = (case cl_ping_sent_at c of
             Some sent_at \<Rightarrow> instant_checked_add tr sent_at (cl_ack_timeout c)
           | None \<Rightarrow>
               (case ping_interval (cl_keep_alive_secs c) of
                  None \<Rightarrow> None
                | Some interval \<Rightarrow> instant_checked_add tr (cl_last_write_at c) interval));
         wake_at = (if cl_connected c then
             (case timer_at of
                Some t \<Rightarrow> Some (case wake_at of None \<Rightarrow> t | Some current \<Rightarrow> min current t)
              | None \<Rightarrow> wake_at)
           else wake_at)
     in map_option (\<lambda>at. max (at - now) (from_millis 1)) wake_at)"

text \<open>One blocking read: how long it may take, how much it may return, and what it returned.\<close>

definition set_timeout :: "'w Transport \<Rightarrow> deadline option \<Rightarrow> ('w, unit) client_op" where
  "set_timeout tr dl =
     andM (nowM tr) (\<lambda>now c.
     let (r, c') = on_stream (tr_set_read_timeout tr (next_read_timeout tr now dl c)) c in
     case r of
       Inl error \<Rightarrow> Some (Err (Io error), c'\<lparr>cl_connected := False\<rparr>)
     | Inr _ \<Rightarrow> Some (Ok (), c'))"

definition read_chunk :: "'w Transport \<Rightarrow> ('w, unit) client_op" where
  "read_chunk tr c =
    (let capacity = remaining_capacity (cl_frame_reader c) in
     if capacity = 0 then
       Some (Err (PacketTooLarge (saturating_add (fr_max_packet_size (cl_frame_reader c)) 1)
                    (fr_max_packet_size (cl_frame_reader c))),
             c\<lparr>cl_connected := False\<rparr>)
     else
       let (r, c') = on_stream (tr_read tr (min capacity 8192)) c in
       case r of
         Inr bs \<Rightarrow>
           if bs = [] then Some (Err ConnectionClosed, c'\<lparr>cl_connected := False\<rparr>)
           else
             andM (nowM tr) (\<lambda>now.
             updM (\<lambda>c. c\<lparr>cl_last_read_at := now,
                         cl_frame_reader := frame_push (cl_frame_reader c) bs\<rparr>)) c'
       | Inl error \<Rightarrow>
           if io_kind error = Interrupted then Some (Ok (), c')
           else if io_kind error = TimedOut \<or> io_kind error = WouldBlock then Some (Ok (), c')
           else Some (Err (Io error), c'\<lparr>cl_connected := False\<rparr>))"

definition packet_read :: "'w Transport \<Rightarrow> Packet \<Rightarrow> ('w, Packet) client_op" where
  "packet_read tr packet =
     andM (nowM tr) (\<lambda>now.
     andM (updM (\<lambda>c. c\<lparr>cl_last_read_at := now\<rparr>)) (\<lambda>_.
     andM (updM (\<lambda>c. if packet = Pkt_PingResp then c\<lparr>cl_ping_sent_at := None\<rparr> else c)) (\<lambda>_.
     returns (Ok packet))))"

partial_function (option) read_packet_until ::
  "'w Transport \<Rightarrow> deadline option \<Rightarrow> ('w, Packet) client_op" where
  "read_packet_until tr dl c =
    (case try_decode (cl_frame_reader c) of
       (Inr (Some packet), fr) \<Rightarrow> packet_read tr packet (c\<lparr>cl_frame_reader := fr\<rparr>)
     | (Inl error, fr) \<Rightarrow>
         Some (Err error, c\<lparr>cl_frame_reader := fr, cl_connected := False\<rparr>)
     | (Inr None, fr) \<Rightarrow>
         andM (service_timers tr dl) (\<lambda>_.
         andM (set_timeout tr dl) (\<lambda>_.
         andM (read_chunk tr) (\<lambda>_ c.
         read_packet_until tr dl c))) (c\<lparr>cl_frame_reader := fr\<rparr>))"

section \<open>Waiting for an acknowledgement\<close>

definition ack_deadline :: "'w Transport \<Rightarrow> string \<Rightarrow> ('w, deadline) client_op" where
  "ack_deadline tr packet c = deadline_after tr (cl_ack_timeout c) packet c"

definition protocol_failure :: "string \<Rightarrow> ('w, 'a) client_op" where
  "protocol_failure message c = Some (Err (UnexpectedPacket message), c\<lparr>cl_connected := False\<rparr>)"

definition server_disconnect :: "DisconnectPacket \<Rightarrow> ('w, unit) client_op" where
  "server_disconnect packet c =
    (let c = c\<lparr>cl_connected := False\<rparr> in
     if dc_reason_code packet = 0x00 then Some (Err ConnectionClosed, c)
     else Some (Err (ServerDisconnected (dc_reason_code packet)), c))"

text \<open>\<^verbatim>\<open>Err(error @ Error::Timeout(_))\<close> and \<^verbatim>\<open>Err(error @ Error::QueueFull(_))\<close> close the client.\<close>

definition closing_on :: "(error \<Rightarrow> bool) \<Rightarrow> ('w, 'a) client_op \<Rightarrow> ('w, 'a) client_op" where
  "closing_on P m c =
     Option.bind (m c) (\<lambda>(r, c').
       case r of
         Inl e \<Rightarrow> Some (Err e, if P e then c'\<lparr>cl_connected := False\<rparr> else c')
       | Inr x \<Rightarrow> Some (Ok x, c'))"

definition read_ack_packet :: "'w Transport \<Rightarrow> deadline \<Rightarrow> ('w, Packet) client_op" where
  "read_ack_packet tr dl =
     closing_on (\<lambda>e. case e of Timeout _ \<Rightarrow> True | _ \<Rightarrow> False) (read_packet_until tr (Some dl))"

definition accept_publish_during_ack :: "'w Transport \<Rightarrow> PublishPacket \<Rightarrow> ('w, unit) client_op" where
  "accept_publish_during_ack tr packet =
     closing_on (\<lambda>e. case e of QueueFull _ \<Rightarrow> True | _ \<Rightarrow> False) (accept_publish tr packet)"

text \<open>
  The loop the three waits share.  \<open>matches\<close> is the first arm of the \<^verbatim>\<open>match\<close>: on the awaited
  acknowledgement it is the result to return.
\<close>

partial_function (option) wait_loop ::
  "'w Transport \<Rightarrow> (Packet \<Rightarrow> unit result option) \<Rightarrow> string \<Rightarrow> deadline \<Rightarrow> ('w, unit) client_op" where
  "wait_loop tr matches failure dl c =
     andM (read_ack_packet tr dl) (\<lambda>packet c.
       case matches packet of
         Some r \<Rightarrow>
           Some (r, if (case r of Inl (MalformedPacket _) \<Rightarrow> True | _ \<Rightarrow> False)
                    then c\<lparr>cl_connected := False\<rparr> else c)
       | None \<Rightarrow>
           (case packet of
              Pkt_Publish p \<Rightarrow>
                andM (accept_publish_during_ack tr p) (\<lambda>_ c. wait_loop tr matches failure dl c) c
            | Pkt_Disconnect p \<Rightarrow> server_disconnect p c
            | Pkt_PingResp \<Rightarrow> wait_loop tr matches failure dl c
            | _ \<Rightarrow> protocol_failure failure c)) c"

text \<open>\<open>validate_ack_code\<close> is never a malformed-packet error, so PUBACK takes no other path there.\<close>

definition puback_matches :: "u16 \<Rightarrow> Packet \<Rightarrow> unit result option" where
  "puback_matches packet_id packet =
    (case packet of
       Pkt_PubAck ack \<Rightarrow>
         if pa_packet_id ack = packet_id then Some (validate_ack_code ''PUBACK'' (pa_reason_code ack))
         else None
     | _ \<Rightarrow> None)"

definition suback_matches :: "u16 \<Rightarrow> QoS \<Rightarrow> Packet \<Rightarrow> unit result option" where
  "suback_matches packet_id requested_qos packet =
    (case packet of
       Pkt_SubAck ack \<Rightarrow>
         if sa_packet_id ack = packet_id
         then Some (validate_suback_codes (sa_reason_codes ack) [requested_qos])
         else None
     | _ \<Rightarrow> None)"

definition unsuback_matches :: "u16 \<Rightarrow> Packet \<Rightarrow> unit result option" where
  "unsuback_matches packet_id packet =
    (case packet of
       Pkt_UnsubAck ack \<Rightarrow>
         if ua_packet_id ack = packet_id
         then Some (validate_ack_codes ''UNSUBACK'' (ua_reason_codes ack) 1)
         else None
     | _ \<Rightarrow> None)"

definition wait_for_puback :: "'w Transport \<Rightarrow> u16 \<Rightarrow> ('w, unit) client_op" where
  "wait_for_puback tr packet_id =
     andM (ack_deadline tr ''PUBACK'')
       (wait_loop tr (puback_matches packet_id) ''unexpected packet while awaiting PUBACK'')"

definition wait_for_suback :: "'w Transport \<Rightarrow> u16 \<Rightarrow> QoS \<Rightarrow> ('w, unit) client_op" where
  "wait_for_suback tr packet_id requested_qos =
     andM (ack_deadline tr ''SUBACK'')
       (wait_loop tr (suback_matches packet_id requested_qos)
          ''unexpected packet while awaiting SUBACK'')"

definition wait_for_unsuback :: "'w Transport \<Rightarrow> u16 \<Rightarrow> ('w, unit) client_op" where
  "wait_for_unsuback tr packet_id =
     andM (ack_deadline tr ''UNSUBACK'')
       (wait_loop tr (unsuback_matches packet_id) ''unexpected packet while awaiting UNSUBACK'')"

section \<open>The public operations\<close>

definition client_publish ::
  "'w Transport \<Rightarrow> rstr \<Rightarrow> bytes \<Rightarrow> PublishOptions \<Rightarrow> ('w, unit) client_op" where
  "client_publish tr topic payload opts =
     andM ensure_connected (\<lambda>_.
     andM (returns (validate_topic_name topic)) (\<lambda>_.
     andM (\<lambda>c. Some (validate_publish (cl_server_capabilities c) (po_qos opts) (po_retain opts), c)) (\<lambda>_.
     andM (if po_qos opts \<noteq> AtMostOnce then andM next_packet_idM (\<lambda>i. returns (Ok (Some i)))
           else returns (Ok None)) (\<lambda>packet_id.
     andM (returns (PublishPacket_encode
         \<lparr>pub_topic = topic, pub_packet_id = packet_id, pub_payload = payload,
          pub_qos = po_qos opts, pub_retain = po_retain opts, pub_dup = False,
          pub_properties = po_properties opts\<rparr>)) (\<lambda>bs.
     andM (send_encoded tr bs ''publish'') (\<lambda>_.
     case packet_id of
       Some i \<Rightarrow> wait_for_puback tr i
     | None \<Rightarrow> returns (Ok ())))))))"

definition client_subscribe :: "'w Transport \<Rightarrow> rstr \<Rightarrow> QoS \<Rightarrow> ('w, unit) client_op" where
  "client_subscribe tr flt qos =
     andM ensure_connected (\<lambda>_.
     andM (\<lambda>c. Some (validate_subscription_filter (cl_server_capabilities c) flt, c)) (\<lambda>_.
     andM next_packet_idM (\<lambda>packet_id.
     andM (returns (SubscribePacket_encode
         \<lparr>sub_packet_id = packet_id, sub_filters = [(flt, qos)], sub_properties = Properties_new\<rparr>)) (\<lambda>bs.
     andM (send_encoded tr bs ''subscribe'') (\<lambda>_.
     wait_for_suback tr packet_id qos)))))"

definition client_unsubscribe :: "'w Transport \<Rightarrow> rstr \<Rightarrow> ('w, unit) client_op" where
  "client_unsubscribe tr flt =
     andM ensure_connected (\<lambda>_.
     andM (returns (validate_topic_filter flt)) (\<lambda>_.
     andM next_packet_idM (\<lambda>packet_id.
     andM (returns (UnsubscribePacket_encode
         \<lparr>uns_packet_id = packet_id, uns_filters = [flt], uns_properties = Properties_new\<rparr>)) (\<lambda>bs.
     andM (send_encoded tr bs ''unsubscribe'') (\<lambda>_.
     wait_for_unsuback tr packet_id)))))"

text \<open>\<^verbatim>\<open>self.incoming.pop_front()\<close>\<close>

definition pop_incoming :: "('w, PublishPacket option) client_op" where
  "pop_incoming c =
    (case cl_incoming c of
       [] \<Rightarrow> Some (Ok None, c)
     | p # ps \<Rightarrow> Some (Ok (Some p), c\<lparr>cl_incoming := ps\<rparr>))"

partial_function (option) recv_loop :: "'w Transport \<Rightarrow> ('w, PublishPacket option) client_op" where
  "recv_loop tr c =
     andM (read_packet_until tr None) (\<lambda>packet c.
       case packet of
         Pkt_Publish p \<Rightarrow> andM (accept_publish tr p) (\<lambda>_. pop_incoming) c
       | Pkt_Disconnect p \<Rightarrow>
           Some (if dc_reason_code p = 0x00 then Ok None
                 else Err (ServerDisconnected (dc_reason_code p)), c\<lparr>cl_connected := False\<rparr>)
       | Pkt_PingResp \<Rightarrow> recv_loop tr c
       | _ \<Rightarrow> protocol_failure ''unexpected packet while receiving'' c) c"

definition client_recv :: "'w Transport \<Rightarrow> ('w, PublishPacket option) client_op" where
  "client_recv tr =
     andM ensure_connected (\<lambda>_ c.
     case cl_incoming c of
       message # rest \<Rightarrow> Some (Ok (Some message), c\<lparr>cl_incoming := rest\<rparr>)
     | [] \<Rightarrow> recv_loop tr c)"

definition client_disconnect :: "'w Transport \<Rightarrow> ('w, unit) client_op" where
  "client_disconnect tr =
     andM (\<lambda>c. if cl_connected c then
         andM (returns (DisconnectPacket_encode \<lparr>dc_reason_code = 0x00\<rparr>)) (\<lambda>bs.
         andM (send_encoded tr bs ''disconnect'') (\<lambda>_.
         updM (\<lambda>c. c\<lparr>cl_connected := False\<rparr>))) c
       else Some (Ok (), c)) (\<lambda>_.
     ioM (tr_shutdown tr))"

text \<open>The iterator \<^verbatim>\<open>Incoming\<close>: the client it borrows, and whether it is done.\<close>

definition incoming :: "'w MqttClient \<Rightarrow> bool \<times> 'w MqttClient" where
  "incoming c = (False, c)"

text \<open>
  The iterator over incoming messages: the flag is \<^verbatim>\<open>done\<close>, the value \<^verbatim>\<open>Some(item)\<close> or \<^verbatim>\<open>None\<close>.
\<close>

definition incoming_next ::
  "'w Transport \<Rightarrow> bool \<Rightarrow> 'w MqttClient
     \<Rightarrow> (PublishPacket result option \<times> bool \<times> 'w MqttClient) option" where
  "incoming_next tr is_done c =
    (if is_done then Some (None, is_done, c)
     else Option.bind (client_recv tr c) (\<lambda>(r, c').
       case r of
         Inr (Some message) \<Rightarrow> Some (Some (Ok message), is_done, c')
       | Inr None \<Rightarrow> Some (None, True, c')
       | Inl error \<Rightarrow> Some (Some (Err error), True, c')))"

section \<open>Connecting\<close>

text \<open>
  \<^verbatim>\<open>connect_with\<close> runs on the record it builds; before the handshake only the stream of it is
  used.  \<open>fresh_client\<close> is that record, with the instants still to be filled in.
\<close>

definition fresh_client :: "ConnectOptions \<Rightarrow> 'w \<Rightarrow> 'w MqttClient" where
  "fresh_client opts w =
    \<lparr>cl_stream = w,
     cl_frame_reader = FrameReader_with_max_packet_size (co_max_packet_size opts),
     cl_incoming = [],
     cl_max_incoming_messages = co_max_incoming_messages opts,
     cl_next_packet_id = 1,
     cl_keep_alive_secs = co_keep_alive_secs opts,
     cl_ack_timeout = co_ack_timeout opts,
     cl_max_outbound_packet_size = MQTT_MAX_PACKET_SIZE,
     cl_server_capabilities = ServerCapabilities_default,
     cl_last_read_at = 0,
     cl_last_write_at = 0,
     cl_ping_sent_at = None,
     cl_connected = False\<rparr>"

definition client_connect_packet :: "ConnectOptions \<Rightarrow> ConnectPacket result" where
  "client_connect_packet opts =
    (if co_max_packet_size opts > 4294967295
     then Err (InvalidOptions ''maximum packet size exceeds u32'')
     else
       let advertised_max = word_of_nat (co_max_packet_size opts);
           properties = props_push Properties_new MaximumPacketSize (U32 advertised_max);
           properties = props_push properties ReceiveMaximum
             (U16 (word_of_nat (min (co_max_incoming_messages opts) 65535)))
       in Ok \<lparr>cp_protocol_version = 5, cp_clean_start = co_clean_start opts,
             cp_keep_alive = co_keep_alive_secs opts, cp_client_id = co_client_id opts,
             cp_username = co_username opts, cp_password = co_password opts,
             cp_properties = properties\<rparr>)"

text \<open>
  What the client takes from the CONNACK.  The panic of \<open>ServerCapabilities_from_connack\<close> is not
  returning.
\<close>

definition client_accept_connack ::
  "ConnectOptions \<Rightarrow> Packet \<Rightarrow> ('w, unit) client_op" where
  "client_accept_connack opts packet c =
    (case packet of
       Pkt_ConnAck ack \<Rightarrow>
         if ca_reason_code ack \<noteq> 0x00 then Some (Err (ConnectionRefused (ca_reason_code ack)), c)
         else
           andM (returns (validate_connack (co_client_id opts) (co_clean_start opts) ack)) (\<lambda>_ c.
           case ServerCapabilities_from_connack ack of
             None \<Rightarrow> None
           | Some caps \<Rightarrow>
               let c = c\<lparr>cl_server_capabilities := caps\<rparr>;
                   c = (case get_u16 (ca_properties ack) ServerKeepAlive of
                          Some server_keep_alive \<Rightarrow> c\<lparr>cl_keep_alive_secs := server_keep_alive\<rparr>
                        | None \<Rightarrow> c)
               in case get_u32 (ca_properties ack) MaximumPacketSize of
                    Some server_maximum \<Rightarrow>
                      if server_maximum = 0
                      then Some (Err (MalformedPacket
                             ''server maximum packet size must be non-zero''), c)
                      else Some (Ok (), c\<lparr>cl_max_outbound_packet_size := unat server_maximum\<rparr>)
                  | None \<Rightarrow> Some (Ok (), c)) c
     | _ \<Rightarrow> Some (Err (UnexpectedPacket ''expected CONNACK''), c))"

definition client_handshake :: "'w Transport \<Rightarrow> ConnectOptions \<Rightarrow> ('w, unit) client_op" where
  "client_handshake tr opts =
     andM (nowM tr) (\<lambda>t0.
     andM (returns (options_validate (\<lambda>d. instant_checked_add tr t0 d \<noteq> None) opts)) (\<lambda>_.
     andM (deadline_after tr (co_connect_timeout opts) ''connect'') (\<lambda>deadline.
     andM (ioM (tr_set_nonblocking tr False)) (\<lambda>_.
     andM (ioM (tr_set_read_timeout tr (Some (co_connect_timeout opts)))) (\<lambda>_.
     andM (ioM (tr_set_write_timeout tr (Some (co_connect_timeout opts)))) (\<lambda>_.
     andM (nowM tr) (\<lambda>now.
     andM (updM (\<lambda>c. c\<lparr>cl_last_read_at := now, cl_last_write_at := now\<rparr>)) (\<lambda>_.
     andM (returns (and_then (client_connect_packet opts) ConnectPacket_encode)) (\<lambda>bs.
     andM (send_encoded tr bs ''connect'') (\<lambda>_.
     andM (read_packet_until tr (Some deadline)) (\<lambda>packet.
     andM (client_accept_connack opts packet) (\<lambda>_.
     andM (updM (\<lambda>c. c\<lparr>cl_connected := True\<rparr>)) (\<lambda>_.
     andM (ioM (tr_set_read_timeout tr None)) (\<lambda>_.
     (\<lambda>c. ioM (tr_set_write_timeout tr (Some (cl_ack_timeout c))) c)))))))))))))))"

definition connect_with ::
  "'w Transport \<Rightarrow> ConnectOptions \<Rightarrow> 'w \<Rightarrow> 'w MqttClient result option" where
  "connect_with tr opts w =
     Option.bind (client_handshake tr opts (fresh_client opts w)) (\<lambda>(r, c).
       case r of Inl e \<Rightarrow> Some (Err e) | Inr _ \<Rightarrow> Some (Ok c))"

end
