(* ===== verification/Client_Steps.thy ===== *)
theory Client_Steps
  imports Client
begin

text \<open>
  How the operations of the blocking client change it: the locales \<open>client_step\<close> and
  \<open>client_relation\<close>, interpreted for the invariant of the client and for what a session keeps.
\<close>

lemma closing_on_Some:
  "closing_on P m c = Some (r, c') \<longleftrightarrow>
     (\<exists>c1. m c = Some (r, c1) \<and> c' = (case r of Inl e \<Rightarrow> if P e then c1\<lparr>cl_connected := False\<rparr> else c1 | Inr _ \<Rightarrow> c1))"
proof (cases "m c")
  case (Some p)
  then show ?thesis by (cases p; cases "fst p") (auto simp: closing_on_def)
qed (simp add: closing_on_def)

definition keeps ::
  "('w MqttClient \<Rightarrow> 'w MqttClient \<Rightarrow> bool) \<Rightarrow> ('w, 'a) client_op \<Rightarrow> bool" where
  "keeps R m \<longleftrightarrow> (\<forall>c r c'. m c = Some (r, c') \<longrightarrow> R c c')"

section \<open>Relations that every method keeps\<close>

text \<open>
  The elementary changes a method makes to the client, in two groups.  \<open>client_step\<close> has those of a
  method that takes nothing from the stream: calls of the transport other than \<^verbatim>\<open>read\<close>, the closed
  flag, the times and the packet identifier.  \<open>client_relation\<close> adds the reads, the parser and the
  message queue.  A reflexive and transitive relation that holds across each change holds between the
  states before and after every operation.
\<close>

locale client_step =
  fixes tr :: "'w Transport" and R :: "'w MqttClient \<Rightarrow> 'w MqttClient \<Rightarrow> bool"
  assumes R_refl: "R c c"
    and R_trans: "R c1 c2 \<Longrightarrow> R c2 c3 \<Longrightarrow> R c1 c3"
    and R_now: "tr_now tr (cl_stream c) = (t, w) \<Longrightarrow> R c (c\<lparr>cl_stream := w\<rparr>)"
    and R_write: "tr_write tr bs (cl_stream c) = (wr, w) \<Longrightarrow> R c (c\<lparr>cl_stream := w\<rparr>)"
    and R_flush: "tr_flush tr (cl_stream c) = (r, w) \<Longrightarrow> R c (c\<lparr>cl_stream := w\<rparr>)"
    and R_set_nonblocking: "tr_set_nonblocking tr b (cl_stream c) = (r, w) \<Longrightarrow> R c (c\<lparr>cl_stream := w\<rparr>)"
    and R_set_read_timeout: "tr_set_read_timeout tr d (cl_stream c) = (r, w) \<Longrightarrow> R c (c\<lparr>cl_stream := w\<rparr>)"
    and R_set_write_timeout: "tr_set_write_timeout tr d (cl_stream c) = (r, w) \<Longrightarrow> R c (c\<lparr>cl_stream := w\<rparr>)"
    and R_shutdown: "tr_shutdown tr (cl_stream c) = (r, w) \<Longrightarrow> R c (c\<lparr>cl_stream := w\<rparr>)"
    and R_close: "R c (c\<lparr>cl_connected := False\<rparr>)"
    and R_times: "R c (c\<lparr>cl_last_write_at := t\<rparr>)" "R c (c\<lparr>cl_last_read_at := t\<rparr>)"
      "R c (c\<lparr>cl_ping_sent_at := p\<rparr>)"
    and R_next_id: "R c (snd (next_packet_id c))"
begin

abbreviation stable :: "('w, 'a) client_op \<Rightarrow> bool" where
  "stable \<equiv> keeps R"

lemma stableI: "(\<And>c r c'. m c = Some (r, c') \<Longrightarrow> R c c') \<Longrightarrow> stable m"
  by (auto simp: keeps_def)

lemma stableD: "stable m \<Longrightarrow> m c = Some (r, c') \<Longrightarrow> R c c'"
  by (auto simp: keeps_def)

lemma stable_andM: "stable m \<Longrightarrow> (\<And>x. stable (k x)) \<Longrightarrow> stable (andM m k)"
  unfolding keeps_def andM_Some by (blast intro: R_trans)

lemma stable_returns: "stable (returns r)"
  by (auto simp: keeps_def returns_def R_refl)

lemma stable_now: "stable (nowM tr)"
  by (auto simp: keeps_def nowM_def on_stream_def split: prod.splits intro: R_now)

lemma stable_io:
  assumes "\<And>c r w. f (cl_stream c) = (r, w) \<Longrightarrow> R c (c\<lparr>cl_stream := w\<rparr>)"
  shows "stable (ioM f)"
  using assms by (auto simp: keeps_def ioM_def on_stream_def split: prod.splits)

lemma stable_calls:
  "stable (ioM (tr_set_nonblocking tr b))" "stable (ioM (tr_set_read_timeout tr d))"
  "stable (ioM (tr_set_write_timeout tr d))" "stable (ioM (tr_shutdown tr))"
  by (rule stable_io, erule R_set_nonblocking R_set_read_timeout R_set_write_timeout R_shutdown)+

lemma write_all_R:
  assumes "write_all tr bs (cl_stream c) = Some (r, w)"
  shows "R c (c\<lparr>cl_stream := w\<rparr>)"
proof -
  have "\<forall>c. tr' = tr \<longrightarrow> cl_stream c = w0 \<longrightarrow> R c (c\<lparr>cl_stream := snd y\<rparr>)"
    if "write_all tr' bs w0 = Some y" for tr' bs w0 y
    using that
  proof (rule write_all.raw_induct [rotated], goal_cases)
    case (1 loop tr' bs w0 y)
    show ?case
    proof (intro allI impI)
      fix c :: "'w MqttClient"
      assume tr: "tr' = tr" and c: "cl_stream c = w0"
      obtain x w1 where x: "tr_write tr bs w0 = (x, w1)" by force
      have first: "R c (c\<lparr>cl_stream := w1\<rparr>)" using R_write x c by blast
      have IH: "R c (c\<lparr>cl_stream := snd y\<rparr>)" if "loop tr bs' w1 = Some y" for bs'
        using 1(1) that tr R_trans [OF first] by (metis MqttClient.select_convs(1) MqttClient.surjective MqttClient.update_convs(1))
      show "R c (c\<lparr>cl_stream := snd y\<rparr>)"
        using 1(2) x first R_refl [of c] c tr by (cases x) (auto split: if_splits intro: IH)
    qed
  qed
  from this [OF assms] show ?thesis by auto
qed

lemma stable_upd: "(\<And>c. R c (f c)) \<Longrightarrow> stable (updM f)"
  by (auto simp: keeps_def updM_def)

lemma stable_if: "stable m \<Longrightarrow> stable k \<Longrightarrow> stable (if b then m else k)"
  by simp

lemma stable_closing_on: "stable m \<Longrightarrow> stable (closing_on P m)"
proof (rule stableI)
  fix c r c'
  assume m: "stable m" and "closing_on P m c = Some (r, c')"
  then obtain c1 where c1: "m c = Some (r, c1)"
    "c' = (case r of Inl e \<Rightarrow> if P e then c1\<lparr>cl_connected := False\<rparr> else c1 | Inr _ \<Rightarrow> c1)"
    by (auto simp: closing_on_Some)
  show "R c c'"
    using stableD [OF m c1(1)] c1(2) by (cases r) (auto intro: R_trans [OF _ R_close])
qed

lemma stable_observe: "stable (\<lambda>c. Some (f c, c))"
  by (simp add: keeps_def R_refl)

lemmas stable_intros = stable_andM stable_returns stable_now stable_calls stable_upd stable_observe
  R_times R_close R_refl

lemma stable_or_disconnect: "stable (or_disconnect r)"
  by (auto simp: keeps_def or_disconnect_def R_close R_refl split: sum.splits)

lemma stable_send_encoded: "stable (send_encoded tr bs operation)"
proof (rule stableI)
  fix c r c'
  assume s: "send_encoded tr bs operation c = Some (r, c')"
  let ?rest = "\<lambda>r. andM (or_disconnect (map_write_result r operation)) (\<lambda>_.
      \<lambda>c. let (r, c) = on_stream (tr_flush tr) c in
      andM (or_disconnect (map_write_result r operation)) (\<lambda>_.
      andM (nowM tr) (\<lambda>now. updM (\<lambda>c. c\<lparr>cl_last_write_at := now\<rparr>))) c)"
  have f: "stable (\<lambda>c. let (r, c) = on_stream (tr_flush tr) c in
      andM (or_disconnect (map_write_result r operation)) (\<lambda>_.
      andM (nowM tr) (\<lambda>now. updM (\<lambda>c. c\<lparr>cl_last_write_at := now\<rparr>))) c)"
  proof (rule stableI)
    fix c r' c'
    assume "(let (r, c) = on_stream (tr_flush tr) c in
      andM (or_disconnect (map_write_result r operation)) (\<lambda>_.
      andM (nowM tr) (\<lambda>now. updM (\<lambda>c. c\<lparr>cl_last_write_at := now\<rparr>))) c) = Some (r', c')"
    then obtain x w where flush: "tr_flush tr (cl_stream c) = (x, w)" and "andM (or_disconnect (map_write_result x operation)) (\<lambda>_.
      andM (nowM tr) (\<lambda>now. updM (\<lambda>c. c\<lparr>cl_last_write_at := now\<rparr>))) (c\<lparr>cl_stream := w\<rparr>) = Some (r', c')"
      by (auto simp: on_stream_def split: prod.splits)
    from this(2) have "R (c\<lparr>cl_stream := w\<rparr>) c'"
      by (rule stableD [rotated]) (intro stable_intros stable_or_disconnect)
    then show "R c c'" by (rule R_trans [OF R_flush [OF flush]])
  qed
  have "stable (?rest x)" for x
    by (intro stable_andM stable_or_disconnect f)
  then have "R (c\<lparr>cl_stream := w\<rparr>) c'" if "?rest x (c\<lparr>cl_stream := w\<rparr>) = Some (r, c')" for x w
    using that by (rule stableD)
  then show "R c c'"
    using s unfolding send_encoded_def
    by (auto split: if_splits option.splits intro: R_refl R_trans [OF write_all_R])
qed

lemma stable_send_puback: "stable (send_puback tr i)"
  unfolding send_puback_def by (intro stable_intros stable_send_encoded)

lemma stable_service_timers: "stable (service_timers tr dl)"
proof -
  have k: "stable (keep_alive_timer tr now)" for now
  proof (rule stableI)
    fix c r c'
    assume a: "keep_alive_timer tr now c = Some (r, c')"
    have "stable (andM (send_encoded tr PINGREQ_BYTES ''keepalive'') (\<lambda>_.
                andM (nowM tr) (\<lambda>t. updM (\<lambda>c. c\<lparr>cl_ping_sent_at := Some t\<rparr>))))"
      by (intro stable_intros stable_send_encoded)
    with a show "R c c'"
      by (auto simp: keep_alive_timer_def split: if_splits option.splits intro: R_refl R_close stableD)
  qed
  have "stable (\<lambda>c. case dl of Some (at, operation) \<Rightarrow>
         if now \<ge> at then Some (Err (Timeout operation), c) else keep_alive_timer tr now c
     | None \<Rightarrow> keep_alive_timer tr now c)" for now
    by (rule stableI) (auto split: option.splits prod.splits if_splits intro: R_refl stableD [OF k])
  then show ?thesis unfolding service_timers_def by (intro stable_intros)
qed

lemma stable_set_timeout: "stable (set_timeout tr dl)"
  unfolding set_timeout_def
  by (intro stable_intros stableI)
    (auto simp: on_stream_def Let_def split: prod.splits sum.splits
      intro: R_set_read_timeout R_trans [OF R_set_read_timeout] R_close)

lemma stable_packet_read: "stable (packet_read tr p)"
  unfolding packet_read_def by (intro stable_intros) (auto intro: R_times R_refl)

lemma stable_server_disconnect: "stable (server_disconnect p)"
  by (rule stableI) (auto simp: server_disconnect_def Let_def R_close split: if_splits)

lemma stable_protocol_failure: "stable (protocol_failure msg)"
  by (rule stableI) (auto simp: protocol_failure_def R_close)

lemma stable_ack_deadline: "stable (ack_deadline tr s)"
proof (rule stableI)
  fix c r c'
  assume "ack_deadline tr s c = Some (r, c')"
  then have "deadline_after tr (cl_ack_timeout c) s c = Some (r, c')" by (simp add: ack_deadline_def)
  moreover have "stable (deadline_after tr (cl_ack_timeout c) s)"
    unfolding deadline_after_def by (intro stable_intros)
  ultimately show "R c c'" by (rule stableD [rotated])
qed

lemma stable_ensure_connected: "stable ensure_connected"
  by (rule stableI) (simp add: ensure_connected_def R_refl)

lemma stable_next_packet_idM: "stable next_packet_idM"
  by (rule stableI) (use R_next_id in \<open>auto simp: next_packet_idM_def split: prod.splits\<close>, metis snd_conv)

lemma stable_disconnect: "stable (client_disconnect tr)"
proof -
  have d: "stable (andM (returns (DisconnectPacket_encode \<lparr>dc_reason_code = 0x00\<rparr>)) (\<lambda>bs.
         andM (send_encoded tr bs ''disconnect'') (\<lambda>_. updM (\<lambda>c. c\<lparr>cl_connected := False\<rparr>))))"
    by (intro stable_intros stable_send_encoded)
  have "stable (\<lambda>c. if cl_connected c then
         andM (returns (DisconnectPacket_encode \<lparr>dc_reason_code = 0x00\<rparr>)) (\<lambda>bs.
         andM (send_encoded tr bs ''disconnect'') (\<lambda>_. updM (\<lambda>c. c\<lparr>cl_connected := False\<rparr>))) c
       else Some (Ok (), c))"
    by (rule stableI) (auto split: if_splits intro: R_refl stableD [OF d])
  then show ?thesis unfolding client_disconnect_def by (intro stable_intros)
qed

end

locale client_relation = client_step tr R for tr :: "'w Transport" and R :: "'w MqttClient \<Rightarrow> 'w MqttClient \<Rightarrow> bool" +
  assumes R_read: "tr_read tr n (cl_stream c) = (rd, w) \<Longrightarrow> R c (c\<lparr>cl_stream := w\<rparr>)"
    and R_decode: "R c (c\<lparr>cl_frame_reader := snd (try_decode (cl_frame_reader c))\<rparr>)"
    and R_push: "length bs \<le> remaining_capacity (cl_frame_reader c)
        \<Longrightarrow> R c (c\<lparr>cl_frame_reader := frame_push (cl_frame_reader c) bs\<rparr>)"
    and R_enqueue: "length (cl_incoming c) < cl_max_incoming_messages c
        \<Longrightarrow> R c (c\<lparr>cl_incoming := cl_incoming c @ [m]\<rparr>)"
    and R_dequeue: "cl_incoming c = m # ms \<Longrightarrow> R c (c\<lparr>cl_incoming := ms\<rparr>)"
begin

lemma stable_accept_publish: "stable (accept_publish tr p)"
proof (rule stableI)
  fix c r c'
  assume a: "accept_publish tr p c = Some (r, c')"
  let ?ack = "andM (returns (case pub_packet_id p of Some i \<Rightarrow> Ok i
           | None \<Rightarrow> Err (MalformedPacket ''QoS 1 PUBLISH missing packet identifier''))) (\<lambda>i. send_puback tr i)"
  have "stable ?ack" by (intro stable_intros stable_send_puback)
  with a show "R c c'"
    by (auto simp: accept_publish_def Let_def not_le split: if_splits
        intro: R_refl R_enqueue R_trans [OF R_enqueue] stableD)
qed

lemma stable_read_chunk:
  assumes "transport_ok tr"
  shows "stable (read_chunk tr)"
proof (rule stableI)
  fix c r c'
  assume a: "read_chunk tr c = Some (r, c')"
  show "R c c'"
  proof (cases "remaining_capacity (cl_frame_reader c) = 0")
    case True
    with a show ?thesis by (auto simp: read_chunk_def intro: R_close)
  next
    case False
    obtain x w where x: "tr_read tr (min (remaining_capacity (cl_frame_reader c)) 8192) (cl_stream c) = (x, w)"
      by (metis surj_pair)
    show ?thesis
    proof (cases x)
      case (Inl e)
      with a x False show ?thesis
        by (auto simp: read_chunk_def on_stream_def split: if_splits intro: R_read R_trans [OF R_read] R_close)
    next
      case (Inr bs)
      then have len: "length bs \<le> remaining_capacity (cl_frame_reader c)"
        using x assms unfolding transport_ok_def by (metis min.bounded_iff)
      obtain t w' where t: "tr_now tr w = (t, w')" by (metis surj_pair)
      let ?c = "c\<lparr>cl_stream := w'\<rparr>"
      have "R ?c (?c\<lparr>cl_last_read_at := t, cl_frame_reader := frame_push (cl_frame_reader c) bs\<rparr>)"
        using R_trans [OF R_times(2) [of ?c t] R_push [of bs "?c\<lparr>cl_last_read_at := t\<rparr>"]] len by simp
      moreover have "R c ?c"
        using R_trans [OF R_read [OF x] R_now [of "c\<lparr>cl_stream := w\<rparr>" t w']] t by simp
      ultimately have "R c (?c\<lparr>cl_last_read_at := t, cl_frame_reader := frame_push (cl_frame_reader c) bs\<rparr>)"
        by (blast intro: R_trans)
      with a x False Inr t show ?thesis
        by (auto simp: read_chunk_def on_stream_def andM_def nowM_def updM_def split: if_splits
            intro: R_trans [OF R_read R_close])
    qed
  qed
qed

lemma stable_read_packet_until:
  assumes "transport_ok tr"
  shows "stable (read_packet_until tr dl)"
proof -
  have "tr' = tr \<longrightarrow> R c (snd y)" if "read_packet_until tr' dl c = Some y" for tr' dl c y
    using that
  proof (rule read_packet_until.raw_induct [rotated], goal_cases)
    case (1 rpu tr' dl c y)
    show ?case
    proof (intro impI)
      assume tr: "tr' = tr"
      then have "stable (rpu tr dl)" using 1(1) by (fastforce intro: stableI)
      then have loop: "stable (andM (service_timers tr dl) (\<lambda>_.
         andM (set_timeout tr dl) (\<lambda>_. andM (read_chunk tr) (\<lambda>_. rpu tr dl))))"
        using assms by (intro stable_intros stable_service_timers stable_set_timeout stable_read_chunk)
      obtain d fr where d: "try_decode (cl_frame_reader c) = (d, fr)" by (metis surj_pair)
      then have fr: "R c (c\<lparr>cl_frame_reader := fr\<rparr>)" using R_decode [of c] by simp
      obtain r c' where y: "y = (r, c')" by (metis surj_pair)
      have "R (c\<lparr>cl_frame_reader := fr\<rparr>) c'"
        using 1(2) d y tr
        by (cases d)
          (auto split: option.splits intro: R_close stableD [OF loop] stableD [OF stable_packet_read])
      then show "R c (snd y)" using R_trans [OF fr] y by simp
    qed
  qed
  then show ?thesis by (fastforce intro: stableI)
qed

lemma stable_accept_publish_during_ack: "stable (accept_publish_during_ack tr p)"
  unfolding accept_publish_during_ack_def by (intro stable_closing_on stable_accept_publish)

lemma stable_read_ack_packet: "transport_ok tr \<Longrightarrow> stable (read_ack_packet tr dl)"
  unfolding read_ack_packet_def by (intro stable_closing_on stable_read_packet_until)

lemma stable_wait_loop:
  assumes "transport_ok tr"
  shows "stable (wait_loop tr matches failure dl)"
proof -
  have "tr' = tr \<longrightarrow> R c (snd y)" if "wait_loop tr' matches failure dl c = Some y" for tr' matches failure dl c y
    using that
  proof (rule wait_loop.raw_induct [rotated], goal_cases)
    case (1 wl tr' matches failure dl c y)
    show ?case
    proof (intro impI)
      assume tr: "tr' = tr"
      then have wl: "stable (wl tr matches failure dl)" using 1(1) by (fastforce intro: stableI)
      have acc: "stable (andM (accept_publish_during_ack tr p) (\<lambda>_. wl tr matches failure dl))" for p
        by (intro stable_intros stable_accept_publish_during_ack wl)
      obtain r c' where y: "y = (r, c')" by (metis surj_pair)
      show "R c (snd y)"
        using 1(2) unfolding y tr andM_Some [of "read_ack_packet tr dl"]
        by (auto split: option.splits Packet.splits if_splits
            intro: stableD [OF stable_read_ack_packet [OF assms]] R_trans [OF stableD [OF stable_read_ack_packet [OF assms]]]
              R_close R_refl stableD [OF acc] stableD [OF wl] stableD [OF stable_server_disconnect]
              stableD [OF stable_protocol_failure])
    qed
  qed
  then show ?thesis by (fastforce intro: stableI)
qed

lemma stable_wait_for:
  assumes "transport_ok tr"
  shows "stable (wait_for_puback tr i)" "stable (wait_for_suback tr i q)" "stable (wait_for_unsuback tr i)"
proof -
  note a = stable_andM [OF stable_ack_deadline stable_wait_loop [OF assms]]
  show "stable (wait_for_puback tr i)" "stable (wait_for_suback tr i q)" "stable (wait_for_unsuback tr i)"
    unfolding wait_for_puback_def wait_for_suback_def wait_for_unsuback_def by (rule a)+
qed

lemma stable_pop: "stable pop_incoming"
  by (rule stableI) (auto simp: pop_incoming_def split: list.splits intro: R_refl R_dequeue)

lemma stable_publish: "transport_ok tr \<Longrightarrow> stable (client_publish tr topic payload opts)"
  unfolding client_publish_def
  by (intro stable_intros stable_if stable_ensure_connected stable_next_packet_idM stable_send_encoded)
    (auto split: option.splits intro: stable_wait_for stable_returns)

lemma stable_subscribe: "transport_ok tr \<Longrightarrow> stable (client_subscribe tr flt q)"
  unfolding client_subscribe_def
  by (intro stable_intros stable_ensure_connected stable_next_packet_idM stable_send_encoded stable_wait_for)

lemma stable_unsubscribe: "transport_ok tr \<Longrightarrow> stable (client_unsubscribe tr flt)"
  unfolding client_unsubscribe_def
  by (intro stable_intros stable_ensure_connected stable_next_packet_idM stable_send_encoded stable_wait_for)

lemma stable_recv_loop:
  assumes "transport_ok tr"
  shows "stable (recv_loop tr)"
proof -
  have "tr' = tr \<longrightarrow> R c (snd y)" if "recv_loop tr' c = Some y" for tr' c y
    using that
  proof (rule recv_loop.raw_induct [rotated], goal_cases)
    case (1 rl tr' c y)
    show ?case
    proof (intro impI)
      assume tr: "tr' = tr"
      then have rl: "stable (rl tr)" using 1(1) by (fastforce intro: stableI)
      have acc: "stable (andM (accept_publish tr p) (\<lambda>_. pop_incoming))" for p
        by (intro stable_intros stable_accept_publish stable_pop)
      have k: "stable (\<lambda>c. case packet of
         Pkt_Publish p \<Rightarrow> andM (accept_publish tr p) (\<lambda>_. pop_incoming) c
       | Pkt_Disconnect p \<Rightarrow>
           Some (if dc_reason_code p = 0x00 then Ok None
                 else Err (ServerDisconnected (dc_reason_code p)), c\<lparr>cl_connected := False\<rparr>)
       | Pkt_PingResp \<Rightarrow> rl tr c
       | _ \<Rightarrow> protocol_failure ''unexpected packet while receiving'' c)" for packet
        by (cases packet) (auto intro: stable_protocol_failure acc rl stableI R_close)
      obtain r c' where y: "y = (r, c')" by (metis surj_pair)
      show "R c (snd y)"
        using stableD [OF stable_andM [OF stable_read_packet_until [OF assms] k]] 1(2) unfolding y tr by simp
    qed
  qed
  then show ?thesis by (fastforce intro: stableI)
qed

lemma stable_recv:
  assumes "transport_ok tr"
  shows "stable (client_recv tr)"
proof -
  have "stable (\<lambda>c. case cl_incoming c of
       message # rest \<Rightarrow> Some (Ok (Some message), c\<lparr>cl_incoming := rest\<rparr>) | [] \<Rightarrow> recv_loop tr c)"
    by (rule stableI) (auto split: list.splits intro: R_dequeue stableD [OF stable_recv_loop [OF assms]])
  then show ?thesis unfolding client_recv_def by (intro stable_intros stable_ensure_connected)
qed

end

section \<open>The invariant of the client\<close>

text \<open>
  The limits are those of the options: what is buffered of a packet never exceeds the maximum
  packet size, and no more messages wait than the queue admits.
\<close>

definition client_inv :: "ConnectOptions \<Rightarrow> 'w MqttClient \<Rightarrow> bool" where
  "client_inv opts c \<longleftrightarrow> frame_inv (cl_frame_reader c)
     \<and> fr_max_packet_size (cl_frame_reader c) = co_max_packet_size opts
     \<and> cl_max_incoming_messages c = co_max_incoming_messages opts
     \<and> length (cl_incoming c) \<le> co_max_incoming_messages opts \<and> cl_next_packet_id c \<noteq> 0"

lemma next_packet_id_nonzero: "cl_next_packet_id (snd (next_packet_id c)) \<noteq> 0"
  by (simp add: next_packet_id_def Let_def)

lemma next_packet_id_fields [simp]:
  "cl_frame_reader (snd (next_packet_id c)) = cl_frame_reader c"
  "cl_incoming (snd (next_packet_id c)) = cl_incoming c"
  "cl_max_incoming_messages (snd (next_packet_id c)) = cl_max_incoming_messages c"
  "cl_connected (snd (next_packet_id c)) = cl_connected c"
  "cl_max_outbound_packet_size (snd (next_packet_id c)) = cl_max_outbound_packet_size c"
  "cl_server_capabilities (snd (next_packet_id c)) = cl_server_capabilities c"
  "cl_ack_timeout (snd (next_packet_id c)) = cl_ack_timeout c"
  "cl_stream (snd (next_packet_id c)) = cl_stream c"
  "fst (next_packet_id c) = cl_next_packet_id c"
  by (simp_all add: next_packet_id_def Let_def)

lemma client_inv_reader:
  assumes "client_inv opts c"
  shows "client_inv opts (c\<lparr>cl_frame_reader := snd (try_decode (cl_frame_reader c))\<rparr>)"
    "length bs \<le> remaining_capacity (cl_frame_reader c)
      \<Longrightarrow> client_inv opts (c\<lparr>cl_frame_reader := frame_push (cl_frame_reader c) bs\<rparr>)"
  using assms try_decode_result(2,3) [of "cl_frame_reader c"] frame_push_fits(1,3) [of "cl_frame_reader c" bs]
  by (auto simp: client_inv_def)

interpretation inv: client_relation tr "\<lambda>c c'. client_inv opts c \<longrightarrow> client_inv opts c'" for tr opts
  by unfold_locales (auto simp: client_inv_reader, auto simp: client_inv_def next_packet_id_nonzero)

text \<open>A closed client stays closed, and the negotiated limits do not change.\<close>

definition same_session :: "'w MqttClient \<Rightarrow> 'w MqttClient \<Rightarrow> bool" where
  "same_session c c' \<longleftrightarrow> (cl_connected c' \<longrightarrow> cl_connected c)
     \<and> cl_max_incoming_messages c' = cl_max_incoming_messages c
     \<and> cl_max_outbound_packet_size c' = cl_max_outbound_packet_size c
     \<and> cl_server_capabilities c' = cl_server_capabilities c
     \<and> cl_ack_timeout c' = cl_ack_timeout c
     \<and> fr_max_packet_size (cl_frame_reader c') = fr_max_packet_size (cl_frame_reader c)"

lemma try_decode_max [simp]: "fr_max_packet_size (snd (try_decode r)) = fr_max_packet_size r"
proof -
  have "fr_max_packet_size (snd (try_decode_loop r)) = fr_max_packet_size r"
    by (induction r rule: try_decode_loop.induct)
      (subst try_decode_loop.simps, auto split: FrameState.splits sum.splits option.splits prod.splits)
  then show ?thesis by (simp add: try_decode_def split: option.splits)
qed

interpretation session: client_relation tr same_session for tr
  by unfold_locales (auto simp: same_session_def frame_push_def Let_def)

end
