(* ===== verification/Client_Correct.thy ===== *)
theory Client_Correct
  imports Client_Steps
begin

unbundle bit_operations_syntax

text \<open>
  Correctness of the blocking client: what a successful acknowledged operation has seen on the wire,
  that every operation with a deadline returns, the states reachable through the public operations,
  and the cycle of packet identifiers.
\<close>

section \<open>What an acknowledged operation has seen\<close>






section \<open>Every operation with a deadline returns\<close>

text \<open>
  What is asked of the transport: every reading of the clock is later than the one before, no
  call sets it back, and a blocking write returns.
\<close>

definition clock_ok :: "'w Transport \<Rightarrow> ('w \<Rightarrow> instant) \<Rightarrow> bool" where
  "clock_ok tr clk \<longleftrightarrow>
     (\<forall>w t w'. tr_now tr w = (t, w') \<longrightarrow> t = clk w \<and> clk w < clk w')
     \<and> (\<forall>n w r w'. tr_read tr n w = (r, w') \<longrightarrow> clk w \<le> clk w')
     \<and> (\<forall>bs w r w'. tr_write tr bs w = (r, w') \<longrightarrow> clk w \<le> clk w')
     \<and> (\<forall>w r w'. tr_flush tr w = (r, w') \<longrightarrow> clk w \<le> clk w')
     \<and> (\<forall>d w r w'. tr_set_read_timeout tr d w = (r, w') \<longrightarrow> clk w \<le> clk w')"


definition writes_return :: "'w Transport \<Rightarrow> bool" where
  "writes_return tr \<longleftrightarrow> (\<forall>bs w. \<exists>r w'. write_all tr bs w = Some (r, w'))"























section \<open>The handshake and the states of a client\<close>

lemma keeps_inv_accept_connack:
  "keeps (\<lambda>c c'. client_inv opts c \<longrightarrow> client_inv opts c') (client_accept_connack opts' packet)"
  by (auto simp: keeps_def client_accept_connack_def andM_Some returns_def Let_def client_inv_def
      split: Packet.splits if_splits option.splits)

lemma keeps_inv_handshake:
  assumes "transport_ok tr"
  shows "keeps (\<lambda>c c'. client_inv opts c \<longrightarrow> client_inv opts c') (client_handshake tr opts')"
proof -
  have u: "keeps (\<lambda>c c'. client_inv opts c \<longrightarrow> client_inv opts c') (updM f)"
    if "\<And>c. client_inv opts (f c) = client_inv opts c" for f
    using that by (simp add: keeps_def updM_def)
  have i: "keeps (\<lambda>c c'. client_inv opts c \<longrightarrow> client_inv opts c')
      (\<lambda>c. ioM (tr_set_write_timeout tr (Some (cl_ack_timeout c))) c)"
    using inv.stable_calls(3) unfolding keeps_def by blast
  have d: "keeps (\<lambda>c c'. client_inv opts c \<longrightarrow> client_inv opts c') (deadline_after tr t s)" for t s
    unfolding deadline_after_def by (intro inv.stable_intros)
  show ?thesis
    unfolding client_handshake_def
    by (intro inv.stable_andM inv.stable_now inv.stable_calls inv.stable_returns d u i keeps_inv_accept_connack
        inv.stable_send_encoded inv.stable_read_packet_until [OF assms])
      (simp_all add: client_inv_def)
qed

lemma handshake_validated:
  assumes "client_handshake tr opts c = Some (Ok (), c')"
  shows "\<exists>fits. options_validate fits opts = Ok ()"
  using assms by (auto simp: client_handshake_def andM_Some returns_def)

lemma connect_with_handshake:
  assumes "connect_with tr opts w = Some (Ok c)"
  shows "client_handshake tr opts (fresh_client opts w) = Some (Ok (), c)"
proof -
  from assms obtain r c0 where r: "client_handshake tr opts (fresh_client opts w) = Some (r, c0)"
    by (auto simp: connect_with_def bind_eq_Some_conv)
  with assms show ?thesis by (cases r) (simp_all add: connect_with_def)
qed

lemma connect_with_inv:
  assumes "connect_with tr opts w = Some (Ok c)" "transport_ok tr"
  shows "client_inv opts c"
proof -
  note h = connect_with_handshake [OF assms(1)]
  have "co_max_packet_size opts \<le> 268435460"
    using handshake_validated [OF h] by (auto simp: options_validate_Ok)
  then have "client_inv opts (fresh_client opts w)"
    by (simp add: client_inv_def fresh_client_def frame_inv_new usize_max_def)
      (simp add: FrameReader_with_max_packet_size_def)
  with keeps_inv_handshake [OF assms(2)] h show ?thesis unfolding keeps_def by blast
qed

text \<open>The states a program can bring its client into.\<close>

inductive client_reach :: "'w Transport \<Rightarrow> ConnectOptions \<Rightarrow> 'w MqttClient \<Rightarrow> bool" for tr opts where
  reach_connect: "connect_with tr opts w = Some (Ok c) \<Longrightarrow> client_reach tr opts c"
| reach_publish: "client_reach tr opts c \<Longrightarrow> client_publish tr topic payload popts c = Some (r, c')
    \<Longrightarrow> client_reach tr opts c'"
| reach_subscribe: "client_reach tr opts c \<Longrightarrow> client_subscribe tr flt q c = Some (r, c')
    \<Longrightarrow> client_reach tr opts c'"
| reach_unsubscribe: "client_reach tr opts c \<Longrightarrow> client_unsubscribe tr flt c = Some (r, c')
    \<Longrightarrow> client_reach tr opts c'"
| reach_recv: "client_reach tr opts c \<Longrightarrow> client_recv tr c = Some (m, c') \<Longrightarrow> client_reach tr opts c'"

lemma client_reach_inv:
  assumes "client_reach tr opts c" "transport_ok tr"
  shows "client_inv opts c"
  using assms
proof (induction rule: client_reach.induct)
  case (reach_connect w c)
  then show ?case by (blast intro: connect_with_inv)
next
  case (reach_publish c topic payload popts r c')
  then show ?case using inv.stableD [OF inv.stable_publish] by blast
next
  case (reach_subscribe c flt q r c')
  then show ?case using inv.stableD [OF inv.stable_subscribe] by blast
next
  case (reach_unsubscribe c flt r c')
  then show ?case using inv.stableD [OF inv.stable_unsubscribe] by blast
next
  case (reach_recv c m c')
  then show ?case using inv.stableD [OF inv.stable_recv] by blast
qed

section \<open>Packet identifiers\<close>

text \<open>The identifiers are handed out in a cycle through 1 to 65535.\<close>

definition nth_packet_id :: "nat \<Rightarrow> 'w MqttClient \<Rightarrow> u16" where
  "nth_packet_id n c = fst (next_packet_id (((\<lambda>c. snd (next_packet_id c)) ^^ n) c))"

lemma next_packet_id_unat:
  assumes "cl_next_packet_id c \<noteq> 0"
  shows "unat (cl_next_packet_id (snd (next_packet_id c))) = unat (cl_next_packet_id c) mod 65535 + 1"
proof -
  let ?n = "unat (cl_next_packet_id c)"
  have n: "0 < ?n" "?n \<le> 65535" using assms unat_u16_bound [of "cl_next_packet_id c"] by (simp_all add: unat_gt_0)
  have u: "unat (cl_next_packet_id c + 1) = (?n + 1) mod 65536" by (simp add: unat_word_ariths)
  show ?thesis
  proof (cases "?n = 65535")
    case True
    then have "cl_next_packet_id c + 1 = 0" using u by (simp add: unat_eq_0 [symmetric])
    then show ?thesis using True by (simp add: next_packet_id_def Let_def)
  next
    case False
    with n have "?n + 1 < 65536" by simp
    then have v: "unat (cl_next_packet_id c + 1) = ?n + 1" using u by simp
    then have "cl_next_packet_id c + 1 \<noteq> 0" by (metis add_is_0 one_neq_zero unat_0)
    then show ?thesis using v False n by (simp add: next_packet_id_def Let_def)
  qed
qed

lemma nth_packet_id_unat:
  assumes "cl_next_packet_id c \<noteq> 0"
  shows "unat (nth_packet_id n c) = (unat (cl_next_packet_id c) - 1 + n) mod 65535 + 1"
proof (induction n)
  case 0
  then show ?case
    using assms unat_u16_bound [of "cl_next_packet_id c"] by (simp add: nth_packet_id_def unat_gt_0 Suc_leI)
next
  case (Suc n)
  let ?c = "((\<lambda>c. snd (next_packet_id c)) ^^ n) c"
  let ?k = "unat (cl_next_packet_id c) - 1 + n"
  have "cl_next_packet_id ?c \<noteq> 0"
    using assms by (cases n) (simp_all add: next_packet_id_nonzero)
  from next_packet_id_unat [OF this] have "unat (nth_packet_id (Suc n) c) = unat (nth_packet_id n c) mod 65535 + 1"
    by (simp add: nth_packet_id_def)
  also have "\<dots> = (?k mod 65535 + 1) mod 65535 + 1" by (simp only: Suc)
  also have "\<dots> = (?k + 1) mod 65535 + 1" by (simp only: mod_add_left_eq)
  finally show ?case by simp
qed

lemma nth_packet_id_cycle:
  assumes "cl_next_packet_id c \<noteq> 0"
  shows "nth_packet_id n c \<noteq> 0" "m < n \<Longrightarrow> n < m + 65535 \<Longrightarrow> nth_packet_id m c \<noteq> nth_packet_id n c"
    "nth_packet_id (n + 65535) c = nth_packet_id n c"
proof -
  note u = nth_packet_id_unat [OF assms]
  show "nth_packet_id n c \<noteq> 0" using u [of n] by auto
  show "nth_packet_id (n + 65535) c = nth_packet_id n c"
    by (rule word_unat_eq_iff [THEN iffD2]) (simp add: u add.assoc [symmetric])
  show "nth_packet_id m c \<noteq> nth_packet_id n c" if "m < n" "n < m + 65535"
  proof
    let ?b = "unat (cl_next_packet_id c) - 1"
    assume "nth_packet_id m c = nth_packet_id n c"
    then have "(?b + n) mod 65535 = (?b + m) mod 65535" using u [of m] u [of n] by simp
    then have "65535 dvd (?b + n) - (?b + m)" using that(1) by (subst (asm) mod_eq_dvd_iff_nat) simp_all
    then have "65535 dvd n - m" by simp
    then show False using that by (auto dest: dvd_imp_le)
  qed
qed

section \<open>A scripted transport\<close>

text \<open>
  A transport that accepts every write, reads the given chunks and ticks with every reading of the clock.
  It keeps the bytes that were read.
\<close>

type_synonym script = "instant \<times> bytes list \<times> bytes"

definition scripted :: "script Transport" where
  "scripted =
    \<lparr>tr_write = (\<lambda>bs w. (Ok (length bs), w)),
     tr_flush = (\<lambda>w. (Ok (), w)),
     tr_read = (\<lambda>n (t, cs, h). case cs of [] \<Rightarrow> (Ok [], (t, cs, h)) | c # cs \<Rightarrow> (Ok (take n c), (t, cs, h @ take n c))),
     tr_set_nonblocking = (\<lambda>b w. (Ok (), w)),
     tr_set_read_timeout = (\<lambda>d w. (Ok (), w)),
     tr_set_write_timeout = (\<lambda>d w. (Ok (), w)),
     tr_shutdown = (\<lambda>w. (Ok (), w)),
     tr_now = (\<lambda>(t, cs, h). (t, (t + 1, cs, h))),
     tr_instant_max = 2 ^ 64\<rparr>"

lemma scripted_ops [simp]:
  "tr_write scripted bs w = (Ok (length bs), w)" "tr_flush scripted w = (Ok (), w)"
  "tr_read scripted n (t, [], h) = (Ok [], (t, [], h))"
  "tr_read scripted n (t, ch # cs, h) = (Ok (take n ch), (t, cs, h @ take n ch))"
  "tr_set_nonblocking scripted b w = (Ok (), w)" "tr_set_read_timeout scripted d w = (Ok (), w)"
  "tr_set_write_timeout scripted d w = (Ok (), w)" "tr_shutdown scripted w = (Ok (), w)"
  "tr_now scripted (t, cs, h) = (t, (Suc t, cs, h))" "tr_instant_max scripted = 2 ^ 64"
  by (simp_all add: scripted_def)

lemma scripted_write_all [simp]: "write_all scripted bs w = Some (Ok (), w)"
  by (subst write_all.simps, subst write_all.simps) simp

lemma scripted_ok: "transport_ok scripted" "clock_ok scripted fst" "writes_return scripted"
proof -
  show "writes_return scripted" by (simp add: writes_return_def)
qed (auto simp: transport_ok_def clock_ok_def scripted_def split: list.splits)

lemma CONNACK_frame:
  "try_decode \<lparr>fr_buf = [0x20, 3, 0, 0, 0], fr_state = ReadingHeader, fr_max_packet_size = 1048576, fr_overflow_size = None\<rparr>
   = (Ok (Some (Pkt_ConnAck \<lparr>ca_session_present = False, ca_reason_code = 0, ca_properties = Properties_new\<rparr>)),
     \<lparr>fr_buf = [], fr_state = ReadingHeader, fr_max_packet_size = 1048576, fr_overflow_size = None\<rparr>)"
  by (simp add: try_decode_def try_decode_loop.simps decode_fixed_header_def eval_defs PacketType_from_u8_def checked_add_def
     Packet_decode_def ConnAckPacket_decode_def is_connack_reason_code_def props_decode_for_def props_decode_inner_def)

lemma PUBACK_frame:
  "try_decode \<lparr>fr_buf = [0x40, 2, 0, 1], fr_state = ReadingHeader, fr_max_packet_size = 1048576, fr_overflow_size = None\<rparr>
   = (Ok (Some (Pkt_PubAck \<lparr>pa_packet_id = 1, pa_reason_code = 0\<rparr>)),
     \<lparr>fr_buf = [], fr_state = ReadingHeader, fr_max_packet_size = 1048576, fr_overflow_size = None\<rparr>)"
  by (simp add: try_decode_def try_decode_loop.simps decode_fixed_header_def eval_defs PacketType_from_u8_def checked_add_def
     Packet_decode_def PubAckPacket_decode_def is_puback_reason_code_def decode_tail_properties_def)

lemma empty_frame:
  "try_decode \<lparr>fr_buf = [], fr_state = ReadingHeader, fr_max_packet_size = mx, fr_overflow_size = None\<rparr>
   = (Ok None, \<lparr>fr_buf = [], fr_state = ReadingHeader, fr_max_packet_size = mx, fr_overflow_size = None\<rparr>)"
  by (simp add: try_decode_def try_decode_loop.simps)


lemmas client_eval = andM_def nowM_def ioM_def updM_def returns_def on_stream_def or_disconnect_def
  map_write_result_def from_io_def instant_checked_add_def

definition test_client :: "bytes list \<Rightarrow> nat \<Rightarrow> script MqttClient" where
  "test_client cs t = \<lparr>cl_stream = (t, cs, [0x20, 3, 0, 0, 0]),
     cl_frame_reader = \<lparr>fr_buf = [], fr_state = ReadingHeader, fr_max_packet_size = 1048576, fr_overflow_size = None\<rparr>,
     cl_incoming = [], cl_max_incoming_messages = 256, cl_next_packet_id = 1, cl_keep_alive_secs = 60,
     cl_ack_timeout = 10000000000, cl_max_outbound_packet_size = 268435460, cl_server_capabilities = ServerCapabilities_default,
     cl_last_read_at = 7, cl_last_write_at = 3, cl_ping_sent_at = None, cl_connected = True\<rparr>"

lemma send_encoded_scripted:
  "length bs \<le> cl_max_outbound_packet_size c \<Longrightarrow> cl_stream c = (t, cs, h) \<Longrightarrow>
    send_encoded scripted bs s c = Some (Ok (), c\<lparr>cl_stream := (Suc t, cs, h), cl_last_write_at := t\<rparr>)"
  by (simp add: send_encoded_def client_eval)

lemma read_scripted:
  assumes "cl_frame_reader c = \<lparr>fr_buf = [], fr_state = ReadingHeader, fr_max_packet_size = 1048576, fr_overflow_size = None\<rparr>"
    "cl_stream c = (t, ch # cs, h)" "ch \<noteq> []" "length ch \<le> 8192" "case dl of None \<Rightarrow> True | Some (at, _) \<Rightarrow> t < at" "p \<noteq> Pkt_PingResp"
    "try_decode \<lparr>fr_buf = ch, fr_state = ReadingHeader, fr_max_packet_size = 1048576, fr_overflow_size = None\<rparr>
      = (Ok (Some p), \<lparr>fr_buf = [], fr_state = ReadingHeader, fr_max_packet_size = 1048576, fr_overflow_size = None\<rparr>)"
    "\<not> cl_connected c \<or> cl_ping_sent_at c = None \<and> cl_keep_alive_secs c = 60 \<and> t - cl_last_write_at c < 60000000000"
  shows "read_packet_until scripted dl c =
    Some (Ok p, c\<lparr>cl_stream := (t + 4, cs, h @ ch), cl_last_read_at := t + 3\<rparr>)"
proof -
  have "service_timers scripted dl c = Some (Ok (), c\<lparr>cl_stream := (Suc t, ch # cs, h)\<rparr>)"
    using assms(2,5,8)
    by (cases dl) (auto simp: service_timers_def client_eval keep_alive_timer_def ping_interval_def from_secs_def)
  then show ?thesis
    using assms
    apply (cases c)
    apply (subst read_packet_until.simps)
    apply (simp add: empty_frame client_eval set_timeout_def read_chunk_def remaining_capacity_def frame_push_def)
    apply (subst read_packet_until.simps)
    apply (simp add: packet_read_def client_eval)
    done
qed

definition test_options :: ConnectOptions where
  "test_options = ConnectOptions_new [0x61]"

lemma handshake_scripted:
  "connect_with scripted test_options (0, [0x20, 3, 0, 0, 0] # cs, []) = Some (Ok (test_client cs 8))"
  by (simp add: connect_with_def client_handshake_def client_eval options_validate_def deadline_after_def
    fresh_client_def test_options_def ConnectOptions_new_def ConnectOptions_default_def from_secs_def from_millis_def
    DEFAULT_MAX_PACKET_SIZE_def
    client_connect_packet_def ConnectPacket_encode_def PROTOCOL_VERSION_5_def PROTOCOL_NAME_def props_push_def Properties_new_def 
    send_encoded_scripted MQTT_MAX_PACKET_SIZE_def connect_flags_def eval_defs
    FrameReader_with_max_packet_size_def encode_fixed_header_def
    read_scripted [OF _ _ _ _ _ _ CONNACK_frame] client_accept_connack_def validate_connack_def
    ServerCapabilities_from_connack_def get_byte_def get_u16_def get_u32_def ServerCapabilities_default_def
    test_client_def) 

lemma publish_scripted:
  "client_publish scripted [0x61] [1, 2] (with_qos PublishOptions_default AtLeastOnce) (test_client [[0x40, 2, 0, 1]] 8) =
     Some (Ok (), (test_client [] 14)\<lparr>cl_stream := (14, [], [0x20, 3, 0, 0, 0, 0x40, 2, 0, 1]), cl_next_packet_id := 2, cl_last_read_at := 13, cl_last_write_at := 8\<rparr>)"
  by (simp add: client_publish_def client_eval ensure_connected_def validate_publish_def ServerCapabilities_default_def
    with_qos_def PublishOptions_default_def Properties_new_def next_packet_idM_def next_packet_id_def
    PublishPacket_encode_def check_publish_id_def publish_flags_def encode_fixed_header_def eval_defs 
    send_encoded_scripted test_client_def wait_for_puback_def ack_deadline_def deadline_after_def
    wait_loop.simps read_ack_packet_def closing_on_def read_scripted [OF _ _ _ _ _ _ PUBACK_frame]
    puback_matches_def validate_ack_code_def)

section \<open>Correctness of the blocking client\<close>

text \<open>C11: In every state a program can bring a client into, over any transport that keeps the
  contract of reading and writing, the message queue and the bytes buffered of a packet are within
  the configured limits, the next packet identifier is not zero, and the parser state is
  consistent.\<close>

theorem client_reachable_inv:
  assumes "client_reach tr opts c" "transport_ok tr"
  shows "length (cl_incoming c) \<le> co_max_incoming_messages opts
    \<and> length (fr_buf (cl_frame_reader c)) \<le> co_max_packet_size opts
    \<and> cl_next_packet_id c \<noteq> 0 \<and> frame_inv (cl_frame_reader c)"
  using client_reach_inv [OF assms] by (auto simp: client_inv_def frame_inv_def)

theorem client_reachable_inv_witness:
  "\<exists>c. client_reach scripted test_options c \<and> cl_next_packet_id c = 2 \<and> frame_inv (cl_frame_reader c)"
proof -
  let ?c = "(test_client [] 14)\<lparr>cl_stream := (14, [], [0x20, 3, 0, 0, 0, 0x40, 2, 0, 1]), cl_next_packet_id := 2, cl_last_read_at := 13, cl_last_write_at := 8\<rparr>"
  have "client_reach scripted test_options (test_client [[0x40, 2, 0, 1]] 8)"
    by (rule reach_connect [OF handshake_scripted])
  then have "client_reach scripted test_options ?c"
    by (rule reach_publish [OF _ publish_scripted])
  with client_reachable_inv [OF this scripted_ok(1)] show ?thesis by (intro exI [of _ ?c]) simp
qed





text \<open>Packet identifiers are never zero, any two of 65535 consecutive ones differ, and then the
  cycle starts again.\<close>

lemma packet_ids_cycle:
  assumes "cl_next_packet_id c \<noteq> 0"
  shows "nth_packet_id n c \<noteq> 0
    \<and> (m < n \<longrightarrow> n < m + 65535 \<longrightarrow> nth_packet_id m c \<noteq> nth_packet_id n c)
    \<and> nth_packet_id (n + 65535) c = nth_packet_id n c"
  using nth_packet_id_cycle [OF assms] by blast



end
