(* ===== verification/Async_Promises.thy ===== *)
theory Async_Promises
  imports Async_Correct Client_Correct
begin

text \<open>
  What the asynchronous client promises: its reachable states, the stream it writes, its packet
  identifiers, the answer every caller gets, acknowledgements, flow control, and responses.
\<close>

section \<open>A concrete connection\<close>

definition test_connection :: "test_world \<Rightarrow> test_world MqttConnection" where
  "test_connection w = new_connection test_options
     \<lparr>ca_session_present = False, ca_reason_code = 0, ca_properties = Properties_new\<rparr>
     ServerCapabilities_default 5 w"

definition connect_bytes :: bytes where
  "connect_bytes = (case and_then (async_connect_packet test_options) ConnectPacket_encode of
     Inr bs \<Rightarrow> bs | Inl _ \<Rightarrow> [])"

lemma connect_bytes_encoded: "and_then (async_connect_packet test_options) ConnectPacket_encode = Ok connect_bytes"
  by (simp add: connect_bytes_def async_connect_packet_def test_options_def ConnectOptions_new_def
      ConnectOptions_default_def DEFAULT_MAX_PACKET_SIZE_def ConnectPacket_encode_def PROTOCOL_VERSION_5_def
      PROTOCOL_NAME_def props_push_def Properties_new_def connect_flags_def eval_defs encode_fixed_header_def
      MQTT_MAX_PACKET_SIZE_def)

lemma test_read_connack:
  "5 < deadline \<Longrightarrow>
    read_packet_blocking (rt_transport test_runtime) 1048576 deadline (cs, [0x20, 3, 0, 0, 0] @ i, out) =
     Some (Ok (Pkt_ConnAck \<lparr>ca_session_present = False, ca_reason_code = 0, ca_properties = Properties_new\<rparr>),
       (cs, i, out))"
  by (simp add: read_packet_blocking_def read_header_loop.simps test_read_exact andM_def returns_def
      decode_fixed_header_def eval_defs PacketType_from_u8_def checked_add_def
      Packet_decode_def ConnAckPacket_decode_def is_connack_reason_code_def props_decode_for_def props_decode_inner_def)

lemma test_steps:
  "nowW (rt_transport test_runtime) w = Some (Ok 5, w)"
  "5 < d \<Longrightarrow> connect_remaining (rt_transport test_runtime) d w = Some (Ok (d - 5), w)"
  "5 < d \<Longrightarrow> set_connect_timeouts (rt_transport test_runtime) d w = Some (Ok (), w)"
  "ioW (tr_set_read_timeout (rt_transport test_runtime) x) w = Some (Ok (), w)"
  "ioW (tr_set_write_timeout (rt_transport test_runtime) x) w = Some (Ok (), w)"
  "ioW (tr_set_nonblocking (rt_transport test_runtime) b) w = Some (Ok (), w)"
  by (simp_all add: test_eval set_connect_timeouts_def from_io_def)

lemma test_handshake:
  "async_connect_with (rt_transport test_runtime) test_options (cs, [0x20, 3, 0, 0, 0] @ i, out) =
     Some (Ok (\<lparr>ac_max_packet_size = 268435460\<rparr>, test_connection (cs, i, out @ connect_bytes)),
       (cs, i, out @ connect_bytes))"
proof -
  have sz: "co_max_packet_size test_options = 1048576" "co_connect_timeout test_options = from_secs 10"
    by (simp_all add: test_options_def ConnectOptions_new_def ConnectOptions_default_def DEFAULT_MAX_PACKET_SIZE_def)
  have valid: "options_validate (\<lambda>d. instant_checked_add (rt_transport test_runtime) 5 d \<noteq> None) test_options = Ok ()"
    by (simp add: options_validate_def test_options_def ConnectOptions_new_def ConnectOptions_default_def
        DEFAULT_MAX_PACKET_SIZE_def from_secs_def from_millis_def MQTT_MAX_PACKET_SIZE_def instant_checked_add_def eval_defs)
  have t: "0 < from_secs 10" by (simp add: from_secs_def)
  have limit: "instant_checked_add (rt_transport test_runtime) 5 (from_secs 10) = Some (5 + from_secs 10)"
    by (simp add: instant_checked_add_def from_secs_def)
  have caps: "validate_connack (co_client_id test_options) (co_clean_start test_options)
       \<lparr>ca_session_present = False, ca_reason_code = 0, ca_properties = Properties_new\<rparr> = Ok ()"
    "ServerCapabilities_from_connack
       \<lparr>ca_session_present = False, ca_reason_code = 0, ca_properties = Properties_new\<rparr> = Some ServerCapabilities_default"
    by (simp_all add: test_options_def ConnectOptions_new_def ConnectOptions_default_def validate_connack_def
      ServerCapabilities_from_connack_def get_byte_def get_u16_def get_u32_def ServerCapabilities_default_def
      Properties_new_def)
  have peer: "cn_peer_max_packet_size (test_connection w) = 268435460" for w
    by (simp add: test_connection_def new_connection_def get_u32_def Properties_new_def)
  show ?thesis
    by (simp add: async_connect_with_def connect_deadline_def connect_with_deadline_def finish_handshake_def andM_def returns_def
        test_steps t valid limit sz caps map_connect_io_def connect_bytes_encoded test_write_all
        test_read_connack [simplified] expect_connack_def peer flip: test_connection_def
        del: not_None_eq)
qed


section \<open>Reachable states\<close>

text \<open>C3: In every state the driver can reach over any transport that keeps the contract of reading
  and writing, whatever its peer sends and its handles ask: the byte counter is exact and within the
  configured limit; every queued frame is a whole control packet within the broker's size limit, and
  only the first may be partly written; packet identifiers in use are distinct, not zero, and no more
  than the command capacity; so are the pending requests; the parser buffer is within its limit.\<close>

theorem driver_reachable_inv:
  assumes "driver_reach rt opts s" "transport_ok (rt_transport rt)"
  shows "cn_outbound_bytes s = queued_bytes s \<and> queued_bytes s \<le> co_max_outbound_queue_bytes opts
    \<and> (\<forall>f \<in> set (cn_outbound s). control_frame (of_bytes f) \<and> of_offset f < length (of_bytes f)
         \<and> length (of_bytes f) \<le> cn_peer_max_packet_size s)
    \<and> (\<forall>f \<in> set (tl (cn_outbound s)). of_offset f = 0)
    \<and> distinct (map fst (cn_pending_acks s)) \<and> 0 \<notin> fst ` set (cn_pending_acks s)
    \<and> length (cn_pending_acks s) \<le> co_command_capacity opts
    \<and> distinct (map fst (cn_pending_requests s))
    \<and> length (cn_pending_requests s) \<le> co_command_capacity opts
    \<and> cn_next_packet_id s \<noteq> 0 \<and> frame_inv (cn_frame_reader s)"
  using driver_reach_limits [OF assms] by (simp add: driver_inv_def option_limits_def)

lemma test_reach: "driver_reach test_runtime test_options (test_connection w)"
proof -
  obtain cs i out where w: "w = (cs, i, out)" by (cases w)
  have "driver_reach test_runtime test_options ((test_connection (cs, i, connect_bytes))\<lparr>cn_stream := w\<rparr>)"
    by (rule driver_reach.world [OF driver_reach.connected [OF test_handshake [of cs i "[]", simplified]]])
  then show ?thesis by (simp add: test_connection_def new_connection_def)
qed

text \<open>A QoS 1 publish is taken from the channel, queued, and written in three pieces.\<close>

definition test_publish :: Command where
  "test_publish = Cmd_Publish [0x61] [1] (with_qos PublishOptions_default AtLeastOnce) 7"

definition test_publish_bytes :: bytes where
  "test_publish_bytes = [0x32, 7, 0, 1, 0x61, 0, 1, 0, 1]"

definition test_pending :: "test_world \<Rightarrow> test_world MqttConnection" where
  "test_pending w = (test_connection w)\<lparr>cn_next_packet_id := 2, cn_pending_acks :=
     [(1, \<lparr>pk_deadline = 5 + from_secs 10, pk_timeout_label = ''publish acknowledgement'', pk_kind = Ack_Publish 7\<rparr>)]\<rparr>"

definition test_queued :: "test_world \<Rightarrow> test_world MqttConnection" where
  "test_queued w = (test_pending w)\<lparr>cn_outbound_bytes := 9, cn_outbound :=
     [\<lparr>of_bytes = test_publish_bytes, of_offset = 0, of_action = Act_None, of_request_correlation = None\<rparr>]\<rparr>"

lemma test_connection_eq:
  "test_connection w =
    \<lparr>cn_stream = w, cn_frame_reader = FrameReader_with_max_packet_size 1048576,
     cn_request_lifecycle = RequestLifecycle_new 64, cn_outbound = [], cn_outbound_bytes = 0,
     cn_pending_acks = [], cn_next_packet_id = 1, cn_last_write_at = 5, cn_ping_outstanding_since = None,
     cn_keep_alive_secs = 60, cn_peer_max_packet_size = 268435460, cn_peer_receive_maximum = 65535,
     cn_server_capabilities = ServerCapabilities_default, cn_max_outbound_queue_bytes = 4194304,
     cn_max_pending_operations = 64, cn_ack_timeout = from_secs 10, cn_poll_interval = from_millis 2,
     cn_closing = False, cn_command_channel_closed = False, cn_needs_flush = False,
     cn_flush_actions = [], cn_ping_queued = False, cn_terminal_event_sent = False,
     cn_pending_requests = [], cn_response_subscriptions = [], cn_sent = []\<rparr>"
  by (simp add: test_connection_def new_connection_def test_options_def ConnectOptions_new_def
      ConnectOptions_default_def DEFAULT_MAX_PACKET_SIZE_def get_u16_def get_u32_def Properties_new_def)

lemma test_reserve: "reserve_packet_id (test_connection w) = (Ok 1, (test_connection w)\<lparr>cn_next_packet_id := 2\<rparr>)"
  unfolding reserve_packet_id_def
  by (subst numeral_eq_Suc, subst reserve_loop.simps) (simp add: test_connection_eq bump_packet_id_def)

lemma test_begin_publish:
  "process_command test_runtime test_publish (test_connection w) = Some (Ok (), test_queued w)"
proof -
  have "await_ack test_runtime 1 (Ack_Publish 7) ''publish acknowledgement'' test_publish_bytes
      ((test_connection w)\<lparr>cn_next_packet_id := 2\<rparr>) = Some (Ok (), test_queued w)"
    by (simp add: await_ack_def insert_pending_ack_def test_connection_eq conn_now_def instant_checked_add_def
        from_secs_def enqueue_def enqueue_with_action_def test_publish_bytes_def checked_add_def usize_max_def
        test_queued_def test_pending_def)
  moreover have "PublishPacket_encode
      \<lparr>pub_topic = [0x61], pub_packet_id = Some 1, pub_payload = [1], pub_qos = AtLeastOnce, pub_retain = False,
       pub_dup = False, pub_properties = Properties_new\<rparr> = Ok test_publish_bytes"
    by (simp add: PublishPacket_encode_def check_publish_id_def publish_flags_def encode_fixed_header_def eval_defs
      test_publish_bytes_def Properties_new_def)
  moreover have "cn_closing (test_connection w) = False" "cn_peer_receive_maximum (test_connection w) = 65535"
    "cn_server_capabilities (test_connection w) = ServerCapabilities_default" "cn_pending_acks (test_connection w) = []"
    by (simp_all add: test_connection_eq)
  moreover have "validate_topic_name [0x61] = Ok ()" by (simp add: validate_topic_name_def eval_defs)
  ultimately show ?thesis
    by (simp add: process_command_def test_publish_def begin_publish_def publish_id_def test_reserve
        with_qos_def PublishOptions_default_def validate_publish_def ServerCapabilities_default_def
        outgoing_qos1_count_def)
qed

lemma test_drain:
  "drain_commands test_runtime (test_connection ([test_publish], i, out)) = Some (Ok (), test_queued ([], i, out))"
proof -
  have "drain_loop test_runtime (Suc (Suc n)) (test_connection ([test_publish], i, out))
      = Some (Ok (), test_queued ([], i, out))" for n
    using test_begin_publish [of "([], i, out)"]
    by (simp add: conn_io_def andM_def test_connection_eq test_queued_def test_pending_def)
  from this [of 62] show ?thesis by (simp add: drain_commands_def test_connection_eq)
qed

lemma test_flush:
  "flush_outbound test_runtime (test_queued ([], i, out)) = Some (Ok (), test_pending ([], i, out @ test_publish_bytes))"
  by (simp add: flush_outbound_def test_queued_def test_pending_def test_connection_eq
      andM_def write_loop.simps conn_io_def advance_front_def conn_now_def test_publish_bytes_def
      pureM_def returns_def flush_accepted_def complete_written_def)

lemma test_queued_reach: "driver_reach test_runtime test_options (test_queued ([], i, out))"
  by (rule driver_reach.phase [where m = "drain_commands test_runtime", OF test_reach _ test_drain])
    (simp add: driver_phases_def turn_phases_def)

theorem driver_reachable_inv_witness:
  "\<exists>s. driver_reach test_runtime test_options s \<and> cn_outbound_bytes s = 9 \<and> queued_bytes s = 9
     \<and> map fst (cn_pending_acks s) = [1]"
proof -
  let ?s = "test_queued ([], [], [])"
  have "driver_reach test_runtime test_options ?s" by (rule test_queued_reach)
  with driver_reachable_inv [OF this test_ok(1)] show ?thesis
    by (intro exI [of _ ?s]) (simp add: test_queued_def test_pending_def)
qed

section \<open>The stream\<close>

inductive driver_exec :: "'w Runtime \<Rightarrow> 'w MqttConnection \<Rightarrow> 'w MqttConnection \<Rightarrow> bool" for rt where
  start: "driver_exec rt s s"
| step: "driver_exec rt s0 s \<Longrightarrow> m \<in> turn_phases rt \<Longrightarrow> m s = Some (Ok (), s') \<Longrightarrow> driver_exec rt s0 s'"

lemma driver_exec_on_wire:
  "driver_exec rt s0 s \<Longrightarrow> on_wire rt wire base s0 \<Longrightarrow> on_wire rt wire base s"
  by (induction rule: driver_exec.induct) (auto dest: wire.turn_phase_I)

lemma connected_on_wire:
  assumes "async_connect_with (rt_transport rt) opts w = Some (Ok (client, s), w')"
    and "transport_ok (rt_transport rt)" "wire_ok rt wire"
  shows "on_wire rt wire (wire (cn_stream s)) s"
proof -
  from assms(1) obtain connack caps now where s: "s = new_connection opts connack caps now w'" "co_max_packet_size opts \<le> 4294967295"
    by (rule async_connect_with_fresh)
  then have "driver_inv s" by (simp add: driver_inv_new_connection)
  moreover have "started s = []" by (simp add: s(1) started_def new_connection_def)
  ultimately
  show ?thesis using assms(2,3) by (auto simp: on_wire_def framed_def intro: exI [of _ "[]"])
qed

text \<open>C9: After the handshake, the stream carries nothing but whole control packets, one after the
  other, followed at most by the first part of one more: after every phase of every turn of the
  driver, also when the phase ends in an error, and when \<open>run\<close> returns.  Cancelled requests and
  partial writes do not break the framing.\<close>

theorem driver_wire_framing:
  assumes "async_connect_with (rt_transport rt) opts w = Some (Ok (client, s0), w')"
    and "transport_ok (rt_transport rt)" "wire_ok rt wire"
  shows "(driver_exec rt s0 s \<longrightarrow> m \<in> driver_phases rt \<longrightarrow> m s = Some (r, s') \<longrightarrow>
            framed_or_cut wire (wire (cn_stream s0)) s')
    \<and> (driver_exec rt s0 s \<longrightarrow> run rt s = Some (r, s') \<longrightarrow> framed_or_cut wire (wire (cn_stream s0)) s')"
proof -
  have "on_wire rt wire (wire (cn_stream s0)) s" if "driver_exec rt s0 s"
    by (rule driver_exec_on_wire [OF that connected_on_wire [OF assms]])
  then show ?thesis
    using wire.phase_J [of m rt wire "wire (cn_stream s0)" s r s'] wire.run_J [of rt wire "wire (cn_stream s0)" s r s']
    by blast
qed

theorem driver_wire_framing_witness:
  "framed_or_cut (snd \<circ> snd) connect_bytes (test_pending ([], [], connect_bytes @ test_publish_bytes))"
proof -
  have "driver_exec test_runtime (test_connection ([test_publish], [], connect_bytes)) (test_queued ([], [], connect_bytes))"
    by (rule driver_exec.step [where m = "drain_commands test_runtime", OF driver_exec.start _ test_drain]) (simp add: turn_phases_def)
  moreover have "flush_outbound test_runtime \<in> driver_phases test_runtime"
    by (simp add: driver_phases_def turn_phases_def)
  moreover note test_flush [of "[]" connect_bytes]
  moreover have "cn_stream (test_connection w) = w" for w by (simp add: test_connection_eq)
  ultimately show ?thesis
    using driver_wire_framing [OF test_handshake [of "[test_publish]" "[]" "[]", simplified] test_ok]
    by (metis comp_apply snd_conv)
qed

section \<open>Packet identifiers\<close>

text \<open>C21: Reserving a packet identifier returns one that is not zero and that no pending operation
  uses, and changes nothing but the counter; it fails only when all 65535 are in use, so never while
  fewer operations are pending.\<close>

theorem packet_id_reservation:
  assumes "driver_inv s" "reserve_packet_id s = (r, s')"
  shows "(case r of Inr i \<Rightarrow> i \<noteq> 0 \<and> map_of (cn_pending_acks s) i = None
      | Inl e \<Rightarrow> e = QueueFull ''packet identifiers'' \<and> (\<forall>i. i \<noteq> 0 \<longrightarrow> map_of (cn_pending_acks s) i \<noteq> None))
    \<and> s' = s\<lparr>cn_next_packet_id := cn_next_packet_id s'\<rparr> \<and> driver_inv s'
    \<and> (length (cn_pending_acks s) < 65535 \<longrightarrow> is_ok r)"
proof -
  note nz = driver_inv_next_id [OF assms(1)]
  note spec = reserve_packet_id_spec [OF nz assms(2)]
  have "driver_inv s'"
    using assms(1) spec(4) by (subst spec(3)) (simp add: driver_inv_def queued_bytes_def)
  then show ?thesis
    using spec free_id_exists [of s] by (cases r) (auto, metis option.distinct(1))
qed

theorem packet_id_reservation_witness:
  "fst (reserve_packet_id (test_queued ([], [], []))) \<noteq> Ok 1 \<and> is_ok (fst (reserve_packet_id (test_queued ([], [], []))))"
proof -
  let ?s = "test_queued ([], [], [])"
  have "driver_inv ?s" using driver_reach_limits [OF test_queued_reach test_ok(1)] by blast
  from packet_id_reservation [OF this surjective_pairing] show ?thesis
    by (auto simp: test_queued_def test_pending_def split: sum.splits)
qed

section \<open>Every caller is answered\<close>

text \<open>C13: A command the driver processes is accounted for exactly once: its channel is answered, or
  held in one of the tables.  The channels of other callers are neither lost nor duplicated.  (A
  request whose future was already dropped is skipped.)\<close>

theorem commands_accounted:
  assumes "driver_inv s" "transport_ok (rt_transport rt)" "process_command rt command s = Some (r, s')"
    and "\<And>q result. command = Cmd_Request q result \<Longrightarrow>
      rq_correlation_data q \<notin> set (rl_cancelled (cn_request_lifecycle s))"
  shows "held s' + answered s' = held s + answered s + {#command_sender command#}"
  using accounted_process_command [OF assms] by (simp add: accounted_def)

theorem commands_accounted_witness:
  "held (test_queued ([], [], [])) + answered (test_queued ([], [], [])) = {#7#}"
proof -
  have "driver_inv (test_connection ([], [], []))" using driver_reach_limits [OF test_reach test_ok(1)] by blast
  from commands_accounted [OF this test_ok(1) test_begin_publish] show ?thesis
    by (simp add: test_publish_def held_def answered_def test_connection_eq)
qed

text \<open>C14: Writing and flushing move channels from the queue to the answers and lose none; failing what is
  pending answers every channel that is still held; and when \<open>run\<close> returns nobody waits: the driver
  holds no channel, and its queues and tables are empty.\<close>

theorem run_leaves_nobody_waiting:
  "(flush_outbound rt s = Some (r, s') \<longrightarrow> held s' + answered s' = held s + answered s)
   \<and> held (fail_pending s) = {#} \<and> answered (fail_pending s) = answered s + held s
   \<and> (run rt s = Some (r, s') \<longrightarrow> held s' = {#} \<and> cn_outbound s' = [] \<and> cn_flush_actions s' = []
        \<and> cn_pending_acks s' = [] \<and> cn_pending_requests s' = [])"
proof (intro conjI impI)
  show "answered (fail_pending s) = answered s + held s"
    using fail_pending_answers [of s] by (simp add: accounted_def union_commute)
qed (use accounted_flush_outbound [of rt s r s'] fail_pending_answers [of s] run_ends_empty [of rt s r s']
     in \<open>simp_all add: accounted_def\<close>)

text \<open>
  Without commands and without input, the driver waits, finds the handles gone, and says goodbye.
\<close>

lemma test_idle:
  "updM drain_cancellations (test_connection w) = Some (Ok (), test_connection w)"
  "flush_outbound test_runtime (test_connection w) = Some (Ok (), test_connection w)"
  "decode_and_dispatch test_runtime (test_connection w) = Some (Ok (), test_connection w)"
  "updM (expire_operations test_runtime) (test_connection w) = Some (Ok (), test_connection w)"
  "pureM (maintain_keep_alive test_runtime) (test_connection w) = Some (Ok (), test_connection w)"
  "finished (test_connection w) = False"
proof -
  show "decode_and_dispatch test_runtime (test_connection w) = Some (Ok (), test_connection w)"
    by (subst decode_and_dispatch.simps) (simp add: test_connection_eq FrameReader_with_max_packet_size_def empty_frame)
qed (simp_all add: updM_def drain_cancellations_def test_connection_eq RequestLifecycle_new_def flush_outbound_def
    andM_def returns_def write_loop.simps expire_operations_def conn_now_def entomb_cancelled_def pureM_def
    maintain_keep_alive_def keep_alive_interval_def from_secs_def finished_def)

lemma test_no_input:
  "drain_commands test_runtime (test_connection ([], [], out)) = Some (Ok (), test_connection ([], [], out))"
  "pureM (read_available test_runtime) (test_connection ([], [], out)) = Some (Ok (), test_connection ([], [], out))"
proof -
  have "drain_loop test_runtime (Suc n) (test_connection ([], [], out)) = Some (Ok (), test_connection ([], [], out))" for n
    by (simp add: test_connection_eq conn_io_def)
  from this [of 63] show "drain_commands test_runtime (test_connection ([], [], out)) = Some (Ok (), test_connection ([], [], out))"
    by (simp add: drain_commands_def test_connection_eq)
  have "read_loop test_runtime (Suc n) (test_connection ([], [], out)) = (Ok (), test_connection ([], [], out))" for n
    by (simp add: test_connection_eq conn_io_def FrameReader_with_max_packet_size_def remaining_capacity_def)
  from this [of 63] show "pureM (read_available test_runtime) (test_connection ([], [], out)) = Some (Ok (), test_connection ([], [], out))"
    by (simp add: pureM_def read_available_def)
qed

definition test_closing :: "test_world \<Rightarrow> test_world MqttConnection" where
  "test_closing w = (test_connection w)\<lparr>cn_closing := True, cn_command_channel_closed := True\<rparr>"

definition test_abandoned :: "test_world \<Rightarrow> test_world MqttConnection" where
  "test_abandoned w = (test_closing w)\<lparr>cn_outbound_bytes := 2, cn_outbound :=
     [\<lparr>of_bytes = [0xE0, 0], of_offset = 0, of_action = Act_AbandonedDisconnect, of_request_correlation = None\<rparr>]\<rparr>"

lemma test_wait: "wait_command test_runtime (test_connection ([], [], out)) = Some (Ok (), test_abandoned ([], [], out))"
  by (simp add: wait_command_def next_wait_duration_def conn_now_def keep_alive_interval_def instant_checked_add_def
      from_secs_def test_connection_eq conn_io_def abandon_def begin_abandoned_disconnect_def andM_def updM_def
      returns_def disconnect_encodes pureM_def enqueue_def enqueue_with_action_def checked_add_def usize_max_def
      test_abandoned_def test_closing_def)

lemma test_last_turn:
  "updM drain_cancellations (test_abandoned w) = Some (Ok (), test_abandoned w)"
  "drain_commands test_runtime (test_abandoned ([], [], out)) = Some (Ok (), test_abandoned ([], [], out))"
  "flush_outbound test_runtime (test_abandoned ([], [], out)) = Some (Ok (), test_closing ([], [], out @ [0xE0, 0]))"
  "finished (test_closing w) = True"
proof -
  have "drain_loop test_runtime (Suc n) (test_abandoned ([], [], out)) = Some (Ok (), test_abandoned ([], [], out))" for n
    by (simp add: test_abandoned_def test_closing_def test_connection_eq conn_io_def)
  from this [of 63] show "drain_commands test_runtime (test_abandoned ([], [], out)) = Some (Ok (), test_abandoned ([], [], out))"
    by (simp add: drain_commands_def test_abandoned_def test_closing_def test_connection_eq)
  show "flush_outbound test_runtime (test_abandoned ([], [], out)) = Some (Ok (), test_closing ([], [], out @ [0xE0, 0]))"
    by (simp add: flush_outbound_def test_abandoned_def test_closing_def test_connection_eq
      andM_def write_loop.simps conn_io_def advance_front_def conn_now_def
      pureM_def returns_def flush_accepted_def complete_written_def)
qed (simp_all add: updM_def drain_cancellations_def test_abandoned_def test_closing_def test_connection_eq
    RequestLifecycle_new_def finished_def)

lemma test_run:
  "\<exists>s'. run test_runtime (test_connection ([], [], out)) = Some (Ok (), s') \<and> cn_stream s' = ([], [], out @ [0xE0, 0])"
proof -
  have "run_inner test_runtime (test_abandoned ([], [], out)) = Some (Ok (), test_closing ([], [], out @ [0xE0, 0]))"
    by (subst run_inner.simps) (simp add: andM_def test_last_turn)
  then have "run_inner test_runtime (test_connection ([], [], out)) = Some (Ok (), test_closing ([], [], out @ [0xE0, 0]))"
    by (subst run_inner.simps) (simp add: andM_def test_idle test_no_input test_wait)
  then show ?thesis by (simp add: run_def conn_io_def fail_pending_def sends_def test_closing_def test_connection_eq Let_def)
qed

theorem run_leaves_nobody_waiting_witness:
  "held (test_pending ([], [], test_publish_bytes)) + answered (test_pending ([], [], test_publish_bytes)) = {#7#}
   \<and> (\<exists>s'. run test_runtime (test_connection ([], [], [])) = Some (Ok (), s') \<and> held s' = {#})"
proof -
  have "held (test_queued w) + answered (test_queued w) = {#7#}" for w
    by (simp add: held_def answered_def test_queued_def test_pending_def test_connection_eq)
  with run_leaves_nobody_waiting [of test_runtime "test_queued ([], [], [])"] test_flush [of "[]" "[]"]
  have "held (test_pending ([], [], test_publish_bytes)) + answered (test_pending ([], [], test_publish_bytes)) = {#7#}" by simp
  moreover obtain s' where "run test_runtime (test_connection ([], [], [])) = Some (Ok (), s')" using test_run by blast
  moreover from this have "held s' = {#}"
    using run_leaves_nobody_waiting [of test_runtime "test_connection ([], [], [])" "Ok ()" s'] by simp
  ultimately show ?thesis by blast
qed
section \<open>Acknowledgements\<close>

lemma map_of_delete_same: "map_of (AList.delete i xs) i = None"
  by (simp add: AList.delete_conv)

lemma map_of_map_entry_None: "map_of xs i = None \<Longrightarrow> map_of (AList.map_entry j f xs) i = None"
  by (induction xs) auto

lemma no_ack_remove_request:
  "map_of (cn_pending_acks s) i = None \<Longrightarrow> map_of (cn_pending_acks (snd (remove_request corr s))) i = None"
  by (auto simp: remove_request_def Let_def remove_pending_ack_def tombstone_publish_def drop_unsent_def
      take_request_def finish_request_lifecycle_def AList.delete_conv' map_of_map_entry_None split: option.splits)

lemma no_ack_fail_request:
  "map_of (cn_pending_acks s) i = None \<Longrightarrow> map_of (cn_pending_acks (fail_request corr e s)) i = None"
  using no_ack_remove_request [of s i corr]
  by (auto simp: fail_request_def sends_def split: prod.splits option.splits)

lemma mset_concat_delete:
  assumes "distinct (map fst xs)" "map_of xs k = Some v"
  shows "mset (concat (map (f \<circ> snd) (AList.delete k xs))) + mset (f v) = mset (concat (map (f \<circ> snd) xs))"
  using assms by (induction xs) (auto simp: delete_id ac_simps split: if_splits)

lemma held_remove_ack:
  assumes "driver_inv s" "map_of (cn_pending_acks s) i = Some p"
  shows "held (remove_pending_ack i s) + mset (kind_senders (pk_kind p)) = held s"
  using mset_concat_delete [of "cn_pending_acks s" i p "kind_senders \<circ> pk_kind"] assms
  by (simp add: held_def remove_pending_ack_def driver_inv_def comp_assoc)

lemma held_sends [simp]: "held (sends rs s) = held s"
  by (simp add: held_def sends_def)

text \<open>C18: A PUBACK completes its own publish and nothing else.  One with an unknown identifier is
  ignored; one for an identifier of another kind of operation ends the connection with an error and
  leaves the table as it was; any other frees its identifier.  The caller of the publish gets one
  answer, a success exactly for a code below 0x80; for a caller who has given up nobody is
  answered.\<close>

theorem puback_completes_its_publish:
  assumes "driver_inv s" "dispatch_puback ack s = Some (r, s')"
  shows "case map_of (cn_pending_acks s) (pa_packet_id ack) of
      None \<Rightarrow> r = Ok () \<and> s' = s
    | Some p \<Rightarrow>
        if ack_class (pk_kind p) \<noteq> Class_Publish
        then r = Err (UnexpectedPacket ''acknowledgement type does not match pending packet id'') \<and> s' = s
        else r = Ok () \<and> map_of (cn_pending_acks s') (pa_packet_id ack) = None
          \<and> (\<forall>result. pk_kind p = Ack_Publish result \<longrightarrow>
               held s' + {#result#} = held s \<and> (\<exists>a. cn_sent s' = cn_sent s @ [(result, Res_Publish a)]
                 \<and> (is_ok a \<longleftrightarrow> pa_reason_code ack < 0x80)))
          \<and> (is_tombstone (pk_kind p) \<longrightarrow> held s' = held s \<and> cn_sent s' = cn_sent s)"
proof (cases "map_of (cn_pending_acks s) (pa_packet_id ack)")
  case (Some p)
  let ?s = "remove_pending_ack (pa_packet_id ack) s"
  have free: "map_of (cn_pending_acks ?s) (pa_packet_id ack) = None"
    by (simp add: remove_pending_ack_def map_of_delete_same)
  have sent: "cn_sent ?s = cn_sent s" by (simp add: remove_pending_ack_def)
  show ?thesis
  proof (cases "ack_class (pk_kind p) = Class_Publish")
    case True
    then have r: "r = Ok ()" "s' = puback_kind ack (pk_kind p) ?s"
      using assms(2) Some by (auto simp: dispatch_puback_def andM_def pureM_def take_pending_ack_def updM_def)
    show ?thesis
      using True Some r free sent held_remove_ack [OF assms(1) Some]
      by (cases "pk_kind p") (auto simp: puback_kind_def no_ack_fail_request sends_def held_def is_ok_def)
  qed (use assms(2) Some in \<open>auto simp: dispatch_puback_def andM_def pureM_def take_pending_ack_def\<close>)
qed (use assms(2) in \<open>auto simp: dispatch_puback_def andM_def pureM_def take_pending_ack_def returns_def\<close>)

lemma test_puback:
  "dispatch_puback \<lparr>pa_packet_id = 1, pa_reason_code = 0\<rparr> (test_pending w) =
     Some (Ok (), sends [(7, Res_Publish (Ok \<lparr>pack_packet_id = Some 1, pack_reason_code = Some 0\<rparr>))]
       (remove_pending_ack 1 (test_pending w)))"
  by (simp add: dispatch_puback_def andM_def pureM_def take_pending_ack_def updM_def puback_kind_def test_pending_def)

lemma test_pending_inv: "driver_inv (test_pending ([], i, out @ test_publish_bytes))"
  using maintainsD [OF wf.flush_outbound_I _ test_flush] driver_reach_limits [OF test_queued_reach test_ok(1)] test_ok(1)
  by blast

theorem puback_completes_its_publish_witness:
  "\<exists>s'. dispatch_puback \<lparr>pa_packet_id = 1, pa_reason_code = 0\<rparr> (test_pending ([], [], test_publish_bytes)) = Some (Ok (), s')
     \<and> map_of (cn_pending_acks s') 1 = None"
  using puback_completes_its_publish [OF test_pending_inv [of "[]" "[]", simplified] test_puback] test_puback
  by (simp add: test_pending_def)

lemma map_of_map_entry_same: "map_of xs k = Some v \<Longrightarrow> map_of (AList.map_entry k f xs) k = Some (f v)"
  by (induction xs) auto

lemma filter_map_entry_length:
  assumes "\<And>v. P (k, f v) = P (k, v)"
  shows "length (filter P (AList.map_entry k f xs)) = length (filter P xs)"
proof (induction xs)
  case (Cons x xs)
  then show ?case using assms [of "snd x"] by (cases x) simp
qed simp

definition counts_qos1 :: "u16 \<times> PendingAck \<Rightarrow> bool" where
  "counts_qos1 e = is_qos1_publish (pk_kind (snd e))"

lemma outgoing_qos1_count_eq: "outgoing_qos1_count s = length (filter counts_qos1 (cn_pending_acks s))"
  unfolding outgoing_qos1_count_def
proof (intro arg_cong [where f = length] filter_cong refl)
  fix e :: "u16 \<times> PendingAck"
  show "(case e of (_, pending) \<Rightarrow> case pk_kind pending of Ack_Publish _ \<Rightarrow> True
      | Tombstone _ counts \<Rightarrow> counts | kind \<Rightarrow> matches_request_publish kind) = counts_qos1 e"
    by (cases e, cases "pk_kind (snd e)") (simp_all add: counts_qos1_def)
qed

lemma expire_ack_caller:
  assumes "map_of (cn_pending_acks s) i = Some p" "kind_senders (pk_kind p) = [result]"
  shows "expire_ack i s = sends (kind_fail (pk_kind p) (Timeout (pk_timeout_label p)))
    (s\<lparr>cn_pending_acks := AList.map_entry i (\<lambda>p. p\<lparr>pk_kind := entomb (pk_kind p)\<rparr>) (cn_pending_acks s)\<rparr>)"
  using assms by (cases "pk_kind p") (simp_all add: expire_ack_def)

lemma late_ack:
  assumes "map_of (cn_pending_acks s) i = Some p" "is_tombstone (pk_kind p)"
  shows "ack_class (pk_kind p) = Class_Publish \<Longrightarrow>
      dispatch_puback \<lparr>pa_packet_id = i, pa_reason_code = code\<rparr> s = Some (Ok (), remove_pending_ack i s)"
    and "ack_class (pk_kind p) = Class_Subscribe \<Longrightarrow>
      dispatch_suback rt \<lparr>sa_packet_id = i, sa_reason_codes = codes\<rparr> s = Some (Ok (), remove_pending_ack i s)"
    and "ack_class (pk_kind p) = Class_Unsubscribe \<Longrightarrow>
      dispatch_unsuback \<lparr>ua_packet_id = i, ua_reason_codes = codes\<rparr> s = Some (Ok (), remove_pending_ack i s)"
  using assms
  by (cases "pk_kind p"; simp add: dispatch_puback_def dispatch_suback_def dispatch_unsuback_def andM_def pureM_def
      take_pending_ack_def updM_def puback_kind_def unsuback_kind_def sends_def remove_pending_ack_def)+

text \<open>C19: When the acknowledgement of a caller's operation is overdue, the caller gets a Timeout, and
  the identifier stays reserved: the entry keeps its acknowledgement class and its weight in the
  flow-control window, so that the identifier is not reused while the broker may still
  acknowledge it.  A late acknowledgement of that class then frees it and answers nobody.\<close>

theorem overdue_ack_keeps_its_id:
  assumes "driver_inv s" "map_of (cn_pending_acks s) i = Some p" "kind_senders (pk_kind p) = [result]"
    and "s' = expire_ack i s"
  shows "map_of (cn_pending_acks s') i = Some (p\<lparr>pk_kind := Tombstone (ack_class (pk_kind p)) (is_qos1_publish (pk_kind p))\<rparr>)
    \<and> cn_sent s' = cn_sent s @ kind_fail (pk_kind p) (Timeout (pk_timeout_label p))
    \<and> outgoing_qos1_count s' = outgoing_qos1_count s \<and> fst (reserve_packet_id s') \<noteq> Ok i
    \<and> (ack_class (pk_kind p) = Class_Publish \<longrightarrow>
         dispatch_puback \<lparr>pa_packet_id = i, pa_reason_code = code\<rparr> s' = Some (Ok (), remove_pending_ack i s'))
    \<and> (ack_class (pk_kind p) = Class_Subscribe \<longrightarrow>
         dispatch_suback rt \<lparr>sa_packet_id = i, sa_reason_codes = codes\<rparr> s' = Some (Ok (), remove_pending_ack i s'))
    \<and> (ack_class (pk_kind p) = Class_Unsubscribe \<longrightarrow>
         dispatch_unsuback \<lparr>ua_packet_id = i, ua_reason_codes = codes\<rparr> s' = Some (Ok (), remove_pending_ack i s'))"
proof -
  note s' = assms(4) [unfolded expire_ack_caller [OF assms(2,3)]]
  have entry: "map_of (cn_pending_acks s') i = Some (p\<lparr>pk_kind := entomb (pk_kind p)\<rparr>)"
    using s' map_of_map_entry_same [OF assms(2)] by (simp add: sends_def)
  have "driver_inv s'" unfolding s' using assms(1) by (simp add: driver_inv_steps)
  moreover have "cn_sent s' = cn_sent s @ kind_fail (pk_kind p) (Timeout (pk_timeout_label p))"
    using s' by (simp add: sends_def)
  moreover have "outgoing_qos1_count s' = outgoing_qos1_count s"
    using s' by (simp add: outgoing_qos1_count_eq sends_def filter_map_entry_length counts_qos1_def)
  ultimately show ?thesis
    using entry late_ack [OF entry] reserve_packet_id_spec(1) [of s' _ _ i] driver_inv_next_id [of s']
    by (auto simp: entomb_def prod_eq_iff)
qed

theorem overdue_ack_keeps_its_id_witness:
  "map_of (cn_pending_acks (expire_ack 1 (test_pending ([], [], test_publish_bytes)))) 1 =
     Some \<lparr>pk_deadline = 5 + from_secs 10, pk_timeout_label = ''publish acknowledgement'',
       pk_kind = Tombstone Class_Publish True\<rparr>"
  using overdue_ack_keeps_its_id [OF test_pending_inv [of "[]" "[]", simplified] _ _ refl, of 1 _ 7]
  by (simp add: test_pending_def)

section \<open>Publishing and flow control\<close>

lemma await_ack_outcome:
  assumes "await_ack rt i k label bs s = Some (r, s')" "map_of (cn_pending_acks s) i = None"
  shows "(\<exists>e. cn_sent s' = cn_sent s @ kind_fail k e \<and> cn_outbound s' = cn_outbound s
        \<and> cn_pending_acks s' = cn_pending_acks s)
    \<or> (\<exists>d. cn_sent s' = cn_sent s
        \<and> cn_outbound s' = cn_outbound s @ [\<lparr>of_bytes = bs, of_offset = 0, of_action = Act_None,
             of_request_correlation = None\<rparr>]
        \<and> cn_pending_acks s' = cn_pending_acks s @ [(i, \<lparr>pk_deadline = d, pk_timeout_label = label, pk_kind = k\<rparr>)])"
proof -
  from assms(1) obtain x s1 where x: "insert_pending_ack rt i k label s = Some (x, s1)"
    by (auto simp: await_ack_def bind_eq_Some_conv)
  note new = insert_pending_ack_new [OF x assms(2)]
  show ?thesis
  proof (cases x)
    case (Inl a)
    then show ?thesis using assms(1) x new by (cases a) (auto simp: await_ack_def sends_def)
  next
    case (Inr u)
    then obtain d w where s1: "s1 = s\<lparr>cn_stream := w, cn_pending_acks := cn_pending_acks s
        @ [(i, \<lparr>pk_deadline = d, pk_timeout_label = label, pk_kind = k\<rparr>)]\<rparr>" using new by auto
    obtain y s2 where y: "enqueue bs Act_None None s1 = (y, s2)" by force
    have found: "map_of (cn_pending_acks s1) i = Some \<lparr>pk_deadline = d, pk_timeout_label = label, pk_kind = k\<rparr>"
      using s1 assms(2) by (simp add: map_add_Some_iff)
    show ?thesis
    proof (cases y)
      case (Inl e)
      then have "s2 = s1" using y by (auto simp: enqueue_def enqueue_with_action_def split: if_splits option.splits)
      then have s': "s' = sends (kind_fail k e) (remove_pending_ack i s1)"
        using assms(1) x y Inr Inl found by (simp add: await_ack_def pending_fail_def)
      have "cn_pending_acks s' = cn_pending_acks s"
        using s1 delete_new [OF assms(2)] by (simp add: s' sends_def remove_pending_ack_def)
      then show ?thesis using s1 by (intro disjI1) (auto simp: s' sends_def remove_pending_ack_def)
    next
      case (Inr v)
      then have "cn_sent s2 = cn_sent s1 \<and> cn_pending_acks s2 = cn_pending_acks s1
        \<and> cn_outbound s2 = cn_outbound s1 @ [\<lparr>of_bytes = bs, of_offset = 0, of_action = Act_None, of_request_correlation = None\<rparr>]"
        using y by (auto simp: enqueue_def enqueue_with_action_def split: if_splits option.splits)
      moreover have "s' = s2" using assms(1) x y \<open>x = Inr u\<close> Inr by (simp add: await_ack_def)
      ultimately show ?thesis using s1 by (intro disjI2) auto
    qed
  qed
qed

lemma publish_id_Ok:
  assumes "cn_next_packet_id s \<noteq> 0" "publish_id AtLeastOnce s = (x, s1)"
  shows "s1 = s\<lparr>cn_next_packet_id := cn_next_packet_id s1\<rparr>"
    "x = Ok pid \<Longrightarrow> \<exists>i. pid = Some i \<and> i \<noteq> 0 \<and> map_of (cn_pending_acks s) i = None"
proof -
  obtain y where y: "reserve_packet_id s = (y, s1)" "x = (case y of Inl e \<Rightarrow> Err e | Inr i \<Rightarrow> Ok (Some i))"
    using assms(2) by (auto simp: publish_id_def split: prod.splits sum.splits)
  note spec = reserve_packet_id_spec [OF assms(1) y(1)]
  show "s1 = s\<lparr>cn_next_packet_id := cn_next_packet_id s1\<rparr>" by (rule spec(3))
  show "x = Ok pid \<Longrightarrow> \<exists>i. pid = Some i \<and> i \<noteq> 0 \<and> map_of (cn_pending_acks s) i = None"
    using y(2) spec(1) by (auto split: sum.splits)
qed

lemma begin_publish_outcome:
  assumes "driver_inv s" "po_qos opts = AtLeastOnce"
    and run: "begin_publish rt topic payload opts result s = Some (r, s')"
  shows "(\<exists>e. cn_sent s' = cn_sent s @ [(result, Res_Publish (Err e))] \<and> cn_outbound s' = cn_outbound s
        \<and> cn_pending_acks s' = cn_pending_acks s)
    \<or> (\<exists>i bs d. i \<noteq> 0 \<and> map_of (cn_pending_acks s) i = None
        \<and> outgoing_qos1_count s < unat (cn_peer_receive_maximum s)
        \<and> PublishPacket_encode \<lparr>pub_topic = topic, pub_packet_id = Some i, pub_payload = payload,
             pub_qos = AtLeastOnce, pub_retain = po_retain opts, pub_dup = False,
             pub_properties = po_properties opts\<rparr> = Ok bs
        \<and> cn_sent s' = cn_sent s
        \<and> cn_outbound s' = cn_outbound s @ [\<lparr>of_bytes = bs, of_offset = 0, of_action = Act_None,
             of_request_correlation = None\<rparr>]
        \<and> cn_pending_acks s' = cn_pending_acks s @ [(i, \<lparr>pk_deadline = d,
             pk_timeout_label = ''publish acknowledgement'', pk_kind = Ack_Publish result\<rparr>)])"
proof -
  obtain x s1 where x: "publish_id AtLeastOnce s = (x, s1)" by force
  note id = publish_id_Ok [OF driver_inv_next_id [OF assms(1)] x]
  have same: "cn_sent s1 = cn_sent s" "cn_outbound s1 = cn_outbound s" "cn_pending_acks s1 = cn_pending_acks s"
    "outgoing_qos1_count s1 = outgoing_qos1_count s" "cn_peer_receive_maximum s1 = cn_peer_receive_maximum s"
    by (subst id(1), simp add: outgoing_qos1_count_def)+
  from run x assms(2) consider (refused) e t where "t = s \<or> t = s1" "s' = sends [(result, Res_Publish (Err e))] t"
    | (sent) i bs where "x = Ok (Some i)" "outgoing_qos1_count s < unat (cn_peer_receive_maximum s)"
       "PublishPacket_encode \<lparr>pub_topic = topic, pub_packet_id = Some i, pub_payload = payload,
          pub_qos = AtLeastOnce, pub_retain = po_retain opts, pub_dup = False, pub_properties = po_properties opts\<rparr> = Ok bs"
       "await_ack rt i (Ack_Publish result) ''publish acknowledgement'' bs s1 = Some (r, s')"
    using id(2) same(4,5) by (fastforce simp: begin_publish_def split: sum.splits if_splits)
  then show ?thesis
  proof cases
    case refused
    then show ?thesis using same by (auto simp: sends_def)
  next
    case sent
    then have "i \<noteq> 0" "map_of (cn_pending_acks s) i = None" using id(2) by auto
    then show ?thesis using await_ack_outcome [OF sent(4)] sent(2,3) same by auto
  qed
qed

text \<open>C20: A QoS 1 publish is either refused, with one error to its caller and nothing queued, or it
  goes out under an identifier no other pending operation uses: its encoding is queued behind the
  frames already there, its acknowledgement is awaited, and nobody is answered yet.  It is only
  accepted while fewer publishes are unacknowledged than the broker's receive maximum.\<close>

theorem publish_is_queued:
  assumes "driver_inv s" "\<not> cn_closing s" "po_qos opts = AtLeastOnce"
    and "process_command rt (Cmd_Publish topic payload opts result) s = Some (r, s')"
  shows "(\<exists>e. cn_sent s' = cn_sent s @ [(result, Res_Publish (Err e))] \<and> cn_outbound s' = cn_outbound s
        \<and> cn_pending_acks s' = cn_pending_acks s)
    \<or> (\<exists>i bs d. i \<noteq> 0 \<and> map_of (cn_pending_acks s) i = None
        \<and> outgoing_qos1_count s < unat (cn_peer_receive_maximum s)
        \<and> PublishPacket_encode \<lparr>pub_topic = topic, pub_packet_id = Some i, pub_payload = payload,
             pub_qos = AtLeastOnce, pub_retain = po_retain opts, pub_dup = False,
             pub_properties = po_properties opts\<rparr> = Ok bs
        \<and> cn_sent s' = cn_sent s
        \<and> cn_outbound s' = cn_outbound s @ [\<lparr>of_bytes = bs, of_offset = 0, of_action = Act_None,
             of_request_correlation = None\<rparr>]
        \<and> cn_pending_acks s' = cn_pending_acks s @ [(i, \<lparr>pk_deadline = d,
             pk_timeout_label = ''publish acknowledgement'', pk_kind = Ack_Publish result\<rparr>)])"
proof -
  have "begin_publish rt topic payload opts result s = Some (r, s')"
    using assms(2,4) by (simp add: process_command_def)
  then show ?thesis by (rule begin_publish_outcome [OF assms(1,3)])
qed

theorem publish_is_queued_witness:
  "\<exists>i. i \<noteq> 0 \<and> map fst (cn_pending_acks (test_queued ([], [], []))) = [i]"
proof -
  let ?w = "([], [], []) :: test_world"
  have inv: "driver_inv (test_connection ?w)" "\<not> cn_closing (test_connection ?w)"
    using driver_reach_limits [OF test_reach test_ok(1)] by (blast, simp add: test_connection_eq)
  have "po_qos (with_qos PublishOptions_default AtLeastOnce) = AtLeastOnce" by (simp add: with_qos_def)
  from publish_is_queued [OF inv this test_begin_publish [unfolded test_publish_def]] show ?thesis
    by (auto simp: test_queued_def test_pending_def test_connection_eq)
qed

end
