(* ===== verification/Async_Requests.thy ===== *)
theory Async_Requests
  imports Async_Promises
begin

text \<open>
  Requests and responses over the asynchronous driver: what a request's publish may use of the
  flow-control window, how a response finds its request, and what becomes of the packet identifier
  of a request whose publish was acknowledged.
\<close>

section \<open>The flow-control window\<close>



lemma enqueue_tables:
  "enqueue bs a c s = (r, s') \<Longrightarrow>
     cn_pending_acks s' = cn_pending_acks s \<and> cn_sent s' = cn_sent s \<and> cn_pending_requests s' = cn_pending_requests s
     \<and> cn_stream s' = cn_stream s \<and> cn_request_lifecycle s' = cn_request_lifecycle s
     \<and> cn_response_subscriptions s' = cn_response_subscriptions s
     \<and> (r = Ok () \<longrightarrow> cn_outbound s' = cn_outbound s @ [\<lparr>of_bytes = bs, of_offset = 0, of_action = a,
           of_request_correlation = c\<rparr>])
     \<and> (r \<noteq> Ok () \<longrightarrow> s' = s)"
  by (auto simp: enqueue_def enqueue_with_action_def split: if_splits option.splits)






section \<open>Responses\<close>

definition answers :: "PublishPacket \<Rightarrow> bytes \<Rightarrow> PendingRequest \<Rightarrow> 'w MqttConnection \<Rightarrow> bool" where
  "answers packet corr q s \<longleftrightarrow> get_binary (pub_properties packet) CorrelationData = Some corr
     \<and> map_of (cn_pending_requests s) corr = Some q \<and> pr_response_topic q = pub_topic packet"

lemma remove_request_outcome:
  assumes "map_of (cn_pending_requests s) corr = Some q"
  shows "\<exists>s'. remove_request corr s = (Some q, s') \<and> cn_sent s' = cn_sent s \<and> cn_stream s' = cn_stream s
    \<and> cn_pending_requests s' = AList.delete corr (cn_pending_requests s)
    \<and> cn_outbound s' = filter (\<lambda>f. \<not> unsent_of corr f) (cn_outbound s)
    \<and> cn_request_lifecycle s' = lifecycle_finish corr (cn_request_lifecycle s)"
  using assms
  by (auto simp: remove_request_def Let_def drop_unsent_def finish_request_lifecycle_def take_request_def
      remove_pending_ack_def tombstone_publish_def split: option.splits)

lemma try_complete_request_outcome:
  "answers packet corr q s \<Longrightarrow> \<exists>s'. try_complete_request packet s = (True, s')
     \<and> cn_sent s' = cn_sent s @ [(pr_result q, Res_Request (Ok packet))] \<and> cn_stream s' = cn_stream s
     \<and> cn_pending_requests s' = AList.delete corr (cn_pending_requests s)
     \<and> cn_outbound s' = filter (\<lambda>f. \<not> unsent_of corr f) (cn_outbound s)
     \<and> cn_request_lifecycle s' = lifecycle_finish corr (cn_request_lifecycle s)"
  using remove_request_outcome [of s corr q]
  by (auto simp: answers_def try_complete_request_def sends_def)

lemma try_complete_request_no_match:
  "(\<And>corr q. \<not> answers packet corr q s) \<Longrightarrow> try_complete_request packet s = (False, s)"
  by (auto simp: answers_def try_complete_request_def split: option.splits)

text \<open>The first step of \<open>dispatch_publish\<close>: a PUBACK is queued for a QoS 1 message.\<close>

definition acknowledged :: "PublishPacket \<Rightarrow> 'w MqttConnection \<Rightarrow> 'w MqttConnection \<Rightarrow> bool" where
  "acknowledged packet s s' \<longleftrightarrow>
    (if pub_qos packet = AtLeastOnce
     then \<exists>i bs. pub_packet_id packet = Some i
       \<and> PubAckPacket_encode \<lparr>pa_packet_id = i, pa_reason_code = 0\<rparr> = Ok bs
       \<and> cn_outbound s' = cn_outbound s @ [\<lparr>of_bytes = bs, of_offset = 0, of_action = Act_None, of_request_correlation = None\<rparr>]
     else cn_outbound s' = cn_outbound s)"

lemma dispatch_publish_cases:
  assumes "dispatch_publish rt packet s = Some (r, s')"
  obtains (refused) "\<not> is_ok r" "s' = s" "pub_qos packet = AtLeastOnce"
    | (acked) s1 where "acknowledged packet s s1" "cn_pending_requests s1 = cn_pending_requests s" "cn_sent s1 = cn_sent s"
        "cn_stream s1 = cn_stream s" "cn_request_lifecycle s1 = cn_request_lifecycle s"
        "(case try_complete_request packet s1 of
           (True, s) \<Rightarrow> Some (Ok (), s)
         | (False, s) \<Rightarrow>
             (case conn_io (rt_try_send_event rt (Evt_Publish packet)) s of
                (Sent, s) \<Rightarrow> Some (Ok (), s)
              | (Full, s) \<Rightarrow> Some (Err (QueueFull ''event''), s)
              | (Closed, s) \<Rightarrow> Some (Err ClientClosed, s))) = Some (r, s')"
proof (cases "pub_qos packet = AtLeastOnce")
  case False
  then show ?thesis using assms by (intro that(2) [of s]) (simp_all add: dispatch_publish_def andM_def returns_def acknowledged_def)
next
  case True
  show ?thesis
  proof (cases "\<exists>i bs. pub_packet_id packet = Some i \<and> PubAckPacket_encode \<lparr>pa_packet_id = i, pa_reason_code = 0\<rparr> = Ok bs")
    case False
    then show ?thesis
      using assms True by (intro that(1)) (auto simp: dispatch_publish_def andM_def returns_def split: option.splits sum.splits)
  next
    case True
    then obtain i bs where i: "pub_packet_id packet = Some i" "PubAckPacket_encode \<lparr>pa_packet_id = i, pa_reason_code = 0\<rparr> = Ok bs"
      by blast
    obtain y s1 where y: "enqueue bs Act_None None s = (y, s1)" by force
    note same = enqueue_tables [OF y]
    show ?thesis
    proof (cases y)
      case (Inl e)
      then show ?thesis
        using assms \<open>pub_qos packet = AtLeastOnce\<close> i y same
        by (intro that(1)) (auto simp: dispatch_publish_def andM_def returns_def pureM_def)
    next
      case (Inr u)
      then show ?thesis
        using assms \<open>pub_qos packet = AtLeastOnce\<close> i y same
        by (intro that(2) [of s1]) (auto simp: dispatch_publish_def andM_def returns_def pureM_def acknowledged_def)
    qed
  qed
qed

text \<open>C23: A message from the broker that carries the correlation data of a pending request on its
  response topic completes exactly that request: its caller gets the message, the request leaves the
  tables and the lifecycle, what was not yet sent of it leaves the queue, and no event is raised.
  Any other message is offered to the event channel, and the requests are untouched.  Either way a
  QoS 1 message is acknowledged first.\<close>

theorem response_completes_its_request:
  assumes "dispatch_publish rt packet s = Some (r, s')"
  shows "(answers packet corr q s \<and> is_ok r \<longrightarrow>
      cn_sent s' = cn_sent s @ [(pr_result q, Res_Request (Ok packet))]
      \<and> cn_pending_requests s' = AList.delete corr (cn_pending_requests s)
      \<and> corr \<notin> set (rl_active (cn_request_lifecycle s')) \<and> cn_stream s' = cn_stream s
      \<and> (\<exists>s1. acknowledged packet s s1 \<and> cn_outbound s' = filter (\<lambda>f. \<not> unsent_of corr f) (cn_outbound s1)))
    \<and> ((\<forall>corr q. \<not> answers packet corr q s) \<longrightarrow>
      cn_pending_requests s' = cn_pending_requests s \<and> cn_sent s' = cn_sent s
      \<and> (is_ok r \<longrightarrow> acknowledged packet s s'
           \<and> rt_try_send_event rt (Evt_Publish packet) (cn_stream s) = (Sent, cn_stream s')))"
  using assms
proof (cases rule: dispatch_publish_cases)
  case (acked s1)
  have same: "answers packet corr q s1 = answers packet corr q s" for corr q
    using acked(2) by (simp add: answers_def)
  have match: "cn_sent s' = cn_sent s @ [(pr_result q, Res_Request (Ok packet))]
      \<and> cn_pending_requests s' = AList.delete corr (cn_pending_requests s)
      \<and> corr \<notin> set (rl_active (cn_request_lifecycle s')) \<and> cn_stream s' = cn_stream s
      \<and> cn_outbound s' = filter (\<lambda>f. \<not> unsent_of corr f) (cn_outbound s1)" if "answers packet corr q s"
    using try_complete_request_outcome [of packet corr q s1] that acked same by (auto simp: lifecycle_finish_def)
  have other: "cn_pending_requests s' = cn_pending_requests s \<and> cn_sent s' = cn_sent s \<and> cn_outbound s' = cn_outbound s1
      \<and> (is_ok r \<longrightarrow> rt_try_send_event rt (Evt_Publish packet) (cn_stream s) = (Sent, cn_stream s'))"
    if "\<forall>corr q. \<not> answers packet corr q s"
    using acked that same by (auto simp: try_complete_request_no_match conn_io_def is_ok_def split: prod.splits try_send.splits)
  have "acknowledged packet s s'" if "cn_outbound s' = cn_outbound s1"
    using acked(1) that by (auto simp: acknowledged_def split: if_splits)
  then show ?thesis using match other acked(1) by blast
qed simp

definition test_request :: PendingRequest where
  "test_request = \<lparr>pr_topic = [0x61], pr_payload = [1], pr_response_topic = [0x72], pr_qos = AtLeastOnce,
     pr_properties = Properties_new, pr_deadline = 5 + from_secs 30, pr_result = 8,
     pr_publish_packet_id = Some 1, pr_published = True\<rparr>"

definition test_requesting :: "test_world \<Rightarrow> test_world MqttConnection" where
  "test_requesting w = (test_connection w)\<lparr>cn_pending_requests := [([9], test_request)],
     cn_pending_acks := [(1, \<lparr>pk_deadline = 5 + from_secs 10, pk_timeout_label = ''request publish acknowledgement'',
       pk_kind = Ack_RequestPublish [9]\<rparr>)], cn_next_packet_id := 2\<rparr>"

definition test_response :: PublishPacket where
  "test_response = \<lparr>pub_topic = [0x72], pub_packet_id = None, pub_payload = [2], pub_qos = AtMostOnce,
     pub_retain = False, pub_dup = False, pub_properties = \<lparr>entries = [(CorrelationData, Binary [9])]\<rparr>\<rparr>"

theorem response_completes_its_request_witness:
  "\<exists>s'. dispatch_publish test_runtime test_response (test_requesting ([], [], [])) = Some (Ok (), s')
     \<and> cn_sent s' = [(8, Res_Request (Ok test_response))]"
proof -
  let ?s = "test_requesting ([], [], [])"
  have match: "answers test_response [9] test_request ?s"
    by (simp add: answers_def test_response_def test_requesting_def test_request_def get_binary_def)
  then obtain s' where s': "dispatch_publish test_runtime test_response ?s = Some (Ok (), s')"
    using try_complete_request_outcome [OF match]
    by (auto simp: dispatch_publish_def andM_def returns_def test_response_def)
  moreover have "pr_result test_request = 8" "cn_sent ?s = []"
    by (simp_all add: test_request_def test_requesting_def test_connection_eq)
  ultimately show ?thesis using response_completes_its_request [OF s'] match by simp
qed

section \<open>The identifier of an acknowledged request\<close>






end
