(* ===== verification/Delivery.thy ===== *)
theory Delivery
  imports Frame Transport
begin

text \<open>
  What a client has taken from the stream of its broker.  \<open>drained\<close> relates the buffer of a parser
  before and after bytes were pushed and packets taken; \<open>takes\<close> states it for the parser;
  \<open>hears\<close> is a history of the bytes a transport has returned.  The blocking and the asynchronous client
  share these.
\<close>

section \<open>Messages among packets\<close>

definition messages :: "Packet list \<Rightarrow> PublishPacket list" where
  "messages ps = concat (map (\<lambda>p. case p of Pkt_Publish m \<Rightarrow> [m] | _ \<Rightarrow> []) ps)"

lemma messages_simps [simp]:
  "messages [] = []" "messages (ps @ qs) = messages ps @ messages qs" "messages (Pkt_Publish m # ps) = m # messages ps"
  by (simp_all add: messages_def)

lemma messages_other: "(\<And>m. p \<noteq> Pkt_Publish m) \<Longrightarrow> messages [p] = []"
  by (cases p) (auto simp: messages_def)

section \<open>Taking packets off a stream\<close>

definition drained :: "nat \<Rightarrow> bytes \<Rightarrow> bytes \<Rightarrow> Packet list \<Rightarrow> bytes \<Rightarrow> bool" where
  "drained mx b bs ps b' \<longleftrightarrow>
     parse_stream mx (b @ bs) = (ps @ fst (parse_stream mx b'), snd (parse_stream mx b'))"

lemma drained_refl: "drained mx b [] [] b"
  by (simp add: drained_def)

lemma drained_push: "drained mx b bs [] (b @ bs)"
  by (simp add: drained_def)

lemma drained_packet: "next_packet mx b = Ok (Some (p, rest)) \<Longrightarrow> drained mx b [] [p] rest"
  by (simp add: drained_def parse_stream.simps [of mx b] split: prod.split)

lemma drained_trans:
  assumes "drained mx b bs ps b1" "drained mx b1 bs1 ps1 b2"
  shows "drained mx b (bs @ bs1) (ps @ ps1) b2"
  using assms parse_stream_append [of mx "b @ bs" bs1] parse_stream_append [of mx b1 bs1]
  by (cases "parse_stream mx b1"; cases "snd (parse_stream mx b1)")
    (auto simp: drained_def Let_def split: prod.splits sum.splits)

text \<open>The same for a parser, which stays well formed and keeps its limit.\<close>

definition takes :: "FrameReader \<Rightarrow> bytes \<Rightarrow> Packet list \<Rightarrow> FrameReader \<Rightarrow> bool" where
  "takes r bs ps r' \<longleftrightarrow> (frame_inv r \<longrightarrow> frame_inv r' \<and> fr_max_packet_size r' = fr_max_packet_size r
     \<and> drained (fr_max_packet_size r) (fr_buf r) bs ps (fr_buf r'))"

lemma takes_refl: "takes r [] [] r"
  by (simp add: takes_def drained_refl)

lemma takes_trans: "takes r bs ps r1 \<Longrightarrow> takes r1 bs1 ps1 r2 \<Longrightarrow> takes r (bs @ bs1) (ps @ ps1) r2"
  by (auto simp: takes_def intro: drained_trans)

lemma takes_push: "length bs \<le> remaining_capacity r \<Longrightarrow> takes r bs [] (frame_push r bs)"
  by (simp add: takes_def frame_push_fits drained_push)

lemma takes_decode:
  assumes "try_decode r = (x, r')"
  shows "takes r [] (case x of Inr (Some p) \<Rightarrow> [p] | _ \<Rightarrow> []) r'"
  unfolding takes_def
proof (intro impI)
  assume "frame_inv r"
  note t = try_decode_result [OF this, unfolded assms prod.sel]
  have "drained (fr_max_packet_size r) (fr_buf r) [] (case x of Inr (Some p) \<Rightarrow> [p] | _ \<Rightarrow> []) (fr_buf r')"
    using t(1,4) drained_refl
    by (cases "next_packet (fr_max_packet_size r) (fr_buf r)") (auto split: option.splits intro: drained_packet)
  with t(2,3) show "frame_inv r' \<and> fr_max_packet_size r' = fr_max_packet_size r
     \<and> drained (fr_max_packet_size r) (fr_buf r) [] (case x of Inr (Some p) \<Rightarrow> [p] | _ \<Rightarrow> []) (fr_buf r')"
    by simp
qed

section \<open>The history of a transport\<close>

text \<open>\<open>heard\<close> reads off the world the bytes that reads have returned.\<close>

definition hears :: "'w Transport \<Rightarrow> ('w \<Rightarrow> bytes) \<Rightarrow> bool" where
  "hears tr heard \<longleftrightarrow>
     (\<forall>n w. heard (snd (tr_read tr n w)) = heard w @ (case fst (tr_read tr n w) of Inr bs \<Rightarrow> bs | Inl _ \<Rightarrow> []))
     \<and> (\<forall>bs w. heard (snd (tr_write tr bs w)) = heard w) \<and> (\<forall>w. heard (snd (tr_flush tr w)) = heard w)
     \<and> (\<forall>b w. heard (snd (tr_set_nonblocking tr b w)) = heard w)
     \<and> (\<forall>d w. heard (snd (tr_set_read_timeout tr d w)) = heard w)
     \<and> (\<forall>d w. heard (snd (tr_set_write_timeout tr d w)) = heard w)
     \<and> (\<forall>w. heard (snd (tr_shutdown tr w)) = heard w) \<and> (\<forall>w. heard (snd (tr_now tr w)) = heard w)"

lemma hears_calls:
  assumes "hears tr heard"
  shows "tr_write tr bs w = (wr, w') \<Longrightarrow> heard w' = heard w" "tr_flush tr w = (r, w') \<Longrightarrow> heard w' = heard w"
    "tr_set_nonblocking tr b w = (r, w') \<Longrightarrow> heard w' = heard w" "tr_set_read_timeout tr d w = (r, w') \<Longrightarrow> heard w' = heard w"
    "tr_set_write_timeout tr d w = (r, w') \<Longrightarrow> heard w' = heard w" "tr_shutdown tr w = (r, w') \<Longrightarrow> heard w' = heard w"
    "tr_now tr w = (t, w') \<Longrightarrow> heard w' = heard w"
  using assms unfolding hears_def by (metis snd_conv)+

lemma hears_read:
  assumes "hears tr heard" "tr_read tr n w = (x, w')"
  shows "heard w' = heard w @ (case x of Inr bs \<Rightarrow> bs | Inl _ \<Rightarrow> [])"
  using assms unfolding hears_def by (metis fst_conv snd_conv)

end
