(* ===== verification/Client_Delivery.thy ===== *)
theory Client_Delivery
  imports Client_Correct Delivery
begin

text \<open>
  The messages the blocking client hands to the program: those of the stream, in the order of the
  stream, none twice, and none left out while the client is connected.
\<close>

section \<open>What an operation takes from the stream\<close>

definition moves :: "('w \<Rightarrow> bytes) \<Rightarrow> Packet list \<Rightarrow> 'w MqttClient \<Rightarrow> 'w MqttClient \<Rightarrow> bool" where
  "moves heard ps c c' \<longleftrightarrow>
     (\<exists>bs. heard (cl_stream c') = heard (cl_stream c) @ bs \<and> takes (cl_frame_reader c) bs ps (cl_frame_reader c'))"

lemma moves_trans: "moves heard ps c c1 \<Longrightarrow> moves heard qs c1 c2 \<Longrightarrow> moves heard (ps @ qs) c c2"
  unfolding moves_def by (metis append.assoc takes_trans)

lemma moves_refl: "heard (cl_stream c') = heard (cl_stream c) \<Longrightarrow> cl_frame_reader c' = cl_frame_reader c \<Longrightarrow> moves heard [] c c'"
  unfolding moves_def by (metis append_Nil2 takes_refl)

text \<open>No packet is taken and the queue is not touched.\<close>

definition silent :: "('w \<Rightarrow> bytes) \<Rightarrow> 'w MqttClient \<Rightarrow> 'w MqttClient \<Rightarrow> bool" where
  "silent heard c c' \<longleftrightarrow> moves heard [] c c' \<and> cl_incoming c' = cl_incoming c"

lemma silent_trans: "silent heard c c1 \<Longrightarrow> silent heard c1 c2 \<Longrightarrow> silent heard c c2"
  unfolding silent_def using moves_trans [of heard "[]" c c1 "[]" c2] by simp

lemma silentI:
  "heard (cl_stream c') = heard (cl_stream c) \<Longrightarrow> cl_frame_reader c' = cl_frame_reader c
    \<Longrightarrow> cl_incoming c' = cl_incoming c \<Longrightarrow> silent heard c c'"
  by (simp add: silent_def moves_refl)

lemma silent_world: "heard w = heard (cl_stream c) \<Longrightarrow> silent heard c (c\<lparr>cl_stream := w\<rparr>)"
  by (rule silentI) simp_all

interpretation quiet: client_step tr "\<lambda>c c'. hears tr heard \<longrightarrow> silent heard c c'" for tr heard
proof (unfold_locales, goal_cases)
  case (2 c1 c2 c3)
  then show ?case by (blast intro: silent_trans)
qed (auto intro: silentI silent_world hears_calls)

lemma quiet_keeps:
  "hears tr heard \<Longrightarrow> keeps (\<lambda>c c'. hears tr heard \<longrightarrow> silent heard c c') m \<Longrightarrow> keeps (silent heard) m"
  by (simp add: keeps_def)

lemma read_chunk_silent:
  assumes "hears tr heard" "transport_ok tr" "read_chunk tr c = Some (r, c')"
  shows "silent heard c c'"
proof (cases "remaining_capacity (cl_frame_reader c) = 0")
  case True
  with assms(3) show ?thesis by (auto simp: read_chunk_def intro: silentI)
next
  case False
  obtain x w where x: "tr_read tr (min (remaining_capacity (cl_frame_reader c)) 8192) (cl_stream c) = (x, w)"
    by (metis surj_pair)
  note h = hears_read [OF assms(1) x]
  show ?thesis
  proof (cases x)
    case (Inl e)
    with assms(3) x False h show ?thesis
      by (auto simp: read_chunk_def on_stream_def split: if_splits intro: silentI)
  next
    case (Inr bs)
    then have "length bs \<le> remaining_capacity (cl_frame_reader c)"
      using x assms(2) unfolding transport_ok_def by (metis min.bounded_iff)
    then have push: "takes (cl_frame_reader c) bs [] (frame_push (cl_frame_reader c) bs)" by (rule takes_push)
    obtain t w' where t: "tr_now tr w = (t, w')" by (metis surj_pair)
    with h hears_calls(7) [OF assms(1) t] Inr have "heard w' = heard (cl_stream c) @ bs" by simp
    with assms(3) x False Inr t push h show ?thesis
      by (auto simp: read_chunk_def on_stream_def andM_def nowM_def updM_def silent_def moves_def takes_refl split: if_splits)
  qed
qed

text \<open>An operation that returns the packet it takes.\<close>

definition reads :: "('w \<Rightarrow> bytes) \<Rightarrow> ('w, Packet) client_op \<Rightarrow> bool" where
  "reads heard m \<longleftrightarrow> (\<forall>c r c'. m c = Some (r, c') \<longrightarrow>
     moves heard (case r of Inr p \<Rightarrow> [p] | Inl _ \<Rightarrow> []) c c' \<and> cl_incoming c' = cl_incoming c)"

lemma readsD:
  "reads heard m \<Longrightarrow> m c = Some (r, c') \<Longrightarrow>
     moves heard (case r of Inr p \<Rightarrow> [p] | Inl _ \<Rightarrow> []) c c' \<and> cl_incoming c' = cl_incoming c"
  by (simp add: reads_def)

lemma reads_after:
  assumes "keeps (silent heard) m" "\<And>x. reads heard (k x)"
  shows "reads heard (andM m k)"
  unfolding reads_def
proof (intro allI impI)
  fix c r c'
  assume "andM m k c = Some (r, c')"
  then consider e where "m c = Some (Err e, c')" "r = Err e" | x c1 where "m c = Some (Ok x, c1)" "k x c1 = Some (r, c')"
    unfolding andM_Some by blast
  then show "moves heard (case r of Inr p \<Rightarrow> [p] | Inl _ \<Rightarrow> []) c c' \<and> cl_incoming c' = cl_incoming c"
  proof cases
    case 2
    then have "silent heard c c1" using assms(1) by (auto simp: keeps_def)
    with readsD [OF assms(2) 2(2)] show ?thesis using moves_trans [of heard "[]" c c1] by (auto simp: silent_def)
  qed (use assms(1) in \<open>auto simp: keeps_def silent_def\<close>)
qed

lemma packet_read_Ok: "packet_read tr p c = Some (r, c') \<Longrightarrow> r = Ok p"
  by (auto simp: packet_read_def andM_Some returns_def updM_def nowM_def split: prod.splits)

lemma reads_packet_until:
  assumes "hears tr heard" "transport_ok tr"
  shows "reads heard (read_packet_until tr dl)"
proof -
  have quiet: "keeps (silent heard) (service_timers tr dl)" "keeps (silent heard) (set_timeout tr dl)"
    "keeps (silent heard) (read_chunk tr)" "keeps (silent heard) (packet_read tr p)" for dl p
    using quiet_keeps [OF assms(1) quiet.stable_service_timers] quiet_keeps [OF assms(1) quiet.stable_set_timeout]
      quiet_keeps [OF assms(1) quiet.stable_packet_read] read_chunk_silent [OF assms] by (simp_all add: keeps_def)
  have "tr' = tr \<longrightarrow> moves heard (case fst y of Inr p \<Rightarrow> [p] | Inl _ \<Rightarrow> []) c (snd y) \<and> cl_incoming (snd y) = cl_incoming c"
    if "read_packet_until tr' dl c = Some y" for tr' dl c y
    using that
  proof (rule read_packet_until.raw_induct [rotated], goal_cases)
    case (1 rpu tr' dl c y)
    show ?case
    proof (intro impI)
      assume tr: "tr' = tr"
      obtain r c' where y: "y = (r, c')" by (metis surj_pair)
      have "reads heard (rpu tr dl)" using 1(1) tr by (fastforce simp: reads_def)
      then have loop: "reads heard (andM (service_timers tr dl) (\<lambda>_.
         andM (set_timeout tr dl) (\<lambda>_. andM (read_chunk tr) (\<lambda>_. rpu tr dl))))"
        by (intro reads_after quiet)
      obtain d fr where d: "try_decode (cl_frame_reader c) = (d, fr)" by (metis surj_pair)
      let ?c = "c\<lparr>cl_frame_reader := fr\<rparr>"
      have fr: "moves heard (case d of Inr (Some p) \<Rightarrow> [p] | _ \<Rightarrow> []) c ?c"
        using takes_decode [OF d] by (auto simp: moves_def)
      consider e where "d = Err e" | "d = Ok None" | p where "d = Ok (Some p)" by (cases d) auto
      then show "moves heard (case fst y of Inr p \<Rightarrow> [p] | Inl _ \<Rightarrow> []) c (snd y) \<and> cl_incoming (snd y) = cl_incoming c"
      proof cases
        case 1
        then show ?thesis using \<open>_ = Some y\<close> d tr fr by (auto simp: moves_def)
      next
        case 2
        then have "moves heard (case r of Inr p \<Rightarrow> [p] | Inl _ \<Rightarrow> []) ?c c' \<and> cl_incoming c' = cl_incoming ?c"
          using readsD [OF loop, of ?c r c'] \<open>_ = Some y\<close> d tr y by simp
        then show ?thesis using moves_trans [OF fr] 2 y by simp
      next
        case 3
        then have read: "packet_read tr p ?c = Some (r, c')" using \<open>_ = Some y\<close> d tr y by simp
        then have "silent heard ?c c'" using quiet(4) by (simp add: keeps_def)
        then show ?thesis
          using moves_trans [OF fr, of "[]" c'] 3 y packet_read_Ok [OF read] by (simp add: silent_def)
      qed
    qed
  qed
  then show ?thesis by (fastforce simp: reads_def)
qed

section \<open>Messages are queued as they come\<close>

text \<open>
  \<open>xs\<close> are messages that were taken but not queued before the operation.  Afterwards everything that was
  taken is queued, but for one message at most, for which there was no room; then the client is closed.
\<close>

definition queues :: "('w \<Rightarrow> bytes) \<Rightarrow> PublishPacket list \<Rightarrow> 'w MqttClient \<Rightarrow> bool \<Rightarrow> 'w MqttClient \<Rightarrow> bool" where
  "queues heard xs c ok c' \<longleftrightarrow> (\<exists>ps qs lost. moves heard ps c c' \<and> cl_incoming c' = cl_incoming c @ qs
     \<and> xs @ messages ps = qs @ lost \<and> length lost \<le> 1 \<and> (lost \<noteq> [] \<longrightarrow> \<not> cl_connected c' \<and> \<not> ok))"

lemma queuesI:
  "moves heard ps c c' \<Longrightarrow> cl_incoming c' = cl_incoming c @ qs \<Longrightarrow> xs @ messages ps = qs @ lost \<Longrightarrow> length lost \<le> 1
    \<Longrightarrow> (lost \<noteq> [] \<Longrightarrow> \<not> cl_connected c' \<and> \<not> ok) \<Longrightarrow> queues heard xs c ok c'"
  unfolding queues_def by blast

lemma queuesE:
  assumes "queues heard xs c ok c'"
  obtains ps qs lost where "moves heard ps c c'" "cl_incoming c' = cl_incoming c @ qs" "xs @ messages ps = qs @ lost"
    "length lost \<le> 1" "lost \<noteq> [] \<longrightarrow> \<not> cl_connected c' \<and> \<not> ok"
  using assms unfolding queues_def by blast

definition counted :: "('w \<Rightarrow> bytes) \<Rightarrow> PublishPacket list \<Rightarrow> ('w, 'a) client_op \<Rightarrow> bool" where
  "counted heard xs m \<longleftrightarrow> (\<forall>c r c'. m c = Some (r, c') \<longrightarrow> queues heard xs c (is_ok r) c')"

lemma countedI: "(\<And>c r c'. m c = Some (r, c') \<Longrightarrow> queues heard xs c (is_ok r) c') \<Longrightarrow> counted heard xs m"
  by (simp add: counted_def)

lemma countedD: "counted heard xs m \<Longrightarrow> m c = Some (r, c') \<Longrightarrow> queues heard xs c (is_ok r) c'"
  by (simp add: counted_def)

lemma counted_silent:
  assumes "keeps (silent heard) m"
  shows "counted heard [] m"
proof (rule countedI)
  fix c r c'
  assume "m c = Some (r, c')"
  then have "silent heard c c'" using assms by (simp add: keeps_def)
  then show "queues heard [] c (is_ok r) c'"
    by (intro queuesI [of heard "[]" c c' "[]" _ "[]"]) (simp_all add: silent_def)
qed

lemma counted_andM:
  assumes "counted heard xs m" "\<And>x. counted heard [] (k x)"
  shows "counted heard xs (andM m k)"
proof (rule countedI)
  fix c r c'
  assume "andM m k c = Some (r, c')"
  then consider e where "m c = Some (Err e, c')" "r = Err e" | x c1 where "m c = Some (Ok x, c1)" "k x c1 = Some (r, c')"
    unfolding andM_Some by blast
  then show "queues heard xs c (is_ok r) c'"
  proof cases
    case 1
    then show ?thesis using countedD [OF assms(1)] by (fastforce simp: is_ok_def)
  next
    case 2
    obtain ps qs where one: "moves heard ps c c1" "cl_incoming c1 = cl_incoming c @ qs" "xs @ messages ps = qs"
      by (rule queuesE [OF countedD [OF assms(1) 2(1)]]) (simp add: is_ok_def)
    obtain ps' qs' lost where two: "moves heard ps' c1 c'" "cl_incoming c' = cl_incoming c1 @ qs'"
      "messages ps' = qs' @ lost" "length lost \<le> 1" "lost \<noteq> [] \<longrightarrow> \<not> cl_connected c' \<and> \<not> is_ok r"
      by (rule queuesE [OF countedD [OF assms(2) 2(2)]]) simp
    show ?thesis
      using one(2) one(3) [symmetric] two(2-5)
      by (intro queuesI [OF moves_trans [OF one(1) two(1)], of "qs @ qs'" _ lost]) simp_all
  qed
qed

lemma counted_read:
  assumes "reads heard m" "\<And>p. counted heard (messages [p]) (k p)"
  shows "counted heard [] (andM m k)"
proof (rule countedI)
  fix c r c'
  assume "andM m k c = Some (r, c')"
  then consider e where "m c = Some (Err e, c')" "r = Err e" | p c1 where "m c = Some (Ok p, c1)" "k p c1 = Some (r, c')"
    unfolding andM_Some by blast
  then show "queues heard [] c (is_ok r) c'"
  proof cases
    case 1
    from readsD [OF assms(1) 1(1)] show ?thesis by (intro queuesI [of heard "[]" c c' "[]" _ "[]"]) simp_all
  next
    case 2
    from readsD [OF assms(1) 2(1)] have one: "moves heard [p] c c1" "cl_incoming c1 = cl_incoming c" by simp_all
    obtain ps qs lost where two: "moves heard ps c1 c'" "cl_incoming c' = cl_incoming c1 @ qs"
      "messages [p] @ messages ps = qs @ lost" "length lost \<le> 1" "lost \<noteq> [] \<longrightarrow> \<not> cl_connected c' \<and> \<not> is_ok r"
      by (rule queuesE [OF countedD [OF assms(2) 2(2)]])
    have "[] @ messages ([p] @ ps) = qs @ lost" using two(3) by (simp only: messages_simps append_Nil)
    with one two show ?thesis by (intro queuesI [OF moves_trans [OF one(1) two(1)], of qs _ lost]) simp_all
  qed
qed

text \<open>A message is queued before it is acknowledged; only for want of room it is not queued.\<close>

lemma accept_publish_queues:
  assumes "hears tr heard" "accept_publish tr p c = Some (r, c')"
  shows "moves heard [] c c' \<and> (cl_incoming c' = cl_incoming c @ [p]
    \<or> c' = c \<and> r = Err (QueueFull ''incoming message'') \<and> cl_max_incoming_messages c \<le> length (cl_incoming c))"
proof (cases "cl_max_incoming_messages c \<le> length (cl_incoming c)")
  case True
  then show ?thesis using assms(2) by (auto simp: accept_publish_def moves_refl)
next
  case False
  let ?c = "c\<lparr>cl_incoming := cl_incoming c @ [p]\<rparr>"
  have "keeps (silent heard) (andM (returns (case pub_packet_id p of Some i \<Rightarrow> Ok i
           | None \<Rightarrow> Err (MalformedPacket ''QoS 1 PUBLISH missing packet identifier''))) (send_puback tr))"
    by (rule quiet_keeps [OF assms(1)]) (intro quiet.stable_intros quiet.stable_send_puback)
  then have "silent heard ?c c'"
    using assms(2) False by (auto simp: accept_publish_def keeps_def Let_def split: if_splits intro: silentI)
  then show ?thesis using moves_trans [of heard "[]" c ?c "[]" c'] by (simp add: silent_def moves_refl)
qed

lemma counted_accept_during_ack:
  assumes "hears tr heard"
  shows "counted heard [p] (accept_publish_during_ack tr p)"
proof (rule countedI)
  fix c r c'
  assume "accept_publish_during_ack tr p c = Some (r, c')"
  then obtain c1 where c1: "accept_publish tr p c = Some (r, c1)"
    "c' = (case r of Inl e \<Rightarrow> if (case e of QueueFull _ \<Rightarrow> True | _ \<Rightarrow> False) then c1\<lparr>cl_connected := False\<rparr> else c1 | Inr _ \<Rightarrow> c1)"
    by (auto simp: accept_publish_during_ack_def closing_on_Some)
  have moved: "moves heard [] c c'" and "cl_incoming c' = cl_incoming c1"
    using accept_publish_queues [OF assms c1(1)] c1(2) by (auto simp: moves_def split: sum.splits if_splits)
  with accept_publish_queues [OF assms c1(1)] consider "cl_incoming c' = cl_incoming c @ [p]"
    | "cl_incoming c' = cl_incoming c" "r = Err (QueueFull ''incoming message'')" by auto
  then show "queues heard [p] c (is_ok r) c'"
  proof cases
    case 1
    with moved show ?thesis by (intro queuesI [OF moved, of "[p]" _ "[]"]) simp_all
  next
    case 2
    with c1(2) show ?thesis by (intro queuesI [OF moved, of "[]" _ "[p]"]) (simp_all add: is_ok_def)
  qed
qed

lemma counted_keeps: "hears tr heard \<Longrightarrow> keeps (\<lambda>c c'. hears tr heard \<longrightarrow> silent heard c c') m \<Longrightarrow> counted heard [] m"
  by (blast intro: counted_silent quiet_keeps)

lemma reads_ack_packet:
  assumes "hears tr heard" "transport_ok tr"
  shows "reads heard (read_ack_packet tr dl)"
  unfolding reads_def
proof (intro allI impI)
  fix c r c'
  assume "read_ack_packet tr dl c = Some (r, c')"
  then obtain c1 where "read_packet_until tr (Some dl) c = Some (r, c1)" "c' = c1 \<or> c' = c1\<lparr>cl_connected := False\<rparr>"
    by (cases r) (auto simp: read_ack_packet_def closing_on_Some)
  with readsD [OF reads_packet_until [OF assms] this(1)]
  show "moves heard (case r of Inr p \<Rightarrow> [p] | Inl _ \<Rightarrow> []) c c' \<and> cl_incoming c' = cl_incoming c" by (auto simp: moves_def)
qed

lemma counted_wait_loop:
  assumes "hears tr heard" "transport_ok tr" "\<And>p. matches (Pkt_Publish p) = None"
  shows "counted heard [] (wait_loop tr matches failure dl)"
proof -
  have "tr' = tr \<longrightarrow> matches' = matches \<longrightarrow> queues heard [] c (is_ok (fst y)) (snd y)"
    if "wait_loop tr' matches' failure dl c = Some y" for tr' matches' failure dl c y
    using that
  proof (rule wait_loop.raw_induct [rotated], goal_cases)
    case (1 wl tr' matches' failure dl c y)
    show ?case
    proof (intro impI)
      assume tr: "tr' = tr" and m: "matches' = matches"
      have wl: "counted heard [] (wl tr matches failure dl)" using 1(1) tr m by (fastforce simp: counted_def)
      have "counted heard (messages [p]) (\<lambda>c. case matches p of
         Some r \<Rightarrow> Some (r, if (case r of Inl (MalformedPacket _) \<Rightarrow> True | _ \<Rightarrow> False) then c\<lparr>cl_connected := False\<rparr> else c)
       | None \<Rightarrow>
           (case p of
              Pkt_Publish p \<Rightarrow> andM (accept_publish_during_ack tr p) (\<lambda>_ c. wl tr matches failure dl c) c
            | Pkt_Disconnect p \<Rightarrow> server_disconnect p c
            | Pkt_PingResp \<Rightarrow> wl tr matches failure dl c
            | _ \<Rightarrow> protocol_failure failure c))" (is "counted heard _ ?k") for p
      proof (cases "\<exists>q. p = Pkt_Publish q")
        case True
        then show ?thesis using assms(3) counted_andM [OF counted_accept_during_ack [OF assms(1)] wl] by auto
      next
        case False
        then have none: "messages [p] = []" by (intro messages_other) blast
        have "counted heard [] (\<lambda>c. Some (r, if b r then c\<lparr>cl_connected := False\<rparr> else c))" for b and r :: "unit result"
          by (rule counted_silent) (auto simp: keeps_def intro: silentI)
        moreover have "counted heard [] (server_disconnect q)" "counted heard [] (protocol_failure failure)" for q
          by (rule counted_keeps [OF assms(1)] quiet.stable_server_disconnect quiet.stable_protocol_failure)+
        ultimately show ?thesis unfolding none using wl False by (cases "matches p"; cases p) simp_all
      qed
      from counted_read [OF reads_ack_packet [OF assms(1,2)] this, of dl] 1(2) [unfolded tr m]
      show "queues heard [] c (is_ok (fst y)) (snd y)"
        by (cases y) (auto simp: counted_def)
    qed
  qed
  then show ?thesis by (fastforce simp: counted_def)
qed

text \<open>The operations other than \<^verbatim>\<open>recv\<close>.\<close>

definition client_calls :: "'w Transport \<Rightarrow> ('w, unit) client_op set" where
  "client_calls tr = {client_disconnect tr} \<union> range (client_unsubscribe tr) \<union> (\<Union>flt. range (client_subscribe tr flt))
     \<union> (\<Union>topic payload. range (client_publish tr topic payload))"

lemma counted_wait_for:
  assumes "hears tr heard" "transport_ok tr"
  shows "counted heard [] (wait_for_puback tr i)" "counted heard [] (wait_for_suback tr i q)" "counted heard [] (wait_for_unsuback tr i)"
  unfolding wait_for_puback_def wait_for_suback_def wait_for_unsuback_def
  by (intro counted_andM counted_keeps [OF assms(1) quiet.stable_ack_deadline] counted_wait_loop [OF assms];
      simp add: puback_matches_def suback_matches_def unsuback_matches_def)+

lemma counted_calls:
  assumes "hears tr heard" "transport_ok tr" "m \<in> client_calls tr"
  shows "counted heard [] m"
proof -
  note steps = counted_andM counted_wait_for [OF assms(1,2)] counted_keeps [OF assms(1) quiet.stable_ensure_connected]
    counted_keeps [OF assms(1) quiet.stable_returns] counted_keeps [OF assms(1) quiet.stable_observe]
    counted_keeps [OF assms(1) quiet.stable_next_packet_idM] counted_keeps [OF assms(1) quiet.stable_send_encoded]
  have "counted heard [] (case i of Some i \<Rightarrow> wait_for_puback tr i | None \<Rightarrow> returns (Ok ()))" for i
    by (cases i) (simp_all add: steps)
  then have "counted heard [] (client_publish tr topic payload opts)" for topic payload opts
    unfolding client_publish_def by (cases "po_qos opts = AtMostOnce") (simp_all add: steps)
  moreover have "counted heard [] (client_subscribe tr flt q)" "counted heard [] (client_unsubscribe tr flt)" for flt q
    unfolding client_subscribe_def client_unsubscribe_def by (intro steps)+
  ultimately show ?thesis
    using assms(3) counted_keeps [OF assms(1) quiet.stable_disconnect] by (auto simp: client_calls_def)
qed

lemma calls_closed:
  assumes "hears tr heard" "m \<in> client_calls tr" "\<not> cl_connected c" "m c = Some (r, c')"
  shows "silent heard c c' \<and> \<not> cl_connected c'"
proof -
  have "silent heard c (c\<lparr>cl_stream := w\<rparr>)" if "tr_shutdown tr (cl_stream c) = (x, w)" for x w
    by (rule silent_world, rule hears_calls(6) [OF assms(1) that])
  then show ?thesis
    using assms(2-4)
    by (auto simp: client_calls_def client_publish_def client_subscribe_def client_unsubscribe_def client_disconnect_def
        andM_def ensure_connected_def ioM_def on_stream_def split: prod.splits intro: silentI)
qed

section \<open>Receiving\<close>

definition got :: "PublishPacket option result \<Rightarrow> PublishPacket list" where
  "got r = (case r of Inr (Some p) \<Rightarrow> [p] | _ \<Rightarrow> [])"

lemma accept_and_pop:
  assumes "hears tr heard" "andM (accept_publish tr p) (\<lambda>_. pop_incoming) c = Some (r, c')"
    and "cl_incoming c = []" "0 < cl_max_incoming_messages c"
  shows "moves heard [] c c' \<and> got r @ cl_incoming c' = [p]"
proof -
  obtain x c1 where x: "accept_publish tr p c = Some (x, c1)" using assms(2) by (auto simp: andM_Some)
  note q = accept_publish_queues [OF assms(1) x]
  with assms(3,4) have "moves heard [] c c1" "cl_incoming c1 = [p]" by auto
  with assms(2) x show ?thesis by (cases x) (auto simp: andM_def pop_incoming_def got_def moves_def)
qed

lemma recv_loop_receives:
  assumes "hears tr heard" "transport_ok tr" "recv_loop tr c = Some (r, c')" "cl_incoming c = []" "0 < cl_max_incoming_messages c"
  shows "\<exists>ps. moves heard ps c c' \<and> messages ps = got r @ cl_incoming c'"
proof -
  have "tr' = tr \<longrightarrow> cl_incoming c = [] \<longrightarrow> 0 < cl_max_incoming_messages c \<longrightarrow>
      (\<exists>ps. moves heard ps c (snd y) \<and> messages ps = got (fst y) @ cl_incoming (snd y))"
    if "recv_loop tr' c = Some y" for tr' c y
    using that
  proof (rule recv_loop.raw_induct [rotated], goal_cases)
    case (1 rl tr' c y)
    show ?case
    proof (intro impI)
      assume tr: "tr' = tr" and c: "cl_incoming c = []" "0 < cl_max_incoming_messages c"
      obtain x c1 where x: "read_packet_until tr None c = Some (x, c1)" using 1(2) tr by (auto simp: andM_def bind_eq_Some_conv)
      note read = readsD [OF reads_packet_until [OF assms(1,2)] x]
      have c1: "cl_incoming c1 = []" "0 < cl_max_incoming_messages c1"
        using read c session.stableD [OF session.stable_read_packet_until [OF assms(2)] x] by (auto simp: same_session_def)
      show "\<exists>ps. moves heard ps c (snd y) \<and> messages ps = got (fst y) @ cl_incoming (snd y)"
      proof (cases x)
        case (Inl e)
        then show ?thesis using 1(2) x read c tr by (intro exI [of _ "[]"]) (auto simp: andM_def got_def)
      next
        case (Inr p)
        have then1: "\<exists>ps. moves heard ps c (snd y) \<and> messages ps = got (fst y) @ cl_incoming (snd y)"
          if "moves heard qs c1 (snd y)" "messages [p] @ messages qs = got (fst y) @ cl_incoming (snd y)" for qs
          using moves_trans [of heard "[p]" c c1 qs] that read Inr messages_simps(2) [of "[p]" qs] by (intro exI [of _ "[p] @ qs"]) simp
        have other: "cl_stream (snd y) = cl_stream c1 \<and> cl_frame_reader (snd y) = cl_frame_reader c1
            \<and> cl_incoming (snd y) = [] \<and> got (fst y) = []" if "\<forall>q. p \<noteq> Pkt_Publish q" "p \<noteq> Pkt_PingResp"
          using that 1(2) x Inr tr c1 by (cases p) (auto simp: andM_def protocol_failure_def got_def)
        consider q where "p = Pkt_Publish q" | "p = Pkt_PingResp" | "\<forall>q. p \<noteq> Pkt_Publish q" "p \<noteq> Pkt_PingResp" by blast
        then show ?thesis
        proof cases
          case Pkt_Publish: 1
          then have "andM (accept_publish tr q) (\<lambda>_. pop_incoming) c1 = Some (fst y, snd y)"
            using \<open>_ = Some y\<close> x Inr tr by (simp add: andM_def)
          from accept_and_pop [OF assms(1) this c1] show ?thesis using Pkt_Publish by (intro then1 [of "[]"]) simp_all
        next
          case Pkt_PingResp: 2
          then have "rl tr c1 = Some y" using \<open>_ = Some y\<close> x Inr tr by (simp add: andM_def)
          then obtain qs where "moves heard qs c1 (snd y)" "messages qs = got (fst y) @ cl_incoming (snd y)"
            using 1(1) tr c1 by blast
          then show ?thesis using Pkt_PingResp by (intro then1 [of qs]) (simp_all add: messages_other)
        next
          case 3
          then show ?thesis using other messages_other [of p] by (intro then1 [of "[]"]) (simp_all add: moves_refl)
        qed
      qed
    qed
  qed
  from this [OF assms(3)] assms(4,5) show ?thesis by simp
qed

lemma recv_receives:
  assumes "hears tr heard" "transport_ok tr" "client_recv tr c = Some (r, c')" "0 < cl_max_incoming_messages c"
  shows "\<exists>ps. moves heard ps c c' \<and> cl_incoming c @ messages ps = got r @ cl_incoming c'"
proof (cases "cl_connected c \<and> cl_incoming c = []")
  case True
  then show ?thesis using recv_loop_receives [OF assms(1,2) _ _ assms(4)] assms(3)
    by (simp add: client_recv_def andM_def ensure_connected_def)
next
  case False
  then have "moves heard [] c c' \<and> cl_incoming c = got r @ cl_incoming c'"
    using assms(3) by (auto simp: client_recv_def andM_def ensure_connected_def got_def neq_Nil_conv
        moves_refl split: if_splits)
  then show ?thesis by (intro exI [of _ "[]"]) simp
qed

section \<open>Sessions\<close>

text \<open>
  A program connects on a world \<open>w\<close> and calls operations; \<open>d\<close> are the messages \<^verbatim>\<open>recv\<close> has returned to it.
\<close>

inductive client_session ::
  "'w Transport \<Rightarrow> ConnectOptions \<Rightarrow> 'w \<Rightarrow> 'w MqttClient \<Rightarrow> PublishPacket list \<Rightarrow> bool" for tr opts w where
  session_connect: "connect_with tr opts w = Some (Ok c) \<Longrightarrow> client_session tr opts w c []"
| session_call: "client_session tr opts w c d \<Longrightarrow> m \<in> client_calls tr \<Longrightarrow> m c = Some (r, c')
    \<Longrightarrow> client_session tr opts w c' d"
| session_recv: "client_session tr opts w c d \<Longrightarrow> client_recv tr c = Some (r, c')
    \<Longrightarrow> client_session tr opts w c' (d @ got r)"

text \<open>The handshake takes one packet, the CONNACK.\<close>

definition greets :: "('w \<Rightarrow> bytes) \<Rightarrow> ('w, unit) client_op \<Rightarrow> bool" where
  "greets heard m \<longleftrightarrow> (\<forall>c c'. m c = Some (Ok (), c') \<longrightarrow>
     (\<exists>a. moves heard [Pkt_ConnAck a] c c' \<and> cl_incoming c' = cl_incoming c))"

lemma greets_after:
  assumes "keeps (silent heard) m" "\<And>x. greets heard (k x)"
  shows "greets heard (andM m k)"
  unfolding greets_def andM_Ok
proof (intro allI impI, elim exE conjE)
  fix c c' x c1
  assume "m c = Some (Ok x, c1)" "k x c1 = Some (Ok (), c')"
  then obtain a where "silent heard c c1" "moves heard [Pkt_ConnAck a] c1 c'" "cl_incoming c' = cl_incoming c1"
    using assms by (fastforce simp: keeps_def greets_def)
  then show "\<exists>a. moves heard [Pkt_ConnAck a] c c' \<and> cl_incoming c' = cl_incoming c"
    using moves_trans [of heard "[]" c c1] by (auto simp: silent_def)
qed

lemma greets_read:
  assumes "reads heard m" "\<And>p c c'. k p c = Some (Ok (), c') \<Longrightarrow> (\<exists>a. p = Pkt_ConnAck a) \<and> silent heard c c'"
  shows "greets heard (andM m k)"
  unfolding greets_def andM_Ok
proof (intro allI impI, elim exE conjE)
  fix c c' p c1
  assume "m c = Some (Ok p, c1)" "k p c1 = Some (Ok (), c')"
  then show "\<exists>a. moves heard [Pkt_ConnAck a] c c' \<and> cl_incoming c' = cl_incoming c"
    using readsD [OF assms(1)] assms(2) moves_trans [of heard "[p]" c c1 "[]" c'] by (fastforce simp: silent_def)
qed

lemma accept_connack_silent:
  "client_accept_connack opts p c = Some (Ok (), c') \<Longrightarrow> (\<exists>a. p = Pkt_ConnAck a) \<and> silent heard c c'"
  by (auto simp: client_accept_connack_def andM_Ok returns_def Let_def
      split: Packet.splits if_splits option.splits intro!: silentI)

lemma handshake_greets:
  assumes "hears tr heard" "transport_ok tr"
  shows "greets heard (client_handshake tr opts)"
proof -
  note q = quiet_keeps [OF assms(1)]
  have deadline: "keeps (silent heard) (deadline_after tr d op)" for d op
    unfolding deadline_after_def by (rule q) (intro quiet.stable_intros)
  have upd: "keeps (silent heard) (updM f)" if "\<And>c. cl_stream (f c) = cl_stream c \<and> cl_frame_reader (f c) = cl_frame_reader c
      \<and> cl_incoming (f c) = cl_incoming c" for f
    using that by (auto simp: keeps_def updM_def intro: silentI)
  have timeout: "keeps (silent heard) (\<lambda>c. ioM (tr_set_write_timeout tr (Some (cl_ack_timeout c))) c)"
    using q [OF quiet.stable_calls(3)] by (auto simp: keeps_def)
  have finish: "(\<exists>a. p = Pkt_ConnAck a) \<and> silent heard c c'"
    if "andM (client_accept_connack opts p) (\<lambda>_. andM (updM (\<lambda>c. c\<lparr>cl_connected := True\<rparr>)) (\<lambda>_.
       andM (ioM (tr_set_read_timeout tr None)) (\<lambda>_ c. ioM (tr_set_write_timeout tr (Some (cl_ack_timeout c))) c))) c
         = Some (Ok (), c')" for p c c'
  proof -
    from that obtain c1 c2 c3 where "client_accept_connack opts p c = Some (Ok (), c1)" "silent heard c1 c2"
      "silent heard c2 c3" "silent heard c3 c'"
      using q [OF quiet.stable_calls(2)] timeout upd [of "\<lambda>c. c\<lparr>cl_connected := True\<rparr>"]
      by (fastforce simp: andM_Ok keeps_def)
    then show ?thesis using accept_connack_silent [of opts p c c1 heard] by (blast intro: silent_trans)
  qed
  show ?thesis
    unfolding client_handshake_def
    by (intro greets_after greets_read [OF reads_packet_until [OF assms] finish] deadline
        q [OF quiet.stable_now] q [OF quiet.stable_returns] q [OF quiet.stable_send_encoded]
        q [OF quiet.stable_calls(1)] q [OF quiet.stable_calls(2)] q [OF quiet.stable_calls(3)] upd) simp
qed

lemma client_session_inv:
  assumes "client_session tr opts w c d" "transport_ok tr"
  shows "client_inv opts c \<and> 0 < co_max_incoming_messages opts"
  using assms
proof (induction rule: client_session.induct)
  case (session_connect c)
  from handshake_validated [OF connect_with_handshake [OF session_connect(1)]] connect_with_inv [OF session_connect] show ?case by (auto simp: options_validate_Ok)
next
  case (session_call c d m r c')
  have "keeps (\<lambda>c c'. client_inv opts c \<longrightarrow> client_inv opts c') m"
    using session_call(2) inv.stable_publish [OF assms(2)] inv.stable_subscribe [OF assms(2)] inv.stable_unsubscribe [OF assms(2)]
      inv.stable_disconnect by (auto simp: client_calls_def)
  with session_call show ?case unfolding keeps_def by blast
next
  case (session_recv c d r c')
  then show ?case using inv.stableD [OF inv.stable_recv] by blast
qed

text \<open>
  All packets taken from the stream so far, and their messages: returned to the program, queued, or, for the one
  that closed the client, lost.
\<close>

definition delivering :: "('w \<Rightarrow> bytes) \<Rightarrow> nat \<Rightarrow> 'w MqttClient \<Rightarrow> PublishPacket list \<Rightarrow> PublishPacket list \<Rightarrow> bool" where
  "delivering heard mx c d lost \<longleftrightarrow> (\<exists>ps. drained mx [] (heard (cl_stream c)) ps (fr_buf (cl_frame_reader c))
     \<and> messages ps = d @ cl_incoming c @ lost)"

lemma delivering_moves:
  assumes "delivering heard (co_max_packet_size opts) c d lost" "moves heard ps c c'" "client_inv opts c"
    and "cl_incoming c @ lost @ messages ps = d' @ cl_incoming c' @ lost'"
  shows "delivering heard (co_max_packet_size opts) c' (d @ d') lost'"
proof -
  from assms(2) obtain bs where bs: "heard (cl_stream c') = heard (cl_stream c) @ bs"
    "takes (cl_frame_reader c) bs ps (cl_frame_reader c')" by (auto simp: moves_def)
  from assms(1) obtain qs where qs: "drained (co_max_packet_size opts) [] (heard (cl_stream c)) qs (fr_buf (cl_frame_reader c))"
    "messages qs = d @ cl_incoming c @ lost" by (auto simp: delivering_def)
  have "drained (co_max_packet_size opts) (fr_buf (cl_frame_reader c)) bs ps (fr_buf (cl_frame_reader c'))"
    using bs(2) assms(3) by (simp add: takes_def client_inv_def)
  from drained_trans [OF qs(1) this] qs(2) bs(1) assms(4) show ?thesis
    by (auto simp: delivering_def intro!: exI [of _ "qs @ ps"])
qed

lemma session_delivering:
  assumes "client_session tr opts w c d" "transport_ok tr" "hears tr heard" "heard w = []"
  shows "\<exists>lost. delivering heard (co_max_packet_size opts) c d lost \<and> length lost \<le> 1 \<and> (cl_connected c \<longrightarrow> lost = [])"
  using assms
proof (induction rule: client_session.induct)
  case (session_connect c)
  note run = connect_with_handshake [OF session_connect(1)]
  obtain a where a: "moves heard [Pkt_ConnAck a] (fresh_client opts w) c" "cl_incoming c = []"
    using handshake_greets [OF session_connect(3,2), of opts] run by (fastforce simp: greets_def fresh_client_def)
  have "co_max_packet_size opts \<le> 268435460" using handshake_validated [OF run] by (auto simp: options_validate_Ok)
  then have "takes (FrameReader_with_max_packet_size (co_max_packet_size opts)) (heard (cl_stream c)) [Pkt_ConnAck a] (cl_frame_reader c)"
    using a(1) session_connect(4) by (auto simp: moves_def fresh_client_def)
  with frame_inv_new [of "co_max_packet_size opts"] \<open>_ \<le> 268435460\<close>
  have "drained (co_max_packet_size opts) [] (heard (cl_stream c)) [Pkt_ConnAck a] (fr_buf (cl_frame_reader c))"
    by (simp add: takes_def usize_max_def) (simp add: FrameReader_with_max_packet_size_def)
  then show ?case using a(2) by (intro exI [of _ "[]"]) (auto simp: delivering_def messages_def)
next
  case (session_call c d m r c')
  then obtain lost where lost: "delivering heard (co_max_packet_size opts) c d lost" "length lost \<le> 1" "cl_connected c \<longrightarrow> lost = []" by blast
  note moved = delivering_moves [OF lost(1) _ conjunct1 [OF client_session_inv [OF session_call(1,5)]], where d' = "[]", simplified]
  show ?case
  proof (cases "cl_connected c")
    case True
    obtain ps qs lost' where "moves heard ps c c'" "cl_incoming c' = cl_incoming c @ qs" "messages ps = qs @ lost'"
      "length lost' \<le> 1" "lost' \<noteq> [] \<longrightarrow> \<not> cl_connected c'"
      by (rule queuesE [OF countedD [OF counted_calls [OF session_call(6,5,2)] session_call(3)]]) simp
    then show ?thesis using moved [of ps c' lost'] lost(3) True by (intro exI [of _ lost']) auto
  next
    case False
    from calls_closed [OF session_call(6,2) False session_call(3)] show ?thesis
      using moved [of "[]" c' lost] lost(2) by (intro exI [of _ lost]) (auto simp: silent_def)
  qed
next
  case (session_recv c d r c')
  then obtain lost where lost: "delivering heard (co_max_packet_size opts) c d lost" "length lost \<le> 1" "cl_connected c \<longrightarrow> lost = []" by blast
  note inv = client_session_inv [OF session_recv(1,4)]
  show ?case
  proof (cases "cl_connected c")
    case True
    have "0 < cl_max_incoming_messages c" using inv by (simp add: client_inv_def)
    from recv_receives [OF session_recv(5,4,2) this] obtain ps where
      "moves heard ps c c'" "cl_incoming c @ messages ps = got r @ cl_incoming c'" by blast
    then show ?thesis using delivering_moves [OF lost(1) _ conjunct1 [OF inv]] lost(3) True by (intro exI [of _ "[]"]) simp
  next
    case False
    then have "c' = c" "got r = []" using session_recv(2) by (auto simp: client_recv_def andM_def ensure_connected_def got_def)
    then show ?thesis using lost by auto
  qed
qed

section \<open>Delivery in order\<close>

text \<open>C6: The blocking client delivers the messages of its broker in order.  At every point of a session, whatever
  operations the program has called, the messages among the bytes read so far are, in this order: those that \<^verbatim>\<open>recv\<close>
  has returned, those that are queued, and those whose bytes are still in the parser.  None is delivered twice or out
  of order; none is left out while the client is connected, and at most one, for which the queue had no room, when
  that has closed it.\<close>

theorem messages_in_order:
  assumes "client_session tr opts w c d" "transport_ok tr" "hears tr heard" "heard w = []"
  shows "\<exists>lost. messages (fst (parse_stream (co_max_packet_size opts) (heard (cl_stream c))))
      = d @ cl_incoming c @ lost @ messages (fst (parse_stream (co_max_packet_size opts) (fr_buf (cl_frame_reader c))))
    \<and> length lost \<le> 1 \<and> (cl_connected c \<longrightarrow> lost = [])"
  using session_delivering [OF assms] by (fastforce simp: delivering_def drained_def)

lemma PUBLISH_frame:
  "try_decode \<lparr>fr_buf = [0x30, 5, 0, 1, 0x61, 0, 9], fr_state = ReadingHeader, fr_max_packet_size = 1048576, fr_overflow_size = None\<rparr>
   = (Ok (Some (Pkt_Publish \<lparr>pub_topic = [0x61], pub_packet_id = None, pub_payload = [9], pub_qos = AtMostOnce,
        pub_retain = False, pub_dup = False, pub_properties = Properties_new\<rparr>)),
     \<lparr>fr_buf = [], fr_state = ReadingHeader, fr_max_packet_size = 1048576, fr_overflow_size = None\<rparr>)"
  by (simp add: try_decode_def try_decode_loop.simps decode_fixed_header_def eval_defs PacketType_from_u8_def checked_add_def
     Packet_decode_def PublishPacket_decode_def props_decode_for_def props_decode_inner_def QoS_from_u8_def Properties_new_def
     validate_topic_name_def read_string_def read_binary_def decode_publish_id_def remaining_bytes_def utf8_cont_def)

lemma recv_scripted:
  "client_recv scripted (test_client [[0x30, 5, 0, 1, 0x61, 0, 9]] 8) =
     Some (Ok (Some \<lparr>pub_topic = [0x61], pub_packet_id = None, pub_payload = [9], pub_qos = AtMostOnce,
        pub_retain = False, pub_dup = False, pub_properties = Properties_new\<rparr>),
       (test_client [] 12)\<lparr>cl_stream := (12, [], [0x20, 3, 0, 0, 0, 0x30, 5, 0, 1, 0x61, 0, 9]), cl_last_read_at := 11\<rparr>)"
  by (simp add: client_recv_def client_eval ensure_connected_def test_client_def recv_loop.simps
      read_scripted [OF _ _ _ _ _ _ PUBLISH_frame] accept_publish_def pop_incoming_def)

theorem messages_in_order_witness:
  "messages (fst (parse_stream 1048576 [0x20, 3, 0, 0, 0, 0x30, 5, 0, 1, 0x61, 0, 9]))
     = [\<lparr>pub_topic = [0x61], pub_packet_id = None, pub_payload = [9], pub_qos = AtMostOnce,
        pub_retain = False, pub_dup = False, pub_properties = Properties_new\<rparr>]"
proof -
  let ?heard = "\<lambda>(t, cs, h). h :: bytes" and ?w = "(0, [[0x20, 3, 0, 0, 0], [0x30, 5, 0, 1, 0x61, 0, 9]], []) :: script"
  have "client_session scripted test_options ?w (test_client [[0x30, 5, 0, 1, 0x61, 0, 9]] 8) []"
    by (rule session_connect [OF handshake_scripted])
  note session = session_recv [OF this recv_scripted]
  have "hears scripted ?heard" by (auto simp: hears_def scripted_def split: list.splits)
  from messages_in_order [OF session scripted_ok(1) this] show ?thesis
    by (auto simp: got_def test_client_def test_options_def ConnectOptions_new_def ConnectOptions_default_def
        DEFAULT_MAX_PACKET_SIZE_def parse_stream.simps [of _ "[]"] next_packet_def)
qed

end
