(* ===== verification/Async_Delivery.thy ===== *)
theory Async_Delivery
  imports Async_Requests Client_Delivery
begin

text \<open>
  The messages that reach the asynchronous client: each one of the stream answers a request or becomes an
  event, in the order of the stream, and none is both, twice or left out.  A message is given up only by a
  phase that fails.
\<close>

section \<open>Histories\<close>

text \<open>
  \<open>heard\<close> reads off the world the bytes that were read, \<open>told\<close> the messages the event channel has accepted.
\<close>

definition overhears :: "'w Runtime \<Rightarrow> ('w \<Rightarrow> bytes) \<Rightarrow> ('w \<Rightarrow> PublishPacket list) \<Rightarrow> bool" where
  "overhears rt heard told \<longleftrightarrow> hears (rt_transport rt) heard
     \<and> (\<forall>n w. told (snd (tr_read (rt_transport rt) n w)) = told w)
     \<and> (\<forall>bs w. told (snd (tr_write (rt_transport rt) bs w)) = told w)
     \<and> (\<forall>w. told (snd (tr_flush (rt_transport rt) w)) = told w)
     \<and> (\<forall>w. told (snd (tr_shutdown (rt_transport rt) w)) = told w)
     \<and> (\<forall>w. told (snd (tr_now (rt_transport rt) w)) = told w)
     \<and> (\<forall>w. heard (snd (rt_try_recv rt w)) = heard w \<and> told (snd (rt_try_recv rt w)) = told w)
     \<and> (\<forall>d w. heard (snd (rt_recv_timeout rt d w)) = heard w \<and> told (snd (rt_recv_timeout rt d w)) = told w)
     \<and> (\<forall>ev w. heard (snd (rt_try_send_event rt ev w)) = heard w \<and> told (snd (rt_try_send_event rt ev w)) =
          told w @ (case ev of Evt_Publish p \<Rightarrow> if fst (rt_try_send_event rt ev w) = Sent then [p] else [] | _ \<Rightarrow> []))"

definition unheard :: "'w Runtime \<Rightarrow> ('w \<Rightarrow> bytes) \<Rightarrow> ('w \<Rightarrow> PublishPacket list) \<Rightarrow> 'w \<Rightarrow> 'w \<Rightarrow> bool" where
  "unheard rt heard told w w' \<longleftrightarrow> (overhears rt heard told \<longrightarrow> heard w' = heard w \<and> told w' = told w)"

lemma unheard_calls:
  "tr_write (rt_transport rt) bs w = (wr, w') \<Longrightarrow> unheard rt heard told w w'"
  "tr_flush (rt_transport rt) w = (fl, w') \<Longrightarrow> unheard rt heard told w w'"
  "tr_shutdown (rt_transport rt) w = (fl, w') \<Longrightarrow> unheard rt heard told w w'"
  "tr_now (rt_transport rt) w = (t, w') \<Longrightarrow> unheard rt heard told w w'"
  "rt_try_recv rt w = (rc, w') \<Longrightarrow> unheard rt heard told w w'"
  "rt_recv_timeout rt d w = (rc, w') \<Longrightarrow> unheard rt heard told w w'"
  unfolding unheard_def overhears_def hears_def by (metis snd_conv)+

lemma overhears_read:
  assumes "overhears rt heard told" "tr_read (rt_transport rt) n w = (x, w')"
  shows "heard w' = heard w @ (case x of Inr bs \<Rightarrow> bs | Inl _ \<Rightarrow> [])" "told w' = told w"
  using assms hears_read [of "rt_transport rt" heard n w x w'] unfolding overhears_def by (auto dest: spec) (metis snd_conv)

lemma overhears_event:
  assumes "overhears rt heard told" "rt_try_send_event rt ev w = (x, w')"
  shows "heard w' = heard w" "told w' = told w @ (case ev of Evt_Publish p \<Rightarrow> if x = Sent then [p] else [] | _ \<Rightarrow> [])"
  using assms unfolding overhears_def by (metis fst_conv snd_conv)+

lemma unheard_event:
  "rt_try_send_event rt ev w = (x, w') \<Longrightarrow> (\<And>p. ev \<noteq> Evt_Publish p) \<Longrightarrow> unheard rt heard told w w'"
  by (auto simp: unheard_def dest: overhears_event split: Event.splits)

section \<open>Phases that take no message\<close>

definition responses :: "(sender \<times> Response) list \<Rightarrow> PublishPacket list" where
  "responses rs = concat (map (\<lambda>(x, r). case r of Res_Request (Inr p) \<Rightarrow> [p] | _ \<Rightarrow> []) rs)"

lemma responses_simps [simp]:
  "responses [] = []" "responses (rs @ rs') = responses rs @ responses rs'" "responses [(x, Res_Request (Ok p))] = [p]"
  by (simp_all add: responses_def)

lemma no_response_responses: "no_response rs \<Longrightarrow> responses rs = []"
  by (auto simp: no_response_def responses_def split: Response.splits sum.splits) 

definition view ::
  "('w \<Rightarrow> bytes) \<Rightarrow> ('w \<Rightarrow> PublishPacket list) \<Rightarrow> 'w MqttConnection \<Rightarrow> bytes \<times> PublishPacket list \<times> PublishPacket list \<times> FrameReader" where
  "view heard told s = (heard (cn_stream s), told (cn_stream s), responses (cn_sent s), cn_frame_reader s)"

interpretation calm: step_invariant rt
  "\<lambda>s. (overhears rt heard told \<longrightarrow> view heard told s = v) \<and> cn_next_packet_id s \<noteq> 0"
  "\<lambda>s. overhears rt heard told \<longrightarrow> view heard told s = v" "unheard rt heard told" for rt heard told v
proof (unfold_locales, goal_cases)
  case (7 s f rest n w)
  then show ?case
    using unheard_calls(1) [OF 7(3), of heard told] unheard_calls(4) [of rt w _ _ heard told]
    by (auto simp: view_def unheard_def advance_front_def conn_now_def Let_def split: prod.splits)
next
  case (8 s f rest wr w)
  then show ?case using unheard_calls(1) [OF 8(3), of heard told] by (auto simp: view_def unheard_def)
next
  case (35 s)
  then show ?case
    by (auto simp: view_def fail_pending_def sends_def Let_def intro!: no_response_responses) (auto simp: no_response_def)
qed (erule unheard_calls unheard_event | force simp: view_def unheard_def driver_defs enqueue_with_action_Ok no_response_responses)+

text \<open>The phases that neither read nor dispatch, and the end of a connection.\<close>

lemma calm_phase:
  assumes "overhears rt heard told" "m \<in> driver_phases rt" "m \<noteq> pureM (read_available rt)" "m \<noteq> decode_and_dispatch rt"
    and "m s = Some (r, s')" "cn_next_packet_id s \<noteq> 0"
  shows "view heard told s' = view heard told s"
proof -
  let ?I = "\<lambda>s1. (overhears rt heard told \<longrightarrow> view heard told s1 = view heard told s) \<and> cn_next_packet_id s1 \<noteq> 0"
  have I: "?I s" using assms(6) by simp
  have "maintains ?I (updM drain_cancellations)" by (rule maintains_updM) (rule calm.drain_cancellations_I)
  moreover have "maintains ?I (updM (expire_operations rt))" by (rule maintains_updM) (rule calm.expire_operations_I)
  moreover have "maintains ?I (pureM (maintain_keep_alive rt))" by (rule maintains_pureM) (erule (1) calm.maintain_keep_alive_I)
  ultimately consider "m = updM fail_pending" | "maintains ?I m"
    using assms(2-4) calm.drain_commands_I [where rt = rt and heard = heard and told = told and v = "view heard told s"]
      calm.flush_outbound_I [where rt = rt and heard = heard and told = told and v = "view heard told s"]
      calm.wait_command_I [where rt = rt and heard = heard and told = told and v = "view heard told s"]
    by (auto simp: driver_phases_def turn_phases_def)
  then show ?thesis
  proof cases
    case 1
    then show ?thesis using calm.J_fail_pending [of rt heard told s "view heard told s"] assms(1,5) by (auto simp: updM_def)
  next
    case 2
    from maintainsD [OF this I assms(5)] assms(1) show ?thesis by simp
  qed
qed

section \<open>What a phase takes\<close>

definition passes ::
  "('w \<Rightarrow> bytes) \<Rightarrow> ('w \<Rightarrow> PublishPacket list) \<Rightarrow> Packet list \<Rightarrow> PublishPacket list \<Rightarrow> PublishPacket list
     \<Rightarrow> 'w MqttConnection \<Rightarrow> 'w MqttConnection \<Rightarrow> bool" where
  "passes heard told ps t rs s s' \<longleftrightarrow> (\<exists>bs. heard (cn_stream s') = heard (cn_stream s) @ bs
     \<and> takes (cn_frame_reader s) bs ps (cn_frame_reader s') \<and> told (cn_stream s') = told (cn_stream s) @ t
     \<and> responses (cn_sent s') = responses (cn_sent s) @ rs)"

lemma passes_view: "view heard told s' = view heard told s \<Longrightarrow> passes heard told [] [] [] s s'"
  by (auto simp: passes_def view_def takes_refl)

lemma passes_trans:
  "passes heard told ps t rs s s1 \<Longrightarrow> passes heard told ps' t' rs' s1 s2 \<Longrightarrow> passes heard told (ps @ ps') (t @ t') (rs @ rs') s s2"
  unfolding passes_def by (metis append.assoc takes_trans)

lemma read_loop_passes:
  assumes "overhears rt heard told" "transport_ok (rt_transport rt)" "read_loop rt n s = (r, s')"
  shows "passes heard told [] [] [] s s'"
  using assms(3)
proof (induction n arbitrary: s)
  case (Suc n)
  let ?cap = "min (remaining_capacity (cn_frame_reader s)) 8192"
  show ?case
  proof (cases "?cap = 0")
    case False
    obtain x w where x: "tr_read (rt_transport rt) ?cap (cn_stream s) = (x, w)" by force
    note read = overhears_read [OF assms(1) x]
    let ?s = "s\<lparr>cn_stream := w\<rparr>"
    show ?thesis
    proof (cases x)
      case (Inl e)
      then have same: "passes heard told [] [] [] s ?s" using read by (intro passes_view) (simp add: view_def)
      then show ?thesis
        using Suc.prems False x Inl Suc.IH [of ?s] passes_trans [OF same, of "[]" "[]" "[]" s']
        by (auto simp: conn_io_def Let_def split: if_splits)
    next
      case (Inr bs)
      let ?s' = "?s\<lparr>cn_frame_reader := frame_push (cn_frame_reader s) bs\<rparr>"
      show ?thesis
      proof (cases "bs = []")
        case True
        have "view heard told (emit rt ev ?s) = view heard told s" if "\<And>p. ev \<noteq> Evt_Publish p" for ev
          using calm.emit_J [of rt heard told ?s "view heard told s" ev] that read Inr True assms(1) by (simp add: view_def)
        then show ?thesis
          using Suc.prems False x Inr True
          by (intro passes_view) (auto simp: conn_io_def Let_def view_def)
      next
        case False
        have "length bs \<le> remaining_capacity (cn_frame_reader s)"
          using x Inr assms(2) unfolding transport_ok_def by (metis min.bounded_iff)
        then have "passes heard told [] [] [] s ?s'"
          using read Inr by (auto simp: passes_def intro: takes_push)
        moreover have "read_loop rt n ?s' = (r, s')"
          using Suc.prems \<open>?cap \<noteq> 0\<close> x Inr False by (simp add: conn_io_def Let_def)
        ultimately show ?thesis using passes_trans [of heard told "[]" "[]" "[]" s ?s' "[]" "[]" "[]" s'] Suc.IH [of ?s'] by simp
      qed
    qed
  qed (use Suc.prems in \<open>auto intro: passes_view\<close>)
qed (auto intro: passes_view)

section \<open>Where a message goes\<close>

text \<open>
  The messages \<open>xs\<close> were split, in their order, into \<open>t\<close> and \<open>rs\<close>, but for one at the end.
\<close>

definition handled :: "PublishPacket list \<Rightarrow> PublishPacket list \<Rightarrow> PublishPacket list \<Rightarrow> PublishPacket list \<Rightarrow> bool" where
  "handled xs t rs lost \<longleftrightarrow> (\<exists>ys. xs = ys @ lost \<and> ys \<in> shuffles t rs) \<and> length lost \<le> 1"

lemma append_shuffles: "ys \<in> shuffles t rs \<Longrightarrow> ys' \<in> shuffles t' rs' \<Longrightarrow> ys @ ys' \<in> shuffles (t @ t') (rs @ rs')"
proof (induction ys arbitrary: t rs)
  case (Cons y ys)
  from Cons.prems(1) consider t1 where "t = y # t1" "ys \<in> shuffles t1 rs" | r1 where "rs = y # r1" "ys \<in> shuffles t r1"
    by (auto simp: Cons_in_shuffles_iff neq_Nil_conv)
  then show ?case
    using Cons.IH [OF _ Cons.prems(2)] by cases (simp_all add: Cons_in_shuffles_iff del: shuffles.simps)
qed simp

lemma handled_append: "handled xs t rs [] \<Longrightarrow> handled xs' t' rs' lost \<Longrightarrow> handled (xs @ xs') (t @ t') (rs @ rs') lost"
  unfolding handled_def by (metis append.assoc append_Nil2 append_shuffles)

lemma handled_none [simp]: "handled [] [] [] []"
  by (simp add: handled_def)

lemma handled_one: "handled [p] [p] [] []" "handled [p] [] [p] []" "handled [p] [] [] [p]"
  by (simp_all add: handled_def)

text \<open>Between two states, the messages taken from the parser were handled.\<close>

definition relays ::
  "('w \<Rightarrow> bytes) \<Rightarrow> ('w \<Rightarrow> PublishPacket list) \<Rightarrow> PublishPacket list \<Rightarrow> PublishPacket list \<Rightarrow> 'w MqttConnection
    \<Rightarrow> 'w MqttConnection \<Rightarrow> bool" where
  "relays heard told xs lost s s' \<longleftrightarrow> (\<exists>ps t rs. passes heard told ps t rs s s' \<and> handled (xs @ messages ps) t rs lost)"

lemma relaysI: "passes heard told ps t rs s s' \<Longrightarrow> handled (xs @ messages ps) t rs lost \<Longrightarrow> relays heard told xs lost s s'"
  unfolding relays_def by blast

lemma relays_trans:
  assumes "relays heard told xs [] s s1" "relays heard told [] lost s1 s2"
  shows "relays heard told xs lost s s2"
proof -
  from assms(1) obtain ps t rs where 1: "passes heard told ps t rs s s1" "handled (xs @ messages ps) t rs []" by (auto simp: relays_def)
  from assms(2) obtain ps' t' rs' where 2: "passes heard told ps' t' rs' s1 s2" "handled (messages ps') t' rs' lost" by (auto simp: relays_def)
  from passes_trans [OF 1(1) 2(1)] handled_append [OF 1(2) 2(2)] show ?thesis by (auto intro: relaysI)
qed

lemma relays_view: "relays heard told xs lost s s1 \<Longrightarrow> view heard told s2 = view heard told s1 \<Longrightarrow> relays heard told xs lost s s2"
  by (simp add: relays_def passes_def view_def)

lemma relays_passes: "passes heard told [] [] [] s s' \<Longrightarrow> relays heard told [] [] s s'"
  using relaysI [of heard told "[]" "[]" "[]" s s' "[]" "[]"] by simp

lemma relays_decode:
  assumes "try_decode (cn_frame_reader s) = (x, fr)"
    and "relays heard told (messages (case x of Inr (Some p) \<Rightarrow> [p] | _ \<Rightarrow> [])) lost (s\<lparr>cn_frame_reader := fr\<rparr>) s'"
  shows "relays heard told [] lost s s'"
proof -
  let ?p = "case x of Inr (Some p) \<Rightarrow> [p] | _ \<Rightarrow> []"
  from assms(2) obtain ps t rs where ps: "passes heard told ps t rs (s\<lparr>cn_frame_reader := fr\<rparr>) s'" "handled (messages (?p @ ps)) t rs lost"
    by (auto simp: relays_def)
  have "passes heard told ?p [] [] s (s\<lparr>cn_frame_reader := fr\<rparr>)" using takes_decode [OF assms(1)] by (simp add: passes_def)
  from passes_trans [OF this ps(1)] ps(2) show ?thesis by (auto intro: relaysI)
qed

section \<open>Dispatching\<close>

lemma complete_or_event:
  assumes "overhears rt heard told" "cn_next_packet_id s \<noteq> 0"
    and "(case try_complete_request packet s of
           (True, s) \<Rightarrow> Some (Ok (), s)
         | (False, s) \<Rightarrow>
             (case conn_io (rt_try_send_event rt (Evt_Publish packet)) s of
                (Sent, s) \<Rightarrow> Some (Ok (), s)
              | (Full, s) \<Rightarrow> Some (Err (QueueFull ''event''), s)
              | (Closed, s) \<Rightarrow> Some (Err ClientClosed, s))) = Some (r, s')"
  shows "\<exists>lost. relays heard told [packet] lost s s' \<and> (is_ok r \<longrightarrow> lost = [])"
proof (cases "\<exists>corr q. answers packet corr q s")
  case True
  then obtain corr q where match: "answers packet corr q s" by blast
  then obtain s1 where s1: "remove_request corr s = (Some q, s1)" using remove_request_outcome [of s corr q] by (auto simp: answers_def)
  then have "view heard told s1 = view heard told s"
    using calm.remove_request_I [of rt heard told s "view heard told s" corr] assms(1,2) by blast
  moreover have "s' = sends [(pr_result q, Res_Request (Ok packet))] s1" "is_ok r"
    using assms(3) match s1 by (auto simp: answers_def try_complete_request_def)
  ultimately have "passes heard told [] [] [packet] s s'" by (simp add: passes_def view_def sends_def takes_refl)
  then show ?thesis using handled_one(2) by (intro exI [of _ "[]"]) (auto intro: relaysI)
next
  case False
  obtain x w where x: "rt_try_send_event rt (Evt_Publish packet) (cn_stream s) = (x, w)" by force
  have s': "s' = s\<lparr>cn_stream := w\<rparr>" "is_ok r \<longleftrightarrow> x = Sent"
    using assms(3) x False by (auto simp: try_complete_request_no_match conn_io_def is_ok_def split: try_send.splits)
  have "passes heard told [] (if x = Sent then [packet] else []) [] s s'"
    using overhears_event [OF assms(1) x] by (simp add: s'(1) passes_def takes_refl)
  moreover have "handled [packet] (if x = Sent then [packet] else []) [] (if x = Sent then [] else [packet])"
    by (simp add: handled_one)
  ultimately show ?thesis using s'(2) by (intro exI [of _ "if x = Sent then [] else [packet]"]) (auto intro: relaysI)
qed

lemma dispatch_publish_relays:
  assumes "overhears rt heard told" "cn_next_packet_id s \<noteq> 0" "dispatch_publish rt packet s = Some (r, s')"
  shows "\<exists>lost. relays heard told [packet] lost s s' \<and> (is_ok r \<longrightarrow> lost = [])"
proof -
  let ?I = "\<lambda>s1. (overhears rt heard told \<longrightarrow> view heard told s1 = view heard told s) \<and> cn_next_packet_id s1 \<noteq> 0"
  have "maintains ?I (if pub_qos packet = AtLeastOnce then
         andM (returns (case pub_packet_id packet of
             Some i \<Rightarrow> Ok i
           | None \<Rightarrow> Err (MalformedPacket ''QoS 1 PUBLISH missing packet id''))) (\<lambda>i.
         andM (returns (PubAckPacket_encode \<lparr>pa_packet_id = i, pa_reason_code = 0x00\<rparr>)) (\<lambda>ack.
         pureM (enqueue ack Act_None None)))
       else returns (Ok ()))" (is "maintains ?I ?ack")
    by (intro maintains_if maintains_returns maintains_checked calm.enqueue_maintains) (rule encoded_puback)
  from maintainsD [OF this, of s] assms(1,2)
  have ack: "view heard told s1 = view heard told s \<and> cn_next_packet_id s1 \<noteq> 0" if "?ack s = Some (x, s1)" for x s1
    using that by blast
  from assms(3) consider e where "?ack s = Some (Err e, s')" "r = Err e"
    | s1 where "?ack s = Some (Ok (), s1)" "(case try_complete_request packet s1 of
           (True, s) \<Rightarrow> Some (Ok (), s)
         | (False, s) \<Rightarrow>
             (case conn_io (rt_try_send_event rt (Evt_Publish packet)) s of
                (Sent, s) \<Rightarrow> Some (Ok (), s)
              | (Full, s) \<Rightarrow> Some (Err (QueueFull ''event''), s)
              | (Closed, s) \<Rightarrow> Some (Err ClientClosed, s))) = Some (r, s')"
    unfolding dispatch_publish_def andM_Some by auto
  then show ?thesis
  proof cases
    case 1
    then show ?thesis
      using passes_view ack handled_one(3) by (intro exI [of _ "[packet]"]) (auto intro!: relaysI)
  next
    case 2
    from complete_or_event [OF assms(1) conjunct2 [OF ack [OF 2(1)]] 2(2)] conjunct1 [OF ack [OF 2(1)]]
    show ?thesis by (simp add: relays_def passes_def view_def)
  qed
qed

lemma dispatch_other:
  assumes "overhears rt heard told" "cn_next_packet_id s \<noteq> 0" "dispatch_packet rt p s = Some (r, s')" "\<And>m. p \<noteq> Pkt_Publish m"
  shows "view heard told s' = view heard told s"
proof -
  let ?J = "\<lambda>s1. overhears rt heard told \<longrightarrow> view heard told s1 = view heard told s"
  let ?I = "\<lambda>s1. ?J s1 \<and> cn_next_packet_id s1 \<noteq> 0"
  have "yields ?I ?J (dispatch_packet rt p)"
  proof (cases "\<exists>d. p = Pkt_Disconnect d")
    case False
    then have "maintains ?I (dispatch_packet rt p)"
      unfolding dispatch_packet_def using assms(4)
      by (cases p) (auto intro!: maintains_andM maintains_returns maintains_updM
          intro: calm.dispatch_puback_I calm.dispatch_suback_I calm.dispatch_unsuback_I simp: calm.I_ping)
    then show ?thesis by (rule maintains_yields) simp
  qed (auto simp: yields_def dispatch_packet_def andM_def updM_def returns_def is_ok_def calm.J_terminal calm.emit_J calm.J_fail_pending)
  from yieldsD [OF this _ assms(3)] assms(1,2) show ?thesis by simp
qed

lemma dispatch_packet_relays:
  assumes "overhears rt heard told" "cn_next_packet_id s \<noteq> 0" "dispatch_packet rt p s = Some (r, s')"
  shows "\<exists>lost. relays heard told (messages [p]) lost s s' \<and> (is_ok r \<longrightarrow> lost = [])"
proof (cases "\<exists>m. p = Pkt_Publish m")
  case True
  then show ?thesis using dispatch_publish_relays [OF assms(1,2)] assms(3) by (auto simp: dispatch_packet_def)
next
  case False
  then have "messages [p] = []" "view heard told s' = view heard told s"
    using messages_other [of p] dispatch_other [OF assms] by blast+
  then show ?thesis using relays_passes [OF passes_view, of heard told s' s] by auto
qed

lemma dispatched_relays:
  assumes "overhears rt heard told" "transport_ok (rt_transport rt)" "driver_inv s"
    and "andM (dispatch_packet rt p) (\<lambda>_. k) s = Some (r, s')"
    and rest: "\<And>s1. driver_inv s1 \<Longrightarrow> k s1 = Some (r, s') \<Longrightarrow> \<exists>lost. relays heard told [] lost s1 s' \<and> (is_ok r \<longrightarrow> lost = [])"
  shows "\<exists>lost. relays heard told (messages [p]) lost s s' \<and> (is_ok r \<longrightarrow> lost = [])"
proof -
  note step = dispatch_packet_relays [OF assms(1) driver_inv_next_id [OF assms(3)]]
  from assms(4) consider e where "dispatch_packet rt p s = Some (Err e, s')" "r = Err e"
    | s1 where "dispatch_packet rt p s = Some (Ok (), s1)" "k s1 = Some (r, s')"
    unfolding andM_Some by auto
  then show ?thesis
  proof cases
    case 1
    then show ?thesis using step [OF 1(1)] by (auto simp: is_ok_def)
  next
    case 2
    have "driver_inv s1" using yieldsD [OF wf.dispatch_packet_I _ 2(1)] assms(2,3) by blast
    from rest [OF this 2(2)] step [OF 2(1)] show ?thesis by (auto simp: is_ok_def intro: relays_trans)
  qed
qed

lemma decode_and_dispatch_relays:
  assumes "overhears rt heard told" "transport_ok (rt_transport rt)" "driver_inv s" "decode_and_dispatch rt s = Some (r, s')"
  shows "\<exists>lost. relays heard told [] lost s s' \<and> (is_ok r \<longrightarrow> lost = [])"
proof -
  have "rt' = rt \<longrightarrow> driver_inv s \<longrightarrow> (\<exists>lost. relays heard told [] lost s (snd y) \<and> (is_ok (fst y) \<longrightarrow> lost = []))"
    if "decode_and_dispatch rt' s = Some y" for rt' s y
    using that
  proof (rule decode_and_dispatch.raw_induct [rotated], goal_cases)
    case (1 loop rt' s y)
    show ?case
    proof (intro impI)
      assume rt: "rt' = rt" and inv: "driver_inv s"
      obtain x fr where x: "try_decode (cn_frame_reader s) = (x, fr)" by (metis surj_pair)
      let ?s = "s\<lparr>cn_frame_reader := fr\<rparr>"
      have inv': "driver_inv ?s" using driver_inv_frames(1) [OF inv] x by simp
      have IH: "\<exists>lost. relays heard told [] lost s1 (snd y) \<and> (is_ok (fst y) \<longrightarrow> lost = [])"
        if "driver_inv s1" "loop rt s1 = Some (fst y, snd y)" for s1 using 1(1) that by simp
      note decode = relays_decode [OF x, of heard told _ "snd y"]
      show "\<exists>lost. relays heard told [] lost s (snd y) \<and> (is_ok (fst y) \<longrightarrow> lost = [])"
      proof (cases "\<exists>p. x = Ok (Some p)")
        case False
        then have "snd y = ?s" using 1(2) x by (auto split: sum.splits option.splits)
        then show ?thesis using False decode [of "[]"] relays_passes [OF passes_view, of heard told ?s ?s]
          by (intro exI [of _ "[]"]) (auto split: sum.splits option.splits)
      next
        case True
        then obtain p where p: "x = Ok (Some p)" by blast
        with 1(2) x rt have "andM (dispatch_packet rt p) (\<lambda>_. loop rt) ?s = Some (fst y, snd y)" by simp
        from dispatched_relays [OF assms(1,2) inv' this IH] decode p show ?thesis by auto
      qed
    qed
  qed
  from this [OF assms(4)] assms(3) show ?thesis by simp
qed

section \<open>A driver at work\<close>

lemma phase_relays:
  assumes "overhears rt heard told" "transport_ok (rt_transport rt)" "driver_inv s" "m \<in> driver_phases rt" "m s = Some (r, s')"
  shows "\<exists>lost. relays heard told [] lost s s' \<and> (is_ok r \<longrightarrow> lost = [])"
proof -
  consider "m = pureM (read_available rt)" | "m = decode_and_dispatch rt" | "view heard told s' = view heard told s"
    using calm_phase [OF assms(1,4) _ _ assms(5) driver_inv_next_id [OF assms(3)]] by blast
  then show ?thesis
  proof cases
    case 1
    then show ?thesis
      using relays_passes [OF read_loop_passes [OF assms(1,2)], of 64 s r s'] assms(5) by (auto simp: pureM_def read_available_def)
  next
    case 2
    then show ?thesis using decode_and_dispatch_relays [OF assms(1-3)] assms(5) by simp
  next
    case 3
    then show ?thesis using relays_passes [OF passes_view, of heard told s' s] by blast
  qed
qed

lemma relaying_phase:
  assumes "overhears rt heard told" "transport_ok (rt_transport rt)" "m \<in> turn_phases rt"
  shows "yields (\<lambda>s. driver_inv s \<and> relays heard told [] [] s0 s) (\<lambda>s. \<exists>lost. relays heard told [] lost s0 s) m"
proof (rule yieldsI)
  fix s r s'
  assume I: "driver_inv s \<and> relays heard told [] [] s0 s" and run: "m s = Some (r, s')"
  have "m \<in> driver_phases rt" using assms(3) by (simp add: driver_phases_def)
  from phase_relays [OF assms(1,2) conjunct1 [OF I] this run] obtain lost where
    "relays heard told [] lost s s'" "is_ok r \<longrightarrow> lost = []" by blast
  moreover have "is_ok r \<longrightarrow> driver_inv s'" using yieldsD [OF wf.turn_phase_yields [OF assms(3)] _ run] I assms(2) by blast
  ultimately show "(\<exists>lost. relays heard told [] lost s0 s') \<and> (is_ok r \<longrightarrow> driver_inv s' \<and> relays heard told [] [] s0 s')"
    using I relays_trans [of heard told "[]" s0 s] by blast
qed

lemma relaying_run:
  assumes "overhears rt heard told" "transport_ok (rt_transport rt)" "driver_inv s" "relays heard told [] [] s0 s"
    and "run rt s = Some (r, s')"
  shows "\<exists>lost. relays heard told [] lost s0 s'"
proof -
  from assms(5) obtain s1 where s1: "run_inner rt s = Some (r, s1)"
    and s': "s' = snd (conn_io (tr_shutdown (rt_transport rt))
        (if \<not> is_ok r \<and> \<not> cn_terminal_event_sent (fail_pending s1)
         then emit rt (Evt_Disconnected TransportClosed) (fail_pending s1) else fail_pending s1))" (is "_ = snd (conn_io _ ?s2)")
    by (auto simp: run_def bind_eq_Some_conv Let_def)
  have "yields (\<lambda>s. driver_inv s \<and> relays heard told [] [] s0 s) (\<lambda>s. \<exists>lost. relays heard told [] lost s0 s) (run_inner rt)"
    by (rule run_inner_yields [OF relaying_phase [OF assms(1,2)]]) blast+
  from yieldsD [OF this _ s1] assms(3,4) obtain lost where lost: "relays heard told [] lost s0 s1" by blast
  have "view heard told (fail_pending s1) = view heard told s1"
    using calm.J_fail_pending [of rt heard told s1 "view heard told s1"] assms(1) by simp
  moreover have "view heard told ?s2 = view heard told (fail_pending s1)"
    using calm.emit_J [of rt heard told "fail_pending s1" "view heard told (fail_pending s1)"] assms(1) by simp
  moreover have "view heard told (snd (conn_io (tr_shutdown (rt_transport rt)) s2)) = view heard told s2" for s2
    using assms(1) unheard_calls(3) [of rt "cn_stream s2" _ _ heard told]
    by (auto simp: conn_io_def unheard_def view_def split: prod.splits)
  ultimately show ?thesis unfolding s' by (intro exI [of _ lost], intro relays_view [OF lost]) (simp only:)
qed

lemma relays_stream:
  assumes "relays heard told [] lost s0 s" "frame_inv (cn_frame_reader s0)" "fr_buf (cn_frame_reader s0) = []" "responses (cn_sent s0) = []"
    and "heard (cn_stream s0) = []" "told (cn_stream s0) = []" "mx = fr_max_packet_size (cn_frame_reader s0)"
  shows "\<exists>ms. messages (fst (parse_stream mx (heard (cn_stream s))))
      = ms @ lost @ messages (fst (parse_stream mx (fr_buf (cn_frame_reader s))))
    \<and> ms \<in> shuffles (told (cn_stream s)) (responses (cn_sent s)) \<and> length lost \<le> 1"
proof -
  from assms(1) obtain ps t rs where ps: "passes heard told ps t rs s0 s" "handled (messages ps) t rs lost" by (auto simp: relays_def)
  from ps(2) obtain ms where ms: "messages ps = ms @ lost" "ms \<in> shuffles t rs" "length lost \<le> 1" by (auto simp: handled_def)
  from ps(1) assms(2-7) have "drained mx [] (heard (cn_stream s)) ps (fr_buf (cn_frame_reader s))"
    "told (cn_stream s) = t" "responses (cn_sent s) = rs"
    by (auto simp: passes_def takes_def)
  then show ?thesis using ms by (auto simp: drained_def)
qed

text \<open>C7: The asynchronous client hands on the messages of its broker in order.  At every point of a connection the
  messages among the bytes read so far are an interleaving of two sequences, both in the order of the stream: those the
  event channel has accepted and those sent as responses to requests; then come those whose bytes are still in the
  parser.  None is handed on twice, reordered, or both an event and a response, and none is left out.  When a phase
  fails or \<open>run\<close> returns, at most one message is missing, the one that could not be handed on; the events and responses
  before it stand.\<close>

theorem driver_delivers_in_order:
  assumes "s0 = new_connection opts connack caps now w" "co_max_packet_size opts \<le> 4294967295"
    and "transport_ok (rt_transport rt)" "overhears rt heard told" "heard w = []" "told w = []" "driver_exec rt s0 s"
  shows "(\<exists>ms. messages (fst (parse_stream (co_max_packet_size opts) (heard (cn_stream s))))
        = ms @ messages (fst (parse_stream (co_max_packet_size opts) (fr_buf (cn_frame_reader s))))
      \<and> ms \<in> shuffles (told (cn_stream s)) (responses (cn_sent s)))
    \<and> (m \<in> driver_phases rt \<and> m s = Some (r, s') \<or> run rt s = Some (r, s') \<longrightarrow>
       (\<exists>ms lost. messages (fst (parse_stream (co_max_packet_size opts) (heard (cn_stream s'))))
          = ms @ lost @ messages (fst (parse_stream (co_max_packet_size opts) (fr_buf (cn_frame_reader s'))))
        \<and> ms \<in> shuffles (told (cn_stream s')) (responses (cn_sent s')) \<and> length lost \<le> 1))"
proof -
  have start: "frame_inv (cn_frame_reader s0)" "fr_buf (cn_frame_reader s0) = []" "responses (cn_sent s0) = []"
    "heard (cn_stream s0) = []" "told (cn_stream s0) = []" "co_max_packet_size opts = fr_max_packet_size (cn_frame_reader s0)"
    using assms frame_inv_new [of "co_max_packet_size opts"]
    by (simp_all add: new_connection_def usize_max_def) (simp_all add: FrameReader_with_max_packet_size_def)
  have "driver_inv s0" "relays heard told [] [] s0 s0"
    using assms(1,2) driver_inv_new_connection by (auto intro: relays_passes passes_view)
  with assms(7) have I: "driver_inv s \<and> relays heard told [] [] s0 s"
    by (induction rule: driver_exec.induct) (auto dest: yieldsD [OF relaying_phase [OF assms(4,3)]])
  have "\<exists>lost. relays heard told [] lost s0 s'" if "m \<in> driver_phases rt \<and> m s = Some (r, s') \<or> run rt s = Some (r, s')"
    using that relaying_run [OF assms(4,3) conjunct1 [OF I] conjunct2 [OF I]]
      phase_relays [OF assms(4,3) conjunct1 [OF I], of m r s'] relays_trans [OF conjunct2 [OF I]] by blast
  then show ?thesis using relays_stream [where heard = heard and told = told, OF _ start] I by (metis append_Nil)
qed

text \<open>A broker that sends \<open>i\<close> and nothing else, with the histories of what was read and of the events.\<close>

definition recorder :: "(bytes \<times> bytes \<times> PublishPacket list) Runtime" where
  "recorder =
    \<lparr>rt_transport =
      \<lparr>tr_write = (\<lambda>bs w. (Ok (length bs), w)), tr_flush = (\<lambda>w. (Ok (), w)),
       tr_read = (\<lambda>n (i, h, e). if i = [] then (Err (IoError WouldBlock ''''), (i, h, e))
                   else (Ok (take n i), (drop n i, h @ take n i, e))),
       tr_set_nonblocking = (\<lambda>b w. (Ok (), w)), tr_set_read_timeout = (\<lambda>d w. (Ok (), w)),
       tr_set_write_timeout = (\<lambda>d w. (Ok (), w)), tr_shutdown = (\<lambda>w. (Ok (), w)), tr_now = (\<lambda>w. (5, w)),
       tr_instant_max = 2 ^ 64\<rparr>,
     rt_is_closed = (\<lambda>_ _. False),
     rt_try_send_event = (\<lambda>ev (i, h, e). (Sent, (i, h, e @ (case ev of Evt_Publish p \<Rightarrow> [p] | _ \<Rightarrow> [])))),
     rt_try_recv = (\<lambda>w. (NothingYet, w)), rt_recv_timeout = (\<lambda>_ w. (NothingYet, w)),
     rt_try_send_command = (\<lambda>c w. (Sent, w))\<rparr>"

lemma recorder_ok: "transport_ok (rt_transport recorder)" "overhears recorder (fst \<circ> snd) (snd \<circ> snd)"
  by (auto simp: recorder_def transport_ok_def overhears_def hears_def split: if_splits Event.splits)

definition recorded :: "bytes \<Rightarrow> bytes \<times> bytes \<times> PublishPacket list \<Rightarrow> (bytes \<times> bytes \<times> PublishPacket list) MqttConnection" where
  "recorded b w = (new_connection test_options \<lparr>ca_session_present = False, ca_reason_code = 0, ca_properties = Properties_new\<rparr>
     ServerCapabilities_default 5 w)\<lparr>cn_frame_reader := \<lparr>fr_buf = b, fr_state = ReadingHeader, fr_max_packet_size = 1048576, fr_overflow_size = None\<rparr>\<rparr>"

definition test_message :: PublishPacket where
  "test_message = \<lparr>pub_topic = [0x61], pub_packet_id = None, pub_payload = [9], pub_qos = AtMostOnce,
     pub_retain = False, pub_dup = False, pub_properties = Properties_new\<rparr>"

lemma recorded_fields [simp]:
  "cn_stream (recorded b w) = w" "cn_sent (recorded b w) = []" "cn_pending_requests (recorded b w) = []"
  "cn_frame_reader (recorded b w) = \<lparr>fr_buf = b, fr_state = ReadingHeader, fr_max_packet_size = 1048576, fr_overflow_size = None\<rparr>"
  "(recorded b w)\<lparr>cn_stream := w'\<rparr> = recorded b w'"
  "(recorded b w)\<lparr>cn_frame_reader := \<lparr>fr_buf = b', fr_state = ReadingHeader, fr_max_packet_size = 1048576, fr_overflow_size = None\<rparr>\<rparr> = recorded b' w"
  by (simp_all add: recorded_def new_connection_def)

lemma recorded_read:
  "pureM (read_available recorder) (recorded [] ([0x30, 5, 0, 1, 0x61, 0, 9], [], []))
     = Some (Ok (), recorded [0x30, 5, 0, 1, 0x61, 0, 9] ([], [0x30, 5, 0, 1, 0x61, 0, 9], []))"
proof -
  have "read_loop recorder (Suc (Suc n)) (recorded [] ([0x30, 5, 0, 1, 0x61, 0, 9], [], []))
     = (Ok (), recorded [0x30, 5, 0, 1, 0x61, 0, 9] ([], [0x30, 5, 0, 1, 0x61, 0, 9], []))" for n
    by (simp add: recorder_def conn_io_def remaining_capacity_def frame_push_def)
  from this [of 62] show ?thesis by (simp add: pureM_def read_available_def)
qed

lemma recorded_dispatch:
  "decode_and_dispatch recorder (recorded [0x30, 5, 0, 1, 0x61, 0, 9] ([], h, []))
     = Some (Ok (), recorded [] ([], h, [test_message]))"
proof -
  have "decode_and_dispatch recorder (recorded [] w) = Some (Ok (), recorded [] w)" for w
    by (subst decode_and_dispatch.simps) (simp add: empty_frame)
  moreover have "dispatch_packet recorder (Pkt_Publish test_message) (recorded [] ([], h, []))
      = Some (Ok (), recorded [] ([], h, [test_message]))"
    by (simp add: dispatch_packet_def dispatch_publish_def test_message_def andM_def returns_def try_complete_request_def
        get_binary_def Properties_new_def recorder_def conn_io_def)
  ultimately show ?thesis
    by (subst decode_and_dispatch.simps) (simp add: PUBLISH_frame andM_def flip: test_message_def)
qed

theorem driver_delivers_in_order_witness:
  "messages (fst (parse_stream 1048576 [0x30, 5, 0, 1, 0x61, 0, 9])) = [test_message]"
proof -
  let ?start = "recorded [] ([0x30, 5, 0, 1, 0x61, 0, 9], [], [])"
  have sz: "co_max_packet_size test_options = 1048576"
    by (simp add: test_options_def ConnectOptions_new_def ConnectOptions_default_def DEFAULT_MAX_PACKET_SIZE_def)
  have new: "?start = new_connection test_options \<lparr>ca_session_present = False, ca_reason_code = 0, ca_properties = Properties_new\<rparr>
     ServerCapabilities_default 5 ([0x30, 5, 0, 1, 0x61, 0, 9], [], [])"
    by (simp add: recorded_def new_connection_def FrameReader_with_max_packet_size_def sz)
  have read: "driver_exec recorder ?start (recorded [0x30, 5, 0, 1, 0x61, 0, 9] ([], [0x30, 5, 0, 1, 0x61, 0, 9], []))"
    by (rule driver_exec.step [where m = "pureM (read_available recorder)", OF driver_exec.start _ recorded_read]) (simp add: turn_phases_def)
  have "driver_exec recorder ?start (recorded [] ([], [0x30, 5, 0, 1, 0x61, 0, 9], [test_message]))"
    by (rule driver_exec.step [where m = "decode_and_dispatch recorder", OF read _ recorded_dispatch]) (simp add: turn_phases_def)
  from driver_delivers_in_order [OF new _ recorder_ok _ _ this] show ?thesis
    by (simp add: sz parse_stream.simps [of _ "[]"] next_packet_def)
qed

end
