(* ===== verification/Trace.thy ===== *)
theory Trace
  imports Properties
begin

unbundle bit_operations_syntax

text \<open>
  W3C trace context carried in user properties (\<^verbatim>\<open>src/trace.rs\<close>).  The arrays \<^verbatim>\<open>[u8; 16]\<close> and
  \<^verbatim>\<open>[u8; 8]\<close> are byte lists; \<open>trace_wf\<close> is the length the Rust types carry.
\<close>

record TraceContext =
  tc_trace_id :: bytes
  tc_span_id :: bytes
  tc_trace_flags :: u8
  tc_tracestate :: "rstr option"

text \<open>The bytes of \<^verbatim>\<open>traceparent\<close>, \<^verbatim>\<open>tracestate\<close> and \<^verbatim>\<open>00\<close>.\<close>

definition TRACEPARENT_KEY :: rstr where
  "TRACEPARENT_KEY = [0x74, 0x72, 0x61, 0x63, 0x65, 0x70, 0x61, 0x72, 0x65, 0x6E, 0x74]"

definition TRACESTATE_KEY :: rstr where
  "TRACESTATE_KEY = [0x74, 0x72, 0x61, 0x63, 0x65, 0x73, 0x74, 0x61, 0x74, 0x65]"

definition VERSION :: rstr where
  "VERSION = [0x30, 0x30]"

abbreviation dash :: u8 where "dash \<equiv> 0x2D"

definition is_all_zero :: "bytes \<Rightarrow> bool" where
  "is_all_zero bs \<longleftrightarrow> (\<forall>b \<in> set bs. b = 0)"

section \<open>Hexadecimal digits\<close>

definition HEX :: bytes where
  "HEX = [0x30, 0x31, 0x32, 0x33, 0x34, 0x35, 0x36, 0x37, 0x38, 0x39,
          0x61, 0x62, 0x63, 0x64, 0x65, 0x66]"

definition hex_encode :: "bytes \<Rightarrow> rstr \<Rightarrow> rstr" where
  "hex_encode bs out =
     foldl (\<lambda>out b. out @ [HEX ! unat (drop_bit 4 b)] @ [HEX ! unat (b AND 0x0F)]) out bs"

definition hex_nibble :: "u8 \<Rightarrow> u8 option" where
  "hex_nibble c =
    (if 0x30 \<le> c \<and> c \<le> 0x39 then Some (c - 0x30)
     else if 0x61 \<le> c \<and> c \<le> 0x66 then Some (c - 0x61 + 10)
     else if 0x41 \<le> c \<and> c \<le> 0x46 then Some (c - 0x41 + 10)
     else None)"

text \<open>The loop of \<^verbatim>\<open>hex_decode_fixed\<close>; \<open>bs\<close> is \<^verbatim>\<open>bytes[i * 2..]\<close>, of even length.\<close>

fun hex_decode_loop :: "bytes \<Rightarrow> bytes option" where
  "hex_decode_loop (a # b # bs) =
    (case hex_nibble a of
       None \<Rightarrow> None
     | Some hi \<Rightarrow>
         (case hex_nibble b of
            None \<Rightarrow> None
          | Some lo \<Rightarrow> map_option (\<lambda>arr. (push_bit 4 hi OR lo) # arr) (hex_decode_loop bs)))"
| "hex_decode_loop _ = Some []"

definition hex_decode_fixed :: "nat \<Rightarrow> rstr \<Rightarrow> bytes option" where
  "hex_decode_fixed n s = (if length s \<noteq> n * 2 then None else hex_decode_loop s)"

section \<open>Trace contexts\<close>

definition new_root :: "bytes \<Rightarrow> bytes \<Rightarrow> TraceContext option" where
  "new_root trace_id span_id =
    (if is_all_zero trace_id \<or> is_all_zero span_id then None
     else Some \<lparr>tc_trace_id = trace_id, tc_span_id = span_id, tc_trace_flags = 0x01,
                tc_tracestate = None\<rparr>)"

definition trace_child :: "TraceContext \<Rightarrow> bytes \<Rightarrow> TraceContext option" where
  "trace_child tc span_id =
    (if is_all_zero span_id then None
     else Some \<lparr>tc_trace_id = tc_trace_id tc, tc_span_id = span_id,
                tc_trace_flags = tc_trace_flags tc, tc_tracestate = tc_tracestate tc\<rparr>)"

definition traceparent_string :: "TraceContext \<Rightarrow> rstr" where
  "traceparent_string tc =
    (let s = VERSION @ [dash];
         s = hex_encode (tc_trace_id tc) s @ [dash];
         s = hex_encode (tc_span_id tc) s @ [dash]
     in hex_encode [tc_trace_flags tc] s)"

text \<open>\<^verbatim>\<open>impl Display for TraceContext\<close>\<close>

definition trace_display :: "TraceContext \<Rightarrow> rstr" where
  "trace_display tc = traceparent_string tc"

definition parse_traceparent :: "rstr \<Rightarrow> rstr option \<Rightarrow> TraceContext option" where
  "parse_traceparent s tracestate =
    (let parts = split_on dash s in
     if length parts \<noteq> 4 \<or> parts ! 0 \<noteq> VERSION then None
     else case hex_decode_fixed 16 (parts ! 1) of
       None \<Rightarrow> None
     | Some trace_id \<Rightarrow>
         (case hex_decode_fixed 8 (parts ! 2) of
            None \<Rightarrow> None
          | Some span_id \<Rightarrow>
              (case hex_decode_fixed 1 (parts ! 3) of
                 None \<Rightarrow> None
               | Some flags_bytes \<Rightarrow>
                   if is_all_zero trace_id \<or> is_all_zero span_id then None
                   else Some \<lparr>tc_trace_id = trace_id, tc_span_id = span_id,
                              tc_trace_flags = flags_bytes ! 0, tc_tracestate = tracestate\<rparr>)))"

text \<open>The loop over the user properties: the last value of each key is kept.\<close>

definition scan_trace_properties :: "(rstr \<times> rstr) list \<Rightarrow> rstr option \<times> rstr option" where
  "scan_trace_properties ups =
     foldl (\<lambda>(traceparent, tracestate) (key, val).
       if key = TRACEPARENT_KEY then (Some val, tracestate)
       else if key = TRACESTATE_KEY then (traceparent, Some val)
       else (traceparent, tracestate)) (None, None) ups"

definition trace_from_properties :: "Properties \<Rightarrow> TraceContext option" where
  "trace_from_properties props =
    (case scan_trace_properties (user_properties props) of
       (None, tracestate) \<Rightarrow> None
     | (Some tp, tracestate) \<Rightarrow> parse_traceparent tp tracestate)"

definition trace_inject :: "TraceContext \<Rightarrow> Properties \<Rightarrow> Properties" where
  "trace_inject tc props =
    (let props = props_push props UserProperty (StringPair TRACEPARENT_KEY (traceparent_string tc))
     in case tc_tracestate tc of
          Some state \<Rightarrow> props_push props UserProperty (StringPair TRACESTATE_KEY state)
        | None \<Rightarrow> props)"

section \<open>Printing and parsing\<close>

definition trace_wf :: "TraceContext \<Rightarrow> bool" where
  "trace_wf tc \<longleftrightarrow> length (tc_trace_id tc) = 16 \<and> length (tc_span_id tc) = 8
     \<and> \<not> is_all_zero (tc_trace_id tc) \<and> \<not> is_all_zero (tc_span_id tc)"

definition hex_byte :: "u8 \<Rightarrow> bytes" where
  "hex_byte b = [HEX ! unat (drop_bit 4 b), HEX ! unat (b AND 0x0F)]"

definition hex_string :: "bytes \<Rightarrow> bytes" where
  "hex_string bs = concat (map hex_byte bs)"

lemma hex_encode_eq: "hex_encode bs out = out @ hex_string bs"
  unfolding hex_encode_def hex_byte_def hex_string_def by (induction bs arbitrary: out) auto

lemma HEX_nibbles:
  "map hex_nibble HEX = map (\<lambda>n. Some (word_of_nat n)) [0..<16]" "dash \<notin> set HEX" "length HEX = 16"
  by (simp_all add: HEX_def hex_nibble_def upt_conv_Cons)

lemma hex_nibble_HEX: "n < 16 \<Longrightarrow> hex_nibble (HEX ! n) = Some (word_of_nat n)"
  using arg_cong [OF HEX_nibbles(1), of "\<lambda>xs. xs ! n"] HEX_nibbles(3) by simp

lemma HEX_not_dash: "n < 16 \<Longrightarrow> HEX ! n \<noteq> dash"
  using HEX_nibbles(2,3) by (metis nth_mem)

lemma nibbles:
  fixes b :: u8
  shows "unat (drop_bit 4 b) < 16" "unat (b AND 0x0F) < 16" "push_bit 4 (drop_bit 4 b) OR (b AND 0x0F) = b"
proof -
  show "unat (drop_bit 4 b) < 16"
    using unat_u8_bound [of b] by (simp add: unat_drop_bit div_less_iff_less_mult)
  have "b AND 0x0F \<le> 0x0F" by (rule word_and_le1)
  then show "unat (b AND 0x0F) < 16" by (simp add: word_le_nat_alt)
  have m: "(0x0F :: u8) = mask 4" by (simp add: mask_eq_exp_minus_1)
  show "push_bit 4 (drop_bit 4 b) OR (b AND 0x0F) = b"
    unfolding m by (rule bit_word_eqI) (auto simp: bit_simps)
qed

lemma hex_decode_encode: "hex_decode_loop (hex_string bs) = Some bs"
proof (induction bs)
  case (Cons b bs)
  then show ?case
    using nibbles [of b] by (simp add: hex_string_def hex_byte_def hex_nibble_HEX) 
qed (simp add: hex_string_def)

lemma hex_decode_fixed_encode:
  "length bs = n \<Longrightarrow> hex_decode_fixed n (hex_string bs) = Some bs"
  by (simp add: hex_decode_fixed_def hex_decode_encode)
    (simp add: hex_string_def length_concat comp_def hex_byte_def sum_list_triv)

lemma hex_no_dash: "dash \<notin> set (hex_string bs)"
proof -
  have "dash \<notin> set (hex_byte b)" for b
    using HEX_not_dash [OF nibbles(1) [of b]] HEX_not_dash [OF nibbles(2) [of b]] by (simp add: hex_byte_def)
  then show ?thesis by (simp add: hex_string_def)
qed

lemma parse_traceparent_string:
  assumes "trace_wf tc"
  shows "parse_traceparent (traceparent_string tc) st = Some (tc\<lparr>tc_tracestate := st\<rparr>)"
proof -
  have "traceparent_string tc =
      VERSION @ dash # hex_string (tc_trace_id tc) @ dash # hex_string (tc_span_id tc) @ dash # hex_string [tc_trace_flags tc]"
    by (simp add: traceparent_string_def hex_encode_eq Let_def)
  moreover have "dash \<notin> set VERSION" by (simp add: VERSION_def)
  ultimately have "split_on dash (traceparent_string tc) =
      [VERSION, hex_string (tc_trace_id tc), hex_string (tc_span_id tc), hex_string [tc_trace_flags tc]]"
    using hex_no_dash by (simp add: split_on_append split_on_single)
  moreover have "hex_decode_fixed 16 (hex_string (tc_trace_id tc)) = Some (tc_trace_id tc)"
    "hex_decode_fixed 8 (hex_string (tc_span_id tc)) = Some (tc_span_id tc)"
    "hex_decode_fixed 1 (hex_string [tc_trace_flags tc]) = Some [tc_trace_flags tc]"
    using assms by (intro hex_decode_fixed_encode, simp add: trace_wf_def)+
  ultimately show ?thesis
    using assms unfolding parse_traceparent_def trace_wf_def
    by (simp add: numeral_2_eq_2 numeral_3_eq_3)
qed

lemma hex_decode_loop_length: "hex_decode_loop s = Some bs \<Longrightarrow> even (length s) \<Longrightarrow> length s = length bs * 2"
  by (induction s arbitrary: bs rule: hex_decode_loop.induct) (auto split: option.splits)

lemma hex_decode_fixed_length: "hex_decode_fixed n s = Some bs \<Longrightarrow> length bs = n"
  using hex_decode_loop_length [of s bs] by (auto simp: hex_decode_fixed_def split: if_splits)

lemma parse_traceparent_wf:
  "parse_traceparent s st = Some tc \<Longrightarrow> trace_wf tc \<and> tc_tracestate tc = st"
  by (auto simp: parse_traceparent_def Let_def trace_wf_def split: if_splits option.splits
      dest!: hex_decode_fixed_length)

lemma user_properties_push [simp]:
  "user_properties (props_push p UserProperty (StringPair k v)) = user_properties p @ [(k, v)]"
  by (simp add: user_properties_def props_push_def map_filter_def)

lemma TRACE_KEYS_differ [simp]: "TRACESTATE_KEY \<noteq> TRACEPARENT_KEY"
  by (simp add: TRACESTATE_KEY_def TRACEPARENT_KEY_def)

lemma scan_trace_properties_append [simp]:
  "scan_trace_properties (ups @ [(k, v)]) =
    (if k = TRACEPARENT_KEY then (Some v, snd (scan_trace_properties ups))
     else if k = TRACESTATE_KEY then (fst (scan_trace_properties ups), Some v)
     else scan_trace_properties ups)"
  by (simp add: scan_trace_properties_def split: prod.splits)

lemma trace_from_inject:
  assumes "trace_wf tc"
  shows "trace_from_properties (trace_inject tc props) =
    Some (tc\<lparr>tc_tracestate := (case tc_tracestate tc of Some s \<Rightarrow> Some s
       | None \<Rightarrow> snd (scan_trace_properties (user_properties props)))\<rparr>)"
  using parse_traceparent_string [OF assms]
    scan_trace_properties_append [of "user_properties props @ [(TRACEPARENT_KEY, traceparent_string tc)]" TRACESTATE_KEY]
  by (simp add: trace_from_properties_def trace_inject_def Let_def split: option.splits)

section \<open>Correctness of trace propagation\<close>

text \<open>C39: A trace context that was injected is extracted again from the same properties, whatever
  they held: identifiers and flags always, and the vendor state too, unless the context has none,
  in which case an older state of the list is kept.\<close>

theorem trace_roundtrip:
  assumes "trace_wf tc"
  shows "trace_from_properties (trace_inject tc props) =
    Some (tc\<lparr>tc_tracestate := (case tc_tracestate tc of Some s \<Rightarrow> Some s
       | None \<Rightarrow> snd (scan_trace_properties (user_properties props)))\<rparr>)"
  using assms by (rule trace_from_inject)

theorem trace_roundtrip_witness:
  "trace_from_properties (trace_inject \<lparr>tc_trace_id = replicate 16 1, tc_span_id = replicate 8 0xAB,
      tc_trace_flags = 1, tc_tracestate = Some [0x61]\<rparr> Properties_new) =
    Some \<lparr>tc_trace_id = replicate 16 1, tc_span_id = replicate 8 0xAB, tc_trace_flags = 1, tc_tracestate = Some [0x61]\<rparr>"
proof -
  have "trace_wf \<lparr>tc_trace_id = replicate 16 1, tc_span_id = replicate 8 0xAB, tc_trace_flags = 1, tc_tracestate = Some [0x61]\<rparr>"
    by (simp add: trace_wf_def is_all_zero_def)
  from trace_roundtrip [OF this, of Properties_new] show ?thesis by simp
qed

text \<open>Whatever an untrusted peer sends, an extracted context has identifiers of the right length
  that are not all zero, and a child keeps the trace and stays well-formed.\<close>

lemma trace_parse_safe:
  assumes "trace_from_properties props = Some tc"
  shows "trace_wf tc \<and> (\<forall>span child. length span = 8 \<longrightarrow> trace_child tc span = Some child \<longrightarrow>
    trace_wf child \<and> tc_trace_id child = tc_trace_id tc \<and> tc_span_id child = span)"
proof -
  have "trace_wf tc"
    using assms parse_traceparent_wf by (auto simp: trace_from_properties_def split: prod.splits option.splits)
  then show ?thesis by (auto simp: trace_child_def trace_wf_def split: if_splits)
qed

end
