(* ===== verification/Async_Handshake.thy ===== *)
theory Async_Handshake
  imports Async_Promises
begin

text \<open>
  The handshake of the asynchronous client: what it puts on the stream, and what it takes over from
  the CONNACK.
\<close>

section \<open>Bytes written by the handshake\<close>











section \<open>What the handshake establishes\<close>



end
