(* ===== verification/Async_Turns.thy ===== *)
theory Async_Turns
  imports Async_Requests Async_Handshake
begin

text \<open>
  Every phase of a turn of the driver returns.  The reasons it could fail to are three: an instant
  that is not representable makes the driver panic, a write that is interrupted for ever, and a
  buffer that yields packets for ever.
\<close>

section \<open>Computations that return\<close>

definition live :: "('s \<Rightarrow> bool) \<Rightarrow> ('s, 'a) comp \<Rightarrow> bool" where
  "live I m \<longleftrightarrow> (\<forall>s. I s \<longrightarrow> m s \<noteq> None)"

named_theorems live_intros \<open>computations that return\<close>

lemma liveI: "(\<And>s. I s \<Longrightarrow> m s \<noteq> None) \<Longrightarrow> live I m"
  by (simp add: live_def)

lemma liveD: "live I m \<Longrightarrow> I s \<Longrightarrow> \<exists>r s'. m s = Some (r, s')"
  by (auto simp: live_def)

lemma liveN: "live I m \<Longrightarrow> I s \<Longrightarrow> m s \<noteq> None"
  by (simp add: live_def)

lemma live_basic [live_intros]: "live I (returns r)" "live I (updM f)" "live I (pureM g)" "live I (\<lambda>s. Some (h s))"
  by (simp_all add: live_def returns_def updM_def pureM_def)

lemma live_yields:
  assumes "live I m" "yields I J m" "\<And>x. live I (k x)"
  shows "live I (andM m k)"
proof (rule liveI)
  fix s
  assume I: "I s"
  from liveD [OF assms(1) I] obtain r s' where r: "m s = Some (r, s')" by blast
  then show "andM m k s \<noteq> None"
    using yieldsD [OF assms(2) I r] assms(3) by (cases r) (auto simp: andM_def live_def)
qed

lemma live_andM: "live I m \<Longrightarrow> maintains I m \<Longrightarrow> (\<And>x. live I (k x)) \<Longrightarrow> live I (andM m k)"
  by (rule live_yields [where J = I]) (auto intro: maintains_yields)

lemma live_checked: "(\<And>x. live I (k x)) \<Longrightarrow> live I (andM (returns v) k)"
  by (rule live_andM) (auto intro: live_basic maintains_returns)

lemma live_if [live_intros]: "live I m \<Longrightarrow> live I n \<Longrightarrow> live I (if b then m else n)"
  by simp

lemma live_if_state [live_intros]: "live I m \<Longrightarrow> live I n \<Longrightarrow> live I (\<lambda>s. if b s then m s else n s)"
  by (simp add: live_def)

section \<open>Instants\<close>

text \<open>
  \<open>H\<close> is a time span the clock is never so close to its end that it could not be added: the
  acknowledgement timeout and the longest keep-alive are within it.
\<close>

definition clock_bounded :: "'w Runtime \<Rightarrow> duration \<Rightarrow> bool" where
  "clock_bounded rt H \<longleftrightarrow>
     (\<forall>w t w'. tr_now (rt_transport rt) w = (t, w') \<longrightarrow> t + H \<le> tr_instant_max (rt_transport rt))
     \<and> from_secs 65535 \<le> H"

definition timers_ok :: "'w Runtime \<Rightarrow> duration \<Rightarrow> 'w MqttConnection \<Rightarrow> bool" where
  "timers_ok rt H s \<longleftrightarrow> clock_bounded rt H \<and> cn_next_packet_id s \<noteq> 0 \<and> cn_ack_timeout s \<le> H
     \<and> cn_last_write_at s + H \<le> tr_instant_max (rt_transport rt)
     \<and> (\<forall>t. cn_ping_outstanding_since s = Some t \<longrightarrow> t + H \<le> tr_instant_max (rt_transport rt))"

lemma clock_boundedD: "clock_bounded rt H \<Longrightarrow> tr_now (rt_transport rt) w = (t, w') \<Longrightarrow> t + H \<le> tr_instant_max (rt_transport rt)"
  by (auto simp: clock_bounded_def)

interpretation timers: driver_invariant rt "timers_ok rt H" "timers_ok rt H" "\<lambda>_ _. True" for rt H
  by unfold_locales
    (auto simp: timers_ok_def driver_defs enqueue_with_action_Ok split: prod.splits dest: clock_boundedD)

interpretation parser: dispatch_invariant rt "\<lambda>s. cn_frame_reader s = fr \<and> cn_next_packet_id s \<noteq> 0"
  "\<lambda>s. cn_frame_reader s = fr" "\<lambda>_ _. True" for rt fr
  by unfold_locales
    (auto simp: driver_defs enqueue_with_action_Ok split: prod.splits)

lemma insert_pending_ack_returns:
  assumes "timers_ok rt H s"
  shows "\<exists>r s'. insert_pending_ack rt i k label s = Some (r, s')"
proof -
  obtain now w where now: "tr_now (rt_transport rt) (cn_stream s) = (now, w)" by force
  have "now + cn_ack_timeout s \<le> tr_instant_max (rt_transport rt)"
    using assms clock_boundedD [of rt H, OF _ now] by (auto simp: timers_ok_def)
  then show ?thesis by (auto simp: insert_pending_ack_def conn_now_def now instant_checked_add_def)
qed

lemma live_insertM: "live (timers_ok rt H) (insertM rt i k label)"
proof (rule liveI)
  fix s
  assume "timers_ok rt H s"
  from insert_pending_ack_returns [OF this] obtain r s1 where "insert_pending_ack rt i k label s = Some (r, s1)" by blast
  then show "insertM rt i k label s \<noteq> None" by (simp add: insertM_def)
qed

lemma live_await_ack: "live (timers_ok rt H) (await_ack rt i k label bs)"
proof (rule liveI)
  fix s
  assume "timers_ok rt H s"
  from insert_pending_ack_returns [OF this] obtain r s1 where r: "insert_pending_ack rt i k label s = Some (r, s1)" by blast
  obtain y s2 where "enqueue bs Act_None None s1 = (y, s2)" by force
  with r show "await_ack rt i k label bs s \<noteq> None"
    by (cases r; cases y) (auto simp: await_ack_def split: option.splits)
qed

section \<open>Commands return\<close>

lemma live_begin_publish: "live (timers_ok rt H) (begin_publish rt topic payload opts result)"
proof (rule liveI)
  fix s
  assume I: "timers_ok rt H s"
  obtain x s1 where x: "publish_id (po_qos opts) s = (x, s1)" by force
  have "await_ack rt i k label bs s1 \<noteq> None" for i k label bs
    by (rule liveN [OF live_await_ack timers.publish_id_I(1) [OF I x]])
  then show "begin_publish rt topic payload opts result s \<noteq> None"
    by (simp add: begin_publish_def x split: sum.split option.split prod.split)
qed

lemma live_begin_subscribe: "live (timers_ok rt H) (begin_subscribe rt flt qos result)"
proof (rule liveI)
  fix s
  assume I: "timers_ok rt H s"
  obtain x s1 where x: "reserve_packet_id s = (x, s1)" by force
  have "await_ack rt i k label bs s1 \<noteq> None" for i k label bs
    by (rule liveN [OF live_await_ack timers.reserve_I(1) [OF I x]])
  then show "begin_subscribe rt flt qos result s \<noteq> None"
    by (simp add: begin_subscribe_def x split: sum.split)
qed

lemma live_begin_unsubscribe: "live (timers_ok rt H) (begin_unsubscribe rt flt result)"
proof (rule liveI)
  fix s
  assume I: "timers_ok rt H s"
  obtain x s1 where x: "reserve_packet_id s = (x, s1)" by force
  have "await_ack rt i k label bs s1 \<noteq> None" for i k label bs
    by (rule liveN [OF live_await_ack timers.reserve_I(1) [OF I x]])
  then show "begin_unsubscribe rt flt result s \<noteq> None"
    by (simp add: begin_unsubscribe_def x split: sum.split)
qed

lemma live_enqueue_case: "live I (\<lambda>s. case enqueue_with_action bs a c s of
    (Inl (e, action), s) \<Rightarrow> Some (f e action s) | (Inr _, s) \<Rightarrow> Some (g s))"
  by (auto simp: live_def split: prod.splits sum.splits)

lemma live_begin_disconnect: "live (timers_ok rt H) (begin_disconnect result)"
  unfolding begin_disconnect_def
  by (intro live_andM live_checked live_enqueue_case live_intros maintains_updM timers.I_closing)

lemma live_abandon: "live (timers_ok rt H) abandon"
  unfolding abandon_def begin_abandoned_disconnect_def
  by (intro live_andM live_checked live_intros maintains_updM timers.I_closing timers.I_channel)

lemma live_queue_request: "live (timers_ok rt H) (queue_request rt corr pid bs)"
proof (rule liveI)
  fix s
  assume I: "timers_ok rt H s"
  have "live (timers_ok rt H) (case pid of Some i \<Rightarrow> insertM rt i (Ack_RequestPublish corr) ''request publish acknowledgement''
       | None \<Rightarrow> returns (Ok ()))" by (cases pid) (auto intro: live_insertM live_basic)
  from liveD [OF this I] obtain x s1 where x: "(case pid of Some i \<Rightarrow> insertM rt i (Ack_RequestPublish corr) ''request publish acknowledgement''
       | None \<Rightarrow> returns (Ok ())) s = Some (x, s1)" by blast
  obtain y s2 where "enqueue bs Act_None (Some corr) s1 = (y, s2)" by force
  then show "queue_request rt corr pid bs s \<noteq> None"
    by (cases x; cases y) (simp_all add: queue_request_def andM_def x)
qed

lemma live_publish_request: "live (timers_ok rt H) (publish_request rt corr)"
proof (rule liveI)
  fix s
  assume I: "timers_ok rt H s"
  show "publish_request rt corr s \<noteq> None"
  proof (cases "map_of (cn_pending_requests s) corr")
    case (Some q)
    have "live (timers_ok rt H) (andM (pureM (publish_id (pr_qos q))) (\<lambda>packet_id.
           andM (returns (PublishPacket_encode
               \<lparr>pub_topic = pr_topic q, pub_packet_id = packet_id,
                pub_payload = pr_payload q, pub_qos = pr_qos q, pub_retain = False,
                pub_dup = False, pub_properties = pr_properties q\<rparr>))
             (queue_request rt corr packet_id)))"
      by (intro live_andM live_checked live_queue_request live_basic maintains_pureM) (erule (1) timers.publish_id_I(1))
    then show ?thesis using I Some by (simp add: publish_request_def live_def)
  qed (simp add: publish_request_def)
qed

lemma live_publish_requests: "live (timers_ok rt H) (publish_requests rt cs)"
proof (induction cs)
  case (Cons c cs)
  show ?case
  proof (rule liveI)
    fix s
    assume I: "timers_ok rt H s"
    from liveD [OF live_publish_request I] obtain x s1 where x: "publish_request rt c s = Some (x, s1)" by blast
    have "timers_ok rt H (case x of Inl e \<Rightarrow> fail_request c e s1 | Inr _ \<Rightarrow> s1)"
      using maintainsD [OF timers.publish_request_I I x] by (simp add: timers.fail_request_I split: sum.split)
    then show "publish_requests rt (c # cs) s \<noteq> None" using Cons.IH by (simp add: x live_def)
  qed
qed (simp add: live_def)

lemma live_subscribe_for_responses: "live (timers_ok rt H) (subscribe_for_responses rt topic)"
proof (rule liveI)
  fix s
  assume I: "timers_ok rt H s"
  obtain i s1 where i: "reserve_packet_id s = (i, s1)" by force
  note I1 = timers.reserve_I(1) [OF I i]
  show "subscribe_for_responses rt topic s \<noteq> None"
  proof (cases i)
    case (Inr j)
    let ?m = "insertM rt j (Ack_ResponseSubscribe topic) ''request subscription acknowledgement''"
    from liveD [OF live_insertM I1] obtain y s2 where y: "?m s1 = Some (y, s2)" by blast
    obtain z s3 where z: "enqueue bs Act_None None (s2\<lparr>cn_response_subscriptions :=
        AList.update topic Subscribing (cn_response_subscriptions s2)\<rparr>) = (z bs, s3 bs)" for bs
      using that [of "\<lambda>bs. fst (enqueue bs Act_None None (s2\<lparr>cn_response_subscriptions :=
        AList.update topic Subscribing (cn_response_subscriptions s2)\<rparr>))"
        "\<lambda>bs. snd (enqueue bs Act_None None (s2\<lparr>cn_response_subscriptions :=
        AList.update topic Subscribing (cn_response_subscriptions s2)\<rparr>))"] by simp
    show ?thesis
      by (cases y) (simp_all add: subscribe_for_responses_def andM_def pureM_def returns_def i Inr y z Let_def split: sum.split)
  qed (simp add: subscribe_for_responses_def andM_def pureM_def i)
qed

lemma live_admit_request: "live (timers_ok rt H) (admit_request rt request result deadline)"
proof (rule liveI)
  fix s
  assume "timers_ok rt H s"
  then have I: "timers_ok rt H (s\<lparr>cn_pending_requests := rs\<rparr>)" for rs by (simp add: timers_ok_def)
  show "admit_request rt request result deadline s \<noteq> None"
    using liveN [OF live_publish_request I] liveN [OF live_subscribe_for_responses I]
    by (auto simp: admit_request_def Let_def split: option.split ResponseSubscription.split)
qed

lemma live_begin_request: "live (timers_ok rt H) (begin_request rt request result)"
proof (rule liveI)
  fix s
  assume I: "timers_ok rt H s"
  obtain cancelled l where l: "consume_cancellation (rq_correlation_data request) (cn_request_lifecycle s) = (cancelled, l)" by force
  obtain now w where now: "tr_now (rt_transport rt) (cn_stream s) = (now, w)" by force
  have "timers_ok rt H (s\<lparr>cn_request_lifecycle := l, cn_stream := w\<rparr>)" using I by (simp add: timers_ok_def)
  from liveN [OF live_admit_request this] show "begin_request rt request result s \<noteq> None"
    by (auto simp: begin_request_def l Let_def conn_now_def now split: sum.split option.split)
qed

lemma live_process_command: "live (timers_ok rt H) (process_command rt command)"
proof (rule liveI)
  fix s
  assume I: "timers_ok rt H s"
  have request: "\<exists>x s1. begin_request rt q result s = Some (x, s1)" for q result
    by (rule liveD [OF live_begin_request I])
  show "process_command rt command s \<noteq> None"
  proof (cases command)
    case (Cmd_Request q result)
    with request [of q result] show ?thesis by (auto simp: process_command_def)
  qed (use liveN [OF live_begin_publish I] liveN [OF live_begin_subscribe I] liveN [OF live_begin_unsubscribe I]
      liveN [OF live_begin_disconnect I] in \<open>simp_all add: process_command_def\<close>)
qed

lemma live_drain_loop: "live (timers_ok rt H) (drain_loop rt n)"
proof (induction n)
  case (Suc n)
  show ?case
  proof (rule liveI)
    fix s
    assume I: "timers_ok rt H s"
    obtain x s1 where x: "conn_io (rt_try_recv rt) s = (x, s1)" by force
    have I1: "timers_ok rt H s1" by (rule timers.conn_io_I [OF I _ x]) (rule TrueI)
    have "live (timers_ok rt H) (andM (process_command rt c) (\<lambda>_. drain_loop rt n))" for c
      by (intro live_andM live_process_command timers.process_command_I Suc.IH)
    from liveN [OF this I1] liveN [OF live_abandon I1] show "drain_loop rt (Suc n) s \<noteq> None"
      by (cases x) (simp_all add: x)
  qed
qed (simp add: live_def)

lemma live_drain_commands: "live (timers_ok rt H) (drain_commands rt)"
  unfolding live_def drain_commands_def using liveN [OF live_drain_loop] by blast

section \<open>Waiting returns\<close>

lemma keep_alive_within:
  assumes "timers_ok rt H s" "keep_alive_interval (cn_keep_alive_secs s) = Some interval"
  shows "interval \<le> H" "from_secs (unat (cn_keep_alive_secs s)) \<le> H"
proof -
  have "from_secs (unat k) \<le> from_secs 65535" "from_secs (max (unat k div 2) 1) \<le> from_secs 65535" for k :: u16
    using unat_u16_bound [of k] by (auto simp: from_secs_def)
  moreover have "from_secs 65535 \<le> H" using assms(1) by (simp add: timers_ok_def clock_bounded_def)
  ultimately show "interval \<le> H" "from_secs (unat (cn_keep_alive_secs s)) \<le> H"
    using assms(2) by (auto simp: keep_alive_interval_def split: if_splits intro: order_trans)
qed

lemma next_wait_duration_returns:
  assumes "timers_ok rt H s"
  shows "\<exists>d s'. next_wait_duration rt s = Some (d, s')"
proof (cases "keep_alive_interval (cn_keep_alive_secs s)")
  case (Some interval)
  note H = keep_alive_within [OF assms Some]
  have "instant_checked_add (rt_transport rt) (cn_last_write_at s) interval \<noteq> None"
    "cn_ping_outstanding_since s = Some t \<Longrightarrow>
       instant_checked_add (rt_transport rt) t (from_secs (unat (cn_keep_alive_secs s))) \<noteq> None" for t
    using assms H by (auto simp: timers_ok_def instant_checked_add_def)
  then show ?thesis
    using Some by (auto simp: next_wait_duration_def conn_now_def Let_def split_def split: option.split)
qed (auto simp: next_wait_duration_def conn_now_def Let_def split_def)

lemma live_wait_command: "live (timers_ok rt H) (wait_command rt)"
proof (rule liveI)
  fix s
  assume I: "timers_ok rt H s"
  from next_wait_duration_returns [OF I] obtain d s1 where d: "next_wait_duration rt s = Some (d, s1)" by blast
  obtain x s2 where x: "conn_io (rt_recv_timeout rt d) s1 = (x, s2)" by force
  have "timers_ok rt H s2"
    by (rule timers.conn_io_I [OF timers.next_wait_duration_I [OF I d] _ x]) (rule TrueI)
  from liveN [OF live_process_command this] liveN [OF live_abandon this] show "wait_command rt s \<noteq> None"
    by (cases x) (simp_all add: wait_command_def d x)
qed

section \<open>Writing returns\<close>

text \<open>An interrupted write is tried again; the measure \<open>\<mu>\<close> on the world says that this ends.\<close>

definition interrupts_end :: "'w Transport \<Rightarrow> ('w \<Rightarrow> nat) \<Rightarrow> bool" where
  "interrupts_end tr \<mu> \<longleftrightarrow>
     (\<forall>buf w e w'. tr_write tr buf w = (Err e, w') \<longrightarrow> io_kind e = Interrupted \<longrightarrow> \<mu> w' < \<mu> w)"

definition unsent :: "'w MqttConnection \<Rightarrow> nat" where
  "unsent s = sum_list (map (\<lambda>f. length (of_bytes f) - of_offset f) (cn_outbound s))"

lemma unsent_advance:
  assumes "cn_outbound s = f # rest" "0 < n" "n \<le> length (of_bytes f) - of_offset f"
  shows "unsent (advance_front rt f rest n (s\<lparr>cn_stream := w\<rparr>)) < unsent s"
  using assms by (auto simp: unsent_def advance_front_def conn_now_def Let_def split: prod.splits)

lemma write_loop_returns:
  assumes "interrupts_end (rt_transport rt) \<mu>"
  shows "write_loop rt s \<noteq> None"
proof (induction s rule: wf_induct_rule [OF wf_measures [of "[unsent, \<lambda>s. \<mu> (cn_stream s)]"]])
  case (1 s)
  have IH: "write_loop rt t \<noteq> None" if "unsent t < unsent s \<or> unsent t = unsent s \<and> \<mu> (cn_stream t) < \<mu> (cn_stream s)" for t
    using 1 [of t] that by auto
  show ?case
  proof (cases "cn_outbound s")
    case Nil
    then show ?thesis by (simp add: write_loop.simps)
  next
    case (Cons f rest)
    obtain x w where x: "tr_write (rt_transport rt) (drop (of_offset f) (of_bytes f)) (cn_stream s) = (x, w)" by force
    show ?thesis
    proof (cases x)
      case (Inl e)
      have "write_loop rt (s\<lparr>cn_stream := w\<rparr>) \<noteq> None" if "io_kind e = Interrupted"
        using assms x Inl that by (intro IH) (auto simp: interrupts_end_def unsent_def)
      then show ?thesis using Cons x Inl by (subst write_loop.simps) (simp add: conn_io_def)
    next
      case (Inr n)
      have "write_loop rt (advance_front rt f rest n (s\<lparr>cn_stream := w\<rparr>)) \<noteq> None"
        if "n \<noteq> 0" "\<not> n > length (of_bytes f) - of_offset f"
        using unsent_advance [OF Cons, of n rt w] that by (intro IH) simp
      then show ?thesis using Cons x Inr by (subst write_loop.simps) (simp add: conn_io_def)
    qed
  qed
qed

lemma flush_outbound_returns:
  assumes "interrupts_end (rt_transport rt) \<mu>"
  shows "flush_outbound rt s \<noteq> None"
proof -
  have loop: "live (\<lambda>_. True) (write_loop rt)" using write_loop_returns [OF assms] by (auto simp: live_def)
  have all: "maintains (\<lambda>_. True) m" for m :: "('w, 'x) driver" by (simp add: maintains_def)
  have "live (\<lambda>_. True) (flush_outbound rt)"
    unfolding flush_outbound_def by (intro live_andM live_intros loop all)
  then show ?thesis by (simp add: live_def)
qed

section \<open>Dispatching returns\<close>

lemma live_publish_waiting: "live (timers_ok rt H) (publish_waiting_requests rt topic)"
  unfolding live_def publish_waiting_requests_def using liveN [OF live_publish_requests] by blast

lemma live_suback_response_topic: "live (timers_ok rt H) (suback_response_topic rt ack topic)"
proof (rule liveI)
  fix s
  assume "timers_ok rt H s"
  then have "timers_ok rt H (s\<lparr>cn_response_subscriptions := x\<rparr>)" for x by (simp add: timers_ok_def)
  from liveN [OF live_publish_waiting this] show "suback_response_topic rt ack topic s \<noteq> None"
    by (auto simp: suback_response_topic_def Let_def split: sum.split error.split)
qed

lemma live_take: "(\<And>x. live (timers_ok rt H) (k x)) \<Longrightarrow> live (timers_ok rt H) (andM (pureM (take_pending_ack i c)) k)"
  by (intro live_andM live_basic maintains_pureM) (erule (1) timers.take_pending_ack_I)

lemma live_dispatch_publish: "live (timers_ok rt H) (dispatch_publish rt packet)"
proof -
  have ack: "maintains (timers_ok rt H) (andM (returns x) (\<lambda>i. andM (returns (PubAckPacket_encode \<lparr>pa_packet_id = i, pa_reason_code = 0\<rparr>))
      (\<lambda>ack. pureM (enqueue ack Act_None None))))" for x
    by (intro maintains_andM maintains_returns maintains_checked timers.enqueue_maintains encoded_puback)
  show ?thesis
    unfolding dispatch_publish_def
    by (intro live_andM live_if live_checked live_basic maintains_if maintains_returns ack)
      (auto simp: live_def split: prod.split bool.split try_send.split)
qed

lemma live_dispatch_packet: "live (timers_ok rt H) (dispatch_packet rt packet)"
proof -
  have "live (timers_ok rt H) (dispatch_puback ack)" for ack
    unfolding dispatch_puback_def by (intro live_take) (auto intro: live_basic split: option.split)
  moreover have "live (timers_ok rt H) (dispatch_unsuback ack)" for ack
    unfolding dispatch_unsuback_def by (intro live_take) (auto intro: live_basic split: option.split)
  moreover have "live (timers_ok rt H) (complete_subscribe ack q result)" for ack q result
    by (auto simp: live_def complete_subscribe_def split: sum.split error.split)
  then have "live (timers_ok rt H) (dispatch_suback rt ack)" for ack
    unfolding dispatch_suback_def
    by (intro live_take) (auto intro: live_basic live_suback_response_topic split: option.split PendingAckKind.split)
  moreover have "live (timers_ok rt H) (andM (updM f) (\<lambda>_. returns r))" for f and r :: "unit result"
    by (simp add: live_def andM_def updM_def returns_def)
  ultimately show ?thesis
    unfolding dispatch_packet_def by (auto intro: live_basic live_dispatch_publish split: Packet.split)
qed

lemma decode_and_dispatch_returns:
  "timers_ok rt H s \<Longrightarrow> frame_inv (cn_frame_reader s) \<Longrightarrow> decode_and_dispatch rt s \<noteq> None"
proof (induction "length (fr_buf (cn_frame_reader s))" arbitrary: s rule: less_induct)
  case less
  obtain x fr where x: "try_decode (cn_frame_reader s) = (x, fr)" by force
  show ?case
  proof (cases "\<exists>p. x = Ok (Some p)")
    case True
    then obtain p where p: "x = Ok (Some p)" by blast
    let ?s = "s\<lparr>cn_frame_reader := fr\<rparr>"
    have I: "timers_ok rt H ?s" using less.prems(1) by (simp add: timers_ok_def)
    from liveD [OF live_dispatch_packet I] obtain r s1 where r: "dispatch_packet rt p ?s = Some (r, s1)" by blast
    have "decode_and_dispatch rt s1 \<noteq> None" if "is_ok r"
    proof (rule less.hyps)
      have fr: "cn_frame_reader s1 = fr"
        using yieldsD [OF parser.dispatch_packet_I _ r, of fr] less.prems(1) by (simp add: timers_ok_def)
      show "length (fr_buf (cn_frame_reader s1)) < length (fr_buf (cn_frame_reader s))"
        using try_decode_shorter [OF less.prems(2), of p] x p fr by simp
      show "timers_ok rt H s1" using yieldsD [OF timers.dispatch_packet_I I r] by simp
      show "frame_inv (cn_frame_reader s1)" using try_decode_result(2) [OF less.prems(2)] x fr by simp
    qed
    then show ?thesis using x p r by (subst decode_and_dispatch.simps) (cases r; simp add: andM_def)
  next
    case False
    then show ?thesis using x by (subst decode_and_dispatch.simps) (auto split: sum.split option.split)
  qed
qed

section \<open>A turn returns\<close>

lemma driver_reach_timers:
  assumes "driver_reach rt opts s" "clock_bounded rt H" "co_ack_timeout opts \<le> H"
  shows "timers_ok rt H s"
  using assms(1)
proof (induction rule: driver_reach.induct)
  case (connected w client s w')
  then obtain deadline w5 where "finish_handshake (rt_transport rt) opts deadline w5 = Some (Ok (client, s), w')"
    by (rule async_connect_with_Ok)
  then obtain connack caps now w6 w7 where "s = new_connection opts connack caps now w'" "nowW (rt_transport rt) w6 = Some (Ok now, w7)"
    by (auto simp: finish_handshake_def andM_Ok returns_def Let_def)
  then show ?case
    using assms(2,3) by (auto simp: timers_ok_def new_connection_def nowW_def split: prod.splits dest: clock_boundedD)
next
  case (phase s m r s')
  then show ?case using timers.phase_J by blast
qed (simp_all add: timers_ok_def)

text \<open>C4: Every phase of every turn of the driver returns, in every state the driver can reach: it
  neither panics nor loops, whatever the broker sends and however many frames are queued.  This
  holds as long as the clock is further from the end of its range than the acknowledgement timeout
  and the longest keep-alive, and writes are not interrupted for ever.\<close>

theorem driver_turns_return:
  assumes "driver_reach rt opts s" "transport_ok (rt_transport rt)" "clock_bounded rt H"
    and "co_ack_timeout opts \<le> H" "interrupts_end (rt_transport rt) \<mu>" "m \<in> driver_phases rt"
  shows "\<exists>r s'. m s = Some (r, s')"
proof -
  note timers = driver_reach_timers [OF assms(1,3,4)]
  have "frame_inv (cn_frame_reader s)" using driver_reach_limits [OF assms(1,2)] by (simp add: driver_inv_def)
  then have "decode_and_dispatch rt s \<noteq> None" by (rule decode_and_dispatch_returns [OF timers])
  moreover have "flush_outbound rt s \<noteq> None" by (rule flush_outbound_returns [OF assms(5)])
  moreover note liveN [OF live_drain_commands timers] liveN [OF live_wait_command timers]
  ultimately show ?thesis
    using assms(6) by (auto simp: driver_phases_def turn_phases_def updM_def pureM_def)
qed

theorem driver_turns_return_witness:
  "\<exists>r s'. wait_command test_runtime (test_queued ([], [], [])) = Some (r, s')"
proof -
  have "clock_bounded test_runtime (from_secs 65535)"
    by (simp add: clock_bounded_def from_secs_def)
  moreover have "co_ack_timeout test_options \<le> from_secs 65535"
    by (simp add: test_options_def ConnectOptions_new_def ConnectOptions_default_def from_secs_def)
  moreover have "interrupts_end (rt_transport test_runtime) (\<lambda>_. 0)"
    by (auto simp: interrupts_end_def test_runtime_def)
  ultimately show ?thesis
    by (rule driver_turns_return [OF test_queued_reach test_ok(1)]) (simp add: driver_phases_def turn_phases_def)
qed

end
