(* ===== verification/Async_Outbox.thy ===== *)
theory Async_Outbox
  imports Async_Promises
begin

text \<open>
  The outbound queue of the asynchronous driver against an abstract outbox: a byte stream and a
  queue of frames, of which only the front one may be partly sent.  Every phase of the driver is a
  run of the outbox, so the order of the frames on the stream is a property of the outbox alone.
\<close>

section \<open>The abstract outbox\<close>

text \<open>
  What the stream carries, and the frames that wait, each with the number of its bytes that are
  already on the stream.  \<open>outbox_run a fs b\<close>: the outbox gets from \<open>a\<close> to \<open>b\<close> while the frames \<open>fs\<close>
  are submitted, in this order.  Frames that have not started may be withdrawn.
\<close>

type_synonym outbox = "bytes \<times> (bytes \<times> nat) list"

inductive outbox_run :: "outbox \<Rightarrow> bytes list \<Rightarrow> outbox \<Rightarrow> bool" for a where
  start: "outbox_run a [] a"
| submit: "outbox_run a fs (out, q) \<Longrightarrow> control_frame b \<Longrightarrow> outbox_run a (fs @ [b]) (out, q @ [(b, 0)])"
| transmit: "outbox_run a fs (out, (b, k) # q) \<Longrightarrow> 0 < n \<Longrightarrow> k + n < length b \<Longrightarrow>
    outbox_run a fs (out @ take n (drop k b), (b, k + n) # q)"
| complete: "outbox_run a fs (out, (b, k) # q) \<Longrightarrow> outbox_run a fs (out @ drop k b, q)"
| withdraw: "outbox_run a fs (out, q) \<Longrightarrow> subseq q' q \<Longrightarrow>
    filter (\<lambda>f. 0 < snd f) q' = filter (\<lambda>f. 0 < snd f) q \<Longrightarrow> outbox_run a fs (out, q')"





section \<open>The driver's queue as an outbox\<close>

definition queue_of :: "'w MqttConnection \<Rightarrow> (bytes \<times> nat) list" where
  "queue_of s = map (\<lambda>f. (of_bytes f, of_offset f)) (cn_outbound s)"

definition outbox_of :: "('w \<Rightarrow> bytes) \<Rightarrow> 'w MqttConnection \<Rightarrow> outbox" where
  "outbox_of wire s = (wire (cn_stream s), queue_of s)"

text \<open>
  While the driver runs, its queue is the outbox; once it has failed what was pending, the queue is
  empty and the stream ends where the outbox was.
\<close>

definition outbox_reached :: "'w Runtime \<Rightarrow> ('w \<Rightarrow> bytes) \<Rightarrow> outbox \<Rightarrow> 'w MqttConnection \<Rightarrow> bool" where
  "outbox_reached rt wire a s \<longleftrightarrow> transport_ok (rt_transport rt) \<and> wire_ok rt wire \<and> driver_inv s
     \<and> (\<exists>fs. outbox_run a fs (outbox_of wire s))"

definition outbox_left :: "'w Runtime \<Rightarrow> ('w \<Rightarrow> bytes) \<Rightarrow> outbox \<Rightarrow> 'w MqttConnection \<Rightarrow> bool" where
  "outbox_left rt wire a s \<longleftrightarrow> wire_ok rt wire \<and> (\<exists>fs q. outbox_run a fs (wire (cn_stream s), q)
     \<and> (queue_of s = q \<or> queue_of s = []))"

lemma outbox_same:
  "outbox_reached rt wire a s \<Longrightarrow> driver_inv s' \<Longrightarrow> outbox_of wire s' = outbox_of wire s \<Longrightarrow> outbox_reached rt wire a s'"
  by (simp add: outbox_reached_def)

lemma outbox_enqueue:
  assumes "outbox_reached rt wire a s" "encoded bs" "c = None \<or> action = Act_None"
    and run: "enqueue_with_action bs action c s = (Ok (), s')"
  shows "outbox_reached rt wire a s'"
proof -
  have inv: "driver_inv s'" using driver_inv_enqueue [of s bs c action s'] assms by (simp add: outbox_reached_def)
  have q: "outbox_of wire s' = (wire (cn_stream s), queue_of s @ [(bs, 0)])"
    using run by (auto simp: enqueue_with_action_Ok outbox_of_def queue_of_def)
  have "control_frame bs" using inv run by (auto simp: enqueue_with_action_Ok driver_inv_def)
  then show ?thesis
    using assms(1) inv by (auto simp: outbox_reached_def outbox_of_def [of wire s] q intro: outbox_run.submit)
qed

lemma outbox_written:
  assumes I: "outbox_reached rt wire a s" and out: "cn_outbound s = f # rest"
    and wr: "tr_write (rt_transport rt) (drop (of_offset f) (of_bytes f)) (cn_stream s) = (Ok n, w)"
    and n: "0 < n" "n \<le> length (of_bytes f) - of_offset f"
  shows "outbox_reached rt wire a (advance_front rt f rest n (s\<lparr>cn_stream := w\<rparr>))" (is "outbox_reached _ _ _ ?s'")
proof -
  have ok: "wire_ok rt wire" "driver_inv s" using I by (simp_all add: outbox_reached_def)
  from I out obtain fs where fs: "outbox_run a fs (wire (cn_stream s), (of_bytes f, of_offset f) # map (\<lambda>f. (of_bytes f, of_offset f)) rest)"
    by (auto simp: outbox_reached_def outbox_of_def queue_of_def)
  have w: "wire (cn_stream ?s') = wire (cn_stream s) @ take n (drop (of_offset f) (of_bytes f))"
    using wire_okD(1) [OF ok(1) wr] wire_okD(3) [OF ok(1)]
    by (auto simp: advance_front_def conn_now_def Let_def split: prod.splits) (metis snd_conv)+
  have "outbox_run a fs (outbox_of wire ?s')"
  proof (cases "of_offset f + n = length (of_bytes f)")
    case True
    then have "outbox_of wire ?s' = (wire (cn_stream s) @ drop (of_offset f) (of_bytes f), map (\<lambda>f. (of_bytes f, of_offset f)) rest)"
      unfolding outbox_of_def w by (auto simp: queue_of_def advance_front_def conn_now_def Let_def split: prod.splits)
    then show ?thesis using outbox_run.complete [OF fs] by simp
  next
    case False
    then have "outbox_of wire ?s' = (wire (cn_stream s) @ take n (drop (of_offset f) (of_bytes f)),
        (of_bytes f, of_offset f + n) # map (\<lambda>f. (of_bytes f, of_offset f)) rest)"
      unfolding outbox_of_def w by (auto simp: queue_of_def advance_front_def conn_now_def Let_def split: prod.splits)
    moreover have "of_offset f + n < length (of_bytes f)" using n False by simp
    ultimately show ?thesis using outbox_run.transmit [OF fs n(1)] by simp
  qed
  then show ?thesis
    using I driver_inv_written [OF ok(2) out n, of rt w] by (auto simp: outbox_reached_def)
qed

lemma outbox_withdrawn:
  assumes "outbox_reached rt wire a s"
  shows "outbox_reached rt wire a (drop_unsent corr s)"
proof -
  let ?P = "\<lambda>f. \<not> unsent_of corr f" and ?g = "\<lambda>f. (of_bytes f, of_offset f)"
  have q: "queue_of (drop_unsent corr s) = map ?g (filter ?P (cn_outbound s))"
    by (simp add: queue_of_def drop_unsent_def)
  have "subseq (map ?g (filter ?P (cn_outbound s))) (queue_of s)"
    unfolding queue_of_def by (rule subseq_map) (rule subseq_filter_left)
  moreover have "filter (\<lambda>f. 0 < snd f) (map ?g (filter ?P (cn_outbound s))) = filter (\<lambda>f. 0 < snd f) (queue_of s)"
    by (auto simp: queue_of_def filter_map comp_def unsent_of_def intro!: arg_cong [of _ _ "map ?g"] filter_cong)
  ultimately show ?thesis
    using assms by (auto simp: outbox_reached_def outbox_of_def q driver_inv_steps intro: outbox_run.withdraw)
qed

interpretation outbox: driver_invariant rt "outbox_reached rt wire a" "outbox_left rt wire a" "quiet_on rt wire"
  for rt wire a
proof (unfold_locales, goal_cases)
  case (7 s f rest n w)
  then show ?case by (rule outbox_written)
next
  case (8 s f rest wr w)
  have "wire w = wire (cn_stream s)"
  proof (cases wr)
    case (Inr n)
    then show ?thesis using 8 wire_okD(1) [of rt wire _ _ n w] by (fastforce simp: outbox_reached_def)
  qed (use 8 wire_okD(2) in \<open>auto simp: outbox_reached_def\<close>)
  then show ?case
    using 8(1) by (intro outbox_same [OF 8(1)]) (auto simp: outbox_reached_def driver_inv_steps outbox_of_def queue_of_def)
next
  case (25 s bs corr' action s')
  then show ?case by (rule outbox_enqueue)
next
  case (27 s corr)
  then show ?case by (rule outbox_withdrawn)
next
  case (41 s n w bs w')
  then show ?case
    by (intro outbox_same [OF 41(1)]) (simp_all add: outbox_reached_def driver_inv_read [of rt s n w bs w'] outbox_of_def queue_of_def)
next
  case (34 s)
  then show ?case by (auto simp: outbox_reached_def outbox_left_def outbox_of_def)
next
  case (35 s)
  then show ?case by (auto simp: outbox_left_def queue_of_def fail_pending_def sends_def Let_def)
next
  case (36 s w)
  then show ?case by (auto simp: outbox_left_def queue_of_def quiet_on_def)
qed (erule quiet_onI | simp add: outbox_reached_def driver_inv_steps driver_inv_tombstone outbox_of_def queue_of_def quiet_on_def
    outbox_left_def)+

section \<open>Frames leave in the order they were queued\<close>





end
