(* ===== verification/Async_Answers.thy ===== *)
theory Async_Answers
  imports Async_Requests
begin

text \<open>
  No caller is answered twice.  The senders the driver holds, those it has answered and those of
  the commands still in the channel are counted together: no phase of the driver adds one.
\<close>

section \<open>Letting go of senders\<close>

lemma senders_map_entry:
  "(\<And>p. kind_senders (pk_kind (f p)) = []) \<Longrightarrow>
     mset (concat (map (kind_senders \<circ> pk_kind \<circ> snd) (AList.map_entry i f xs)))
       \<subseteq># mset (concat (map (kind_senders \<circ> pk_kind \<circ> snd) xs))"
  by (induction xs) (auto intro: subset_mset.add_mono)

lemma senders_map:
  "(\<And>p. mset (kind_senders (pk_kind (f p))) \<subseteq># mset (kind_senders (pk_kind p))) \<Longrightarrow>
     mset (concat (map (kind_senders \<circ> pk_kind \<circ> snd) (map (\<lambda>(i, p). (i, f p)) xs)))
       \<subseteq># mset (concat (map (kind_senders \<circ> pk_kind \<circ> snd) xs))"
  by (induction xs) (auto intro: subset_mset.add_mono)

lemma senders_filter: "mset (concat (map g (filter P xs))) \<subseteq># mset (concat (map g xs))"
  by (induction xs) (auto intro: subset_mset.add_mono subset_mset.order_trans [OF _ mset_subset_eq_add_right])

lemma accounted_acks:
  "mset (concat (map (kind_senders \<circ> pk_kind \<circ> snd) acks))
     \<subseteq># mset (concat (map (kind_senders \<circ> pk_kind \<circ> snd) (cn_pending_acks s))) \<Longrightarrow>
   accounted (s\<lparr>cn_pending_acks := acks\<rparr>) \<subseteq># accounted s"
  by (simp add: accounted_def held_def answered_def)

lemma accounted_forget:
  "accounted (remove_pending_ack i s) \<subseteq># accounted s" "accounted (tombstone_publish i s) \<subseteq># accounted s"
  "accounted (entomb_cancelled cl s) \<subseteq># accounted s"
  "accounted (s\<lparr>cn_pending_acks := AList.map_entry i (\<lambda>p. p\<lparr>pk_kind := entomb (pk_kind p)\<rparr>) (cn_pending_acks s)\<rparr>) \<subseteq># accounted s"
proof -
  show "accounted (remove_pending_ack i s) \<subseteq># accounted s"
    unfolding remove_pending_ack_def AList.delete_eq by (intro accounted_acks senders_filter)
  show "accounted (tombstone_publish i s) \<subseteq># accounted s"
    unfolding tombstone_publish_def by (intro accounted_acks senders_map_entry) simp
  show "accounted (entomb_cancelled cl s) \<subseteq># accounted s"
    unfolding entomb_cancelled_def by (intro accounted_acks senders_map) (simp add: entomb_def)
  show "accounted (s\<lparr>cn_pending_acks := AList.map_entry i (\<lambda>p. p\<lparr>pk_kind := entomb (pk_kind p)\<rparr>) (cn_pending_acks s)\<rparr>) \<subseteq># accounted s"
    by (intro accounted_acks senders_map_entry) (simp add: entomb_def)
qed

section \<open>Requests\<close>

lemma accounted_request_gone:
  assumes "driver_inv s" "remove_request corr s = (r, s')"
  shows "case r of Some p \<Rightarrow> accounted s' + {#pr_result p#} \<subseteq># accounted s | None \<Rightarrow> s' = s"
proof (cases "map_of (cn_pending_requests s) corr")
  case (Some p)
  let ?s = "finish_request_lifecycle corr (take_request corr s)"
  have "accounted (drop_unsent corr ?s) = accounted ?s"
    by (rule accounted_drop_unsent) (simp add: driver_inv_steps assms(1))
  then have d: "accounted (drop_unsent corr ?s) + {#pr_result p#} = accounted s"
    using accounted_take_request [OF assms(1) Some] by (simp add: finish_request_lifecycle_def)
  have r: "r = Some p" using assms(2) Some by (auto simp: remove_request_def Let_def)
  have "accounted s' \<subseteq># accounted (drop_unsent corr ?s)"
    using assms(2) Some accounted_forget(1,2) by (auto simp: remove_request_def Let_def split: option.splits if_splits)
  then show ?thesis using d r by (metis option.simps(5) subset_mset.add_right_mono)
qed (use assms(2) in \<open>simp add: remove_request_def\<close>)

lemma accounted_fail_request_le: "driver_inv s \<Longrightarrow> accounted (fail_request corr e s) \<subseteq># accounted s"
  using accounted_request_gone [of s corr] by (auto simp: fail_request_def split: prod.splits option.splits)

lemma accounted_remove_request_le: "driver_inv s \<Longrightarrow> accounted (snd (remove_request corr s)) \<subseteq># accounted s"
  using accounted_request_gone [of s corr "fst (remove_request corr s)" "snd (remove_request corr s)"]
  by (auto split: option.splits dest!: mset_subset_eq_insertD intro: subset_mset.less_imp_le)

section \<open>Methods that add no sender\<close>

definition owes :: "'w Runtime \<Rightarrow> sender multiset \<Rightarrow> 'w MqttConnection \<Rightarrow> bool" where
  "owes rt M s \<longleftrightarrow> transport_ok (rt_transport rt) \<and> driver_inv s \<and> accounted s \<subseteq># M"

text \<open>The method keeps the well-formedness of the state, and adds no sender there.\<close>

lemma owesI:
  assumes "owes rt M s" "transport_ok (rt_transport rt) \<and> driver_inv s \<Longrightarrow> transport_ok (rt_transport rt) \<and> driver_inv s'"
    "driver_inv s \<Longrightarrow> accounted s' \<subseteq># accounted s"
  shows "owes rt M s'"
  using assms unfolding owes_def by (meson subset_mset.order_trans)

lemma owes_fail_request: "owes rt M s \<Longrightarrow> owes rt M (fail_request corr e s)"
  by (erule owesI [OF _ wf.fail_request_I accounted_fail_request_le])

lemma owes_remove_request: "owes rt M s \<Longrightarrow> owes rt M (snd (remove_request corr s))"
  by (erule owesI [OF _ wf.remove_request_I accounted_remove_request_le]) (auto simp: prod_eq_iff)

lemma owes_fail_requests: "owes rt M s \<Longrightarrow> owes rt M (fail_requests cs e s)"
  by (induction cs arbitrary: s) (simp_all add: owes_fail_request)

lemma owes_fail_requests_for_topic: "owes rt M s \<Longrightarrow> owes rt M (fail_requests_for_topic topic e s)"
  unfolding fail_requests_for_topic_def by (rule owes_fail_requests)

lemma owes_drain_cancellations: "owes rt M s \<Longrightarrow> owes rt M (drain_cancellations s)"
proof -
  have "owes rt M s \<Longrightarrow> owes rt M (remove_requests cs s)" for cs
    by (induction cs arbitrary: s) (simp_all add: owes_remove_request)
  then show "owes rt M s \<Longrightarrow> owes rt M (drain_cancellations s)" by (simp add: drain_cancellations_def)
qed

lemma owes_try_complete_request:
  assumes "owes rt M s" "try_complete_request p s = (b, s')"
  shows "owes rt M s'"
proof (rule owesI [OF assms(1)])
  show "transport_ok (rt_transport rt) \<and> driver_inv s \<Longrightarrow> transport_ok (rt_transport rt) \<and> driver_inv s'"
    using wf.try_complete_request_I assms(2) by blast
  show "accounted s' \<subseteq># accounted s" if "driver_inv s"
    using assms(2)
    by (auto simp: try_complete_request_def split: option.splits if_splits prod.splits dest!: accounted_request_gone [OF that])
qed

lemma owes_publish_requests: "maintains (owes rt M) (publish_requests rt cs)"
proof (induction cs)
  case (Cons c cs)
  show ?case
  proof (rule maintainsI)
    fix s r s'
    assume I: "owes rt M s" and run: "publish_requests rt (c # cs) s = Some (r, s')"
    then obtain x s1 where x: "publish_request rt c s = Some (x, s1)"
      and rest: "publish_requests rt cs (case x of Inl e \<Rightarrow> fail_request c e s1 | Inr _ \<Rightarrow> s1) = Some (r, s')"
      by (auto simp: bind_eq_Some_conv)
    have "owes rt M s1"
      by (rule owesI [OF I maintainsD [OF wf.publish_request_I _ x]])
        (auto simp: accounted_publish_request(1) [OF driver_inv_next_id x])
    then have "owes rt M (case x of Inl e \<Rightarrow> fail_request c e s1 | Inr _ \<Rightarrow> s1)"
      by (cases x) (auto intro: owes_fail_request)
    then show "owes rt M s'" using maintainsD [OF Cons.IH _ rest] by blast
  qed
qed (simp add: maintains_def)

lemma owes_same:
  "owes rt M s \<Longrightarrow> driver_inv s' \<Longrightarrow> accounted s' = accounted s \<Longrightarrow> owes rt M s'"
  by (simp add: owes_def)

lemma owes_world: "owes rt M s \<Longrightarrow> owes rt M (s\<lparr>cn_stream := w\<rparr>)"
  by (simp add: owes_def driver_inv_steps)

lemma owes_enqueue: "owes rt M s \<Longrightarrow> encoded bs \<Longrightarrow> enqueue bs Act_None None s = (y, s') \<Longrightarrow> owes rt M s'"
  using wf.enqueue_I [of rt s bs None Act_None y s'] accounted_enqueue_silent [of bs None s y s'] by (auto simp: owes_def)

section \<open>Dispatching\<close>

lemma owes_dispatch_publish: "maintains (owes rt M) (dispatch_publish rt packet)"
proof -
  have "maintains (owes rt M) (\<lambda>s. case try_complete_request packet s of
       (True, s) \<Rightarrow> Some (Ok (), s)
     | (False, s) \<Rightarrow>
         (case conn_io (rt_try_send_event rt (Evt_Publish packet)) s of
            (Sent, s) \<Rightarrow> Some (Ok (), s)
          | (Full, s) \<Rightarrow> Some (Err (QueueFull ''event''), s)
          | (Closed, s) \<Rightarrow> Some (Err ClientClosed, s)))"
    by (rule maintainsI)
      (auto simp: conn_io_def split: prod.splits bool.splits try_send.splits dest: owes_try_complete_request intro: owes_world)
  then show ?thesis
    unfolding dispatch_publish_def
    by (intro maintains_andM maintains_if maintains_returns maintains_checked maintains_pureM)
      (auto intro: owes_enqueue encoded_puback)
qed

lemma accounted_taken:
  assumes "driver_inv s" "map_of (cn_pending_acks s) i = Some a"
  shows "accounted (remove_pending_ack i s) + mset (kind_senders (pk_kind a)) = accounted s"
proof -
  have "distinct (map fst xs) \<Longrightarrow> map_of xs i = Some a \<Longrightarrow>
      mset (concat (map (kind_senders \<circ> pk_kind \<circ> snd) (AList.delete i xs))) + mset (kind_senders (pk_kind a))
        = mset (concat (map (kind_senders \<circ> pk_kind \<circ> snd) xs))" for xs
    by (induction xs) (auto simp: delete_id split: if_splits)
  from this [of "cn_pending_acks s"] assms show ?thesis
    by (simp add: driver_inv_def accounted_def held_def answered_def remove_pending_ack_def)
qed

text \<open>A taken acknowledgement leaves room for the answer to its caller.\<close>

lemma owes_taken:
  assumes "owes rt M s" "take_pending_ack i c s = (Ok (Some a), s')"
  obtains N where "owes rt N s'" "N + mset (kind_senders (pk_kind a)) \<subseteq># M"
proof (rule that)
  have inv: "driver_inv s" using assms(1) by (simp add: owes_def)
  from assms(2) have a: "map_of (cn_pending_acks s) i = Some a" "s' = remove_pending_ack i s"
    by (auto simp: take_pending_ack_def split: option.splits if_splits)
  show "owes rt (accounted s') s'"
    using assms(1) wf.take_pending_ack_I [OF _ assms(2), of rt] by (simp add: owes_def)
  show "accounted s' + mset (kind_senders (pk_kind a)) \<subseteq># M"
    using assms(1) accounted_taken [OF inv a(1)] a(2) by (simp add: owes_def)
qed

lemma owes_answer:
  "owes rt N s \<Longrightarrow> N + mset (map fst rs) \<subseteq># M \<Longrightarrow> owes rt M (sends rs s)"
  unfolding owes_def by (auto simp: wf.I_sends driver_inv_steps) (meson subset_mset.add_right_mono subset_mset.order_trans)

lemma owes_less: "owes rt N s \<Longrightarrow> N \<subseteq># M \<Longrightarrow> owes rt M s"
  unfolding owes_def by (meson subset_mset.order_trans)

lemma owes_unsubscribed:
  "owes rt M s \<Longrightarrow> owes rt M (s\<lparr>cn_response_subscriptions := AList.delete topic (cn_response_subscriptions s)\<rparr>)"
  by (simp add: owes_def driver_inv_steps)

lemma owes_kind:
  assumes "owes rt N s" "N + mset (kind_senders k) \<subseteq># M"
  shows "owes rt M (puback_kind ack k s)" "owes rt M (unsuback_kind ack' k s)" "owes rt M (sends (kind_fail k e) s)"
proof -
  have less: "owes rt M s"
    by (rule owes_less [OF assms(1) subset_mset.order_trans [OF mset_subset_eq_add_left assms(2)]])
  show fail: "owes rt M (sends (kind_fail k e) s)" for e
    by (rule owes_answer [OF assms(1)]) (simp add: assms(2))
  have answer: "owes rt M (sends [(result, x)] t)" if "kind_senders k = [result]" "owes rt N t" for result x t
    by (rule owes_answer [OF that(2)]) (use assms(2) that(1) in simp)
  show "owes rt M (puback_kind ack k s)"
    using fail answer [OF _ assms(1)] owes_fail_request [OF less] less by (cases k) (simp_all add: puback_kind_def)
  show "owes rt M (unsuback_kind ack' k s)"
    using fail answer [OF _ assms(1)] answer [OF _ owes_unsubscribed [OF assms(1)]] by (cases k) (simp_all add: unsuback_kind_def Let_def)
qed

lemma owes_complete_subscribe:
  assumes "owes rt N s" "N + {#result#} \<subseteq># M" "complete_subscribe ack q result s = Some (r, s')"
  shows "owes rt M s'"
  using assms(3) owes_answer [OF assms(1), of "[(result, x)]" M for x] assms(2)
  by (auto simp: complete_subscribe_def split: sum.splits error.splits)

lemma owes_suback_response_topic: "maintains (owes rt M) (suback_response_topic rt ack topic)"
proof (rule maintainsI)
  fix s r s'
  assume I: "owes rt M s" and run: "suback_response_topic rt ack topic s = Some (r, s')"
  have ready: "owes rt M (s\<lparr>cn_response_subscriptions := AList.update topic Ready (cn_response_subscriptions s)\<rparr>)"
    using I by (simp add: owes_def driver_inv_steps)
  show "owes rt M s'"
    using run maintainsD [OF owes_publish_requests ready] owes_fail_requests_for_topic [OF owes_unsubscribed [OF I]]
    by (auto simp: suback_response_topic_def publish_waiting_requests_def Let_def split: sum.splits error.splits)
qed

lemma owes_take:
  assumes "\<And>N a s r s'. owes rt N s \<Longrightarrow> N + mset (kind_senders (pk_kind a)) \<subseteq># M \<Longrightarrow> k a s = Some (r, s') \<Longrightarrow> owes rt M s'"
  shows "maintains (owes rt M) (andM (pureM (take_pending_ack i c)) (\<lambda>taken. case taken of None \<Rightarrow> returns (Ok ()) | Some a \<Rightarrow> k a))"
proof (rule maintainsI)
  fix s r s'
  assume I: "owes rt M s"
    and run: "andM (pureM (take_pending_ack i c)) (\<lambda>taken. case taken of None \<Rightarrow> returns (Ok ()) | Some a \<Rightarrow> k a) s = Some (r, s')"
  obtain x s1 where x: "take_pending_ack i c s = (x, s1)" by force
  show "owes rt M s'"
  proof (cases "\<exists>a. x = Ok (Some a)")
    case True
    then obtain a where a: "x = Ok (Some a)" by blast
    from x a I obtain N where "owes rt N s1" "N + mset (kind_senders (pk_kind a)) \<subseteq># M" using owes_taken by blast
    then show ?thesis using assms run x a by (auto simp: andM_Some pureM_def)
  next
    case False
    then have "s1 = s" using x by (auto simp: take_pending_ack_def split: option.splits if_splits)
    then show ?thesis using run x False I by (auto simp: andM_Some pureM_def returns_def split: option.splits)
  qed
qed

lemma owes_dispatch_packet: "yields (owes rt M) (\<lambda>s. accounted s \<subseteq># M) (dispatch_packet rt packet)"
proof -
  have J: "owes rt M s \<Longrightarrow> accounted s \<subseteq># M" for s by (simp add: owes_def)
  have "maintains (owes rt M) (dispatch_puback ack)" "maintains (owes rt M) (dispatch_unsuback ack')" for ack ack'
    unfolding dispatch_puback_def dispatch_unsuback_def by (rule owes_take; auto simp: updM_def intro: owes_kind)+
  moreover have "maintains (owes rt M) (dispatch_suback rt ack)" for ack
    unfolding dispatch_suback_def
  proof (rule owes_take)
    fix N a s r s'
    assume I: "owes rt N s" "N + mset (kind_senders (pk_kind a)) \<subseteq># M"
      and run: "(case pk_kind a of
            Ack_Subscribe requested_qos result \<Rightarrow> complete_subscribe ack requested_qos result
          | Ack_ResponseSubscribe topic \<Rightarrow> suback_response_topic rt ack topic
          | other \<Rightarrow> updM (sends (kind_fail other (UnexpectedPacket ''SUBACK packet id type mismatch'')))) s = Some (r, s')"
    show "owes rt M s'"
    proof (cases "pk_kind a")
      case (Ack_Subscribe q result)
      then show ?thesis using run I owes_complete_subscribe [of rt N s result M ack q r s'] by simp
    next
      case (Ack_ResponseSubscribe topic)
      then show ?thesis
        using run I owes_less [OF I(1)] maintainsD [OF owes_suback_response_topic, of rt M s ack topic r s'] by simp
    qed (use run owes_kind(3) [OF I] in \<open>auto simp: updM_def\<close>)
  qed
  moreover have "maintains (owes rt M) (updM (\<lambda>s. s\<lparr>cn_ping_outstanding_since := None\<rparr>))"
    by (rule maintains_updM) (simp add: owes_def driver_inv_steps accounted_def held_def answered_def)
  moreover have "yields (owes rt M) (\<lambda>s. accounted s \<subseteq># M) (andM (updM (\<lambda>s. (emit rt ev (fail_pending s))\<lparr>cn_terminal_event_sent := True\<rparr>))
      (\<lambda>_. returns (Err e)))" for ev and e
    by (rule yieldsI) (auto simp: andM_def updM_def returns_def is_ok_def fail_pending_answers(2) owes_def)
  ultimately show ?thesis
    unfolding dispatch_packet_def
    by (cases packet) (auto intro: maintains_yields [OF _ J] maintains_returns owes_dispatch_publish)
qed

lemma owes_decode_and_dispatch: "yields (owes rt M) (\<lambda>s. accounted s \<subseteq># M) (decode_and_dispatch rt)"
proof -
  have "rt' = rt \<longrightarrow> owes rt M s \<longrightarrow> accounted (snd y) \<subseteq># M \<and> (is_ok (fst y) \<longrightarrow> owes rt M (snd y))"
    if "decode_and_dispatch rt' s = Some y" for rt' s y
    using that
  proof (rule decode_and_dispatch.raw_induct [rotated], goal_cases)
    case (1 loop rt' s y)
    show ?case
    proof (intro impI)
      assume rt: "rt' = rt" and I: "owes rt M s"
      have "yields (owes rt M) (\<lambda>s. accounted s \<subseteq># M) (loop rt)" using 1(1) rt by (fastforce simp: yields_def)
      then have step: "yields (owes rt M) (\<lambda>s. accounted s \<subseteq># M) (andM (dispatch_packet rt p) (\<lambda>_. loop rt))" for p
        by (intro yields_andM owes_dispatch_packet)
      obtain x fr where x: "try_decode (cn_frame_reader s) = (x, fr)" by force
      have "driver_inv (s\<lparr>cn_frame_reader := fr\<rparr>)" using I x wf.I_decode [of rt s] by (simp add: owes_def)
      then have fr: "owes rt M (s\<lparr>cn_frame_reader := fr\<rparr>)"
        using I by (simp add: owes_def accounted_def held_def answered_def)
      then have "accounted (s\<lparr>cn_frame_reader := fr\<rparr>) \<subseteq># M" by (simp add: owes_def)
      with fr show "accounted (snd y) \<subseteq># M \<and> (is_ok (fst y) \<longrightarrow> owes rt M (snd y))"
        using 1(2) rt x yieldsD [OF step, of _ _ "fst y" "snd y"]
        by (auto simp: is_ok_def split: sum.splits option.splits)
    qed
  qed
  from this [of rt] show ?thesis by (fastforce simp: yields_def)
qed

section \<open>Timers, reading and writing\<close>

lemma accounted_expired:
  assumes "driver_inv s" "map_of (cn_pending_acks s) i = Some a"
  shows "accounted (s\<lparr>cn_pending_acks := AList.map_entry i (\<lambda>p. p\<lparr>pk_kind := entomb (pk_kind p)\<rparr>) (cn_pending_acks s)\<rparr>)
    + mset (kind_senders (pk_kind a)) = accounted s"
proof -
  have "distinct (map fst xs) \<Longrightarrow> map_of xs i = Some a \<Longrightarrow>
      mset (concat (map (kind_senders \<circ> pk_kind \<circ> snd) (AList.map_entry i (\<lambda>p. p\<lparr>pk_kind := entomb (pk_kind p)\<rparr>) xs)))
        + mset (kind_senders (pk_kind a)) = mset (concat (map (kind_senders \<circ> pk_kind \<circ> snd) xs))" for xs
    by (induction xs) (auto simp: entomb_def split: if_splits)
  from this [of "cn_pending_acks s"] assms show ?thesis
    by (simp add: driver_inv_def accounted_def held_def answered_def)
qed

lemma owes_expire_ack: "owes rt M s \<Longrightarrow> owes rt M (expire_ack i s)"
proof (cases "map_of (cn_pending_acks s) i")
  case (Some a)
  assume I: "owes rt M s"
  let ?s = "s\<lparr>cn_pending_acks := AList.map_entry i (\<lambda>p. p\<lparr>pk_kind := entomb (pk_kind p)\<rparr>) (cn_pending_acks s)\<rparr>"
  have inv: "driver_inv s" "transport_ok (rt_transport rt)" "accounted s \<subseteq># M" using I by (simp_all add: owes_def)
  have "driver_inv ?s" using wf.I_entomb [of rt s i] inv by simp
  then have N: "owes rt (accounted ?s) ?s" "accounted ?s + mset (kind_senders (pk_kind a)) \<subseteq># M"
    using inv accounted_expired [OF inv(1) Some] by (simp_all add: owes_def)
  have less: "owes rt M ?s" by (rule owes_less [OF N(1) subset_mset.order_trans [OF mset_subset_eq_add_left N(2)]])
  show ?thesis
    using Some owes_kind(3) [OF N] less owes_unsubscribed [OF less]
    by (cases "pk_kind a") (simp_all add: expire_ack_def owes_fail_request owes_fail_requests_for_topic)
qed (simp add: expire_ack_def)

lemma owes_expire_operations: "owes rt M s \<Longrightarrow> owes rt M (expire_operations rt s)"
proof -
  have acks: "owes rt M s \<Longrightarrow> owes rt M (expire_acks ids s)" for ids s
    by (induction ids arbitrary: s) (simp_all add: owes_expire_ack)
  have requests: "owes rt M s \<Longrightarrow> owes rt M (expire_requests cl cs s)" for cl cs s
    by (induction cs arbitrary: s) (simp_all add: expire_request_def owes_fail_request owes_remove_request)
  have entomb: "owes rt M (entomb_cancelled cl s)" if "owes rt M s" for cl s
    by (rule owesI [OF that wf.I_entomb_cancelled]) (auto intro: accounted_forget(3))
  show "owes rt M s \<Longrightarrow> owes rt M (expire_operations rt s)"
    by (auto simp: expire_operations_def Let_def conn_now_def split: prod.split intro!: requests acks entomb owes_world)
qed

lemma owes_maintain_keep_alive:
  assumes "owes rt M s" "maintain_keep_alive rt s = (r, s')"
  shows "owes rt M s'"
proof (rule owesI [OF assms(1)])
  show "transport_ok (rt_transport rt) \<and> driver_inv s \<Longrightarrow> transport_ok (rt_transport rt) \<and> driver_inv s'"
    using wf.maintain_keep_alive_I assms(2) by blast
  show "accounted s' \<subseteq># accounted s"
    using assms(2)
    by (auto simp: maintain_keep_alive_def conn_now_def enqueue_def enqueue_with_action_def accounted_def held_def answered_def Let_def
        split: option.splits prod.splits sum.splits if_splits)
qed

lemma owes_read_available:
  assumes "owes rt M s" "read_available rt s = (r, s')"
  shows "owes rt M s'"
proof (rule owesI [OF assms(1)])
  show "transport_ok (rt_transport rt) \<and> driver_inv s \<Longrightarrow> transport_ok (rt_transport rt) \<and> driver_inv s'"
    using wf.read_available_I assms(2) by blast
  have "read_loop rt n s = (r, s') \<Longrightarrow> accounted s' = accounted s" for n s
  proof (induction n arbitrary: s)
    case (Suc n)
    have fr: "accounted (s\<lparr>cn_frame_reader := fr\<rparr>) = accounted s" for s :: "'a MqttConnection" and fr
      by (simp add: accounted_def held_def answered_def)
    from Suc show ?case
      by (auto simp: conn_io_def fr Let_def split: if_splits prod.splits sum.splits)
  qed simp
  then show "accounted s' \<subseteq># accounted s" using assms(2) by (simp add: read_available_def)
qed

lemma owes_flush_outbound: "maintains (owes rt M) (flush_outbound rt)"
proof (rule maintainsI)
  fix s r s'
  assume I: "owes rt M s" and run: "flush_outbound rt s = Some (r, s')"
  show "owes rt M s'"
    by (rule owesI [OF I maintainsD [OF wf.flush_outbound_I _ run]]) (auto simp: accounted_flush_outbound [OF run])
qed

section \<open>The command channel\<close>

text \<open>
  \<open>inbox\<close> reads off the world the senders of the commands that are still to be received.  Receiving
  a command takes its sender out; nothing else puts one in.
\<close>

definition inbox_ok :: "'w Runtime \<Rightarrow> ('w \<Rightarrow> sender multiset) \<Rightarrow> bool" where
  "inbox_ok rt inbox \<longleftrightarrow>
     (\<forall>w c w'. rt_try_recv rt w = (Received c, w') \<longrightarrow> inbox w' + {#command_sender c#} \<subseteq># inbox w)
     \<and> (\<forall>d w c w'. rt_recv_timeout rt d w = (Received c, w') \<longrightarrow> inbox w' + {#command_sender c#} \<subseteq># inbox w)
     \<and> (\<forall>w. inbox (snd (rt_try_recv rt w)) \<subseteq># inbox w)
     \<and> (\<forall>d w. inbox (snd (rt_recv_timeout rt d w)) \<subseteq># inbox w)
     \<and> (\<forall>buf w. inbox (snd (tr_write (rt_transport rt) buf w)) \<subseteq># inbox w)
     \<and> (\<forall>w. inbox (snd (tr_now (rt_transport rt) w)) \<subseteq># inbox w)
     \<and> (\<forall>w. inbox (snd (tr_flush (rt_transport rt) w)) \<subseteq># inbox w)
     \<and> (\<forall>n w. inbox (snd (tr_read (rt_transport rt) n w)) \<subseteq># inbox w)
     \<and> (\<forall>w. inbox (snd (tr_shutdown (rt_transport rt) w)) \<subseteq># inbox w)
     \<and> (\<forall>ev w. inbox (snd (rt_try_send_event rt ev w)) \<subseteq># inbox w)"

definition inbox_within :: "'w Runtime \<Rightarrow> ('w \<Rightarrow> sender multiset) \<Rightarrow> sender multiset \<Rightarrow> 'w MqttConnection \<Rightarrow> bool" where
  "inbox_within rt inbox B s \<longleftrightarrow> inbox_ok rt inbox \<and> inbox (cn_stream s) \<subseteq># B"

definition no_command :: "'w Runtime \<Rightarrow> ('w \<Rightarrow> sender multiset) \<Rightarrow> 'w \<Rightarrow> 'w \<Rightarrow> bool" where
  "no_command rt inbox w w' \<longleftrightarrow> (inbox_ok rt inbox \<longrightarrow> inbox w' \<subseteq># inbox w)"

lemma no_commandI:
  "tr_now (rt_transport rt) w = (t, w') \<Longrightarrow> no_command rt inbox w w'"
  "tr_flush (rt_transport rt) w = (r, w') \<Longrightarrow> no_command rt inbox w w'"
  "tr_read (rt_transport rt) n w = (b, w') \<Longrightarrow> no_command rt inbox w w'"
  "tr_write (rt_transport rt) buf w = (wr, w') \<Longrightarrow> no_command rt inbox w w'"
  "tr_shutdown (rt_transport rt) w = (r, w') \<Longrightarrow> no_command rt inbox w w'"
  "rt_try_send_event rt ev w = (sr, w') \<Longrightarrow> no_command rt inbox w w'"
  "rt_try_recv rt w = (rc, w') \<Longrightarrow> no_command rt inbox w w'"
  "rt_recv_timeout rt d w = (rc, w') \<Longrightarrow> no_command rt inbox w w'"
  by (auto simp: no_command_def inbox_ok_def) (metis snd_conv)+

lemma inbox_world: "inbox_within rt inbox B s \<Longrightarrow> no_command rt inbox (cn_stream s) w \<Longrightarrow> inbox_within rt inbox B (s\<lparr>cn_stream := w\<rparr>)"
  unfolding inbox_within_def no_command_def by (auto intro: subset_mset.order_trans)

interpretation inbox: driver_invariant rt "\<lambda>s. inbox_within rt inbox B s \<and> cn_next_packet_id s \<noteq> 0" "inbox_within rt inbox B"
  "no_command rt inbox" for rt inbox B
proof (unfold_locales, goal_cases)
  case (7 s f rest n w)
  let ?s = "s\<lparr>cn_stream := w\<rparr>" and ?w = "snd (tr_now (rt_transport rt) w)"
  have now: "no_command rt inbox w ?w" by (rule no_commandI(1) [OF surjective_pairing])
  have "inbox_within rt inbox B ?s" using 7 by (blast intro: inbox_world no_commandI(4))
  from inbox_world [OF this, of ?w] now have "inbox_within rt inbox B (?s\<lparr>cn_stream := ?w\<rparr>)" by simp
  then show ?case
    using 7(1) by (auto simp: inbox_within_def advance_front_def conn_now_def Let_def split: prod.splits)
next
  case (8 s f rest wr w)
  then show ?case by (auto intro: inbox_world no_commandI(4))
next
  case (6 s w)
  then show ?case by (simp add: inbox_world)
next
  case (36 s w)
  then show ?case by (simp add: inbox_world)
qed (erule no_commandI | auto simp: inbox_within_def driver_defs enqueue_with_action_Ok)+

section \<open>Nobody is answered twice\<close>

text \<open>All senders the driver has answered, holds, or has yet to receive.\<close>

definition served :: "'w Runtime \<Rightarrow> ('w \<Rightarrow> sender multiset) \<Rightarrow> sender multiset \<Rightarrow> 'w MqttConnection \<Rightarrow> bool" where
  "served rt inbox M s \<longleftrightarrow> inbox_ok rt inbox \<and> accounted s + inbox (cn_stream s) \<subseteq># M"

definition serving :: "'w Runtime \<Rightarrow> ('w \<Rightarrow> sender multiset) \<Rightarrow> sender multiset \<Rightarrow> 'w MqttConnection \<Rightarrow> bool" where
  "serving rt inbox M s \<longleftrightarrow> transport_ok (rt_transport rt) \<and> driver_inv s \<and> served rt inbox M s"

lemma serving_quietly:
  assumes "\<And>N. yields (owes rt N) (\<lambda>s. accounted s \<subseteq># N) m"
    and "\<And>B. yields (\<lambda>s. inbox_within rt inbox B s \<and> cn_next_packet_id s \<noteq> 0) (inbox_within rt inbox B) m"
  shows "yields (serving rt inbox M) (served rt inbox M) m"
proof (rule yieldsI)
  fix s r s'
  assume I: "serving rt inbox M s" and run: "m s = Some (r, s')"
  have "owes rt (accounted s) s" using I by (simp add: serving_def owes_def)
  note owes = yieldsD [OF assms(1) this run]
  have "inbox_within rt inbox (inbox (cn_stream s)) s \<and> cn_next_packet_id s \<noteq> 0"
    using I by (simp add: serving_def served_def inbox_within_def driver_inv_next_id)
  note inbox = yieldsD [OF assms(2) this run]
  have "accounted s' + inbox (cn_stream s') \<subseteq># M"
    using owes inbox I by (auto simp: inbox_within_def serving_def served_def intro: subset_mset.order_trans subset_mset.add_mono)
  then show "served rt inbox M s' \<and> (is_ok r \<longrightarrow> serving rt inbox M s')"
    using owes inbox I by (auto simp: inbox_within_def serving_def served_def owes_def)
qed

lemma accounted_process_command_le:
  assumes "driver_inv s" "transport_ok (rt_transport rt)" "process_command rt command s = Some (r, s')"
  shows "accounted s' \<subseteq># accounted s + {#command_sender command#}"
proof (cases "\<exists>q result. command = Cmd_Request q result \<and> rq_correlation_data q \<in> set (rl_cancelled (cn_request_lifecycle s))")
  case True
  then obtain q result where "command = Cmd_Request q result" "rq_correlation_data q \<in> set (rl_cancelled (cn_request_lifecycle s))"
    by blast
  then show ?thesis
    using assms(3) by (auto simp: process_command_def begin_request_def consume_cancellation_def Let_def split: if_splits)
next
  case False
  then have "accounted s' = accounted s + {#command_sender command#}" by (intro accounted_process_command [OF assms]) auto
  then show ?thesis by simp
qed

lemma owes_abandon: "maintains (owes rt M) abandon"
proof (rule maintainsI)
  fix s r s'
  assume I: "owes rt M s" and run: "abandon s = Some (r, s')"
  have c: "accounted (t\<lparr>cn_command_channel_closed := b\<rparr>) = accounted t" for t :: "'a MqttConnection" and b
    by (simp add: accounted_def held_def answered_def)
  have "accounted s' \<subseteq># accounted s"
    using run
    by (auto simp: abandon_def begin_abandoned_disconnect_def andM_def updM_def returns_def pureM_def disconnect_encodes enqueue_def c
        split: if_splits prod.splits sum.splits dest!: accounted_enqueue)
  then show "owes rt M s'" using maintainsD [OF wf.abandon_I _ run] I by (intro owesI [OF I]) blast+
qed

lemma serving_process_command:
  assumes "transport_ok (rt_transport rt)" "driver_inv s" "inbox_ok rt inbox"
    and "accounted s + inbox (cn_stream s) + {#command_sender c#} \<subseteq># M" "process_command rt c s = Some (r, s')"
  shows "serving rt inbox M s'"
proof -
  have inv: "driver_inv s'" using maintainsD [OF wf.process_command_I _ assms(5)] assms(1,2) by simp
  have "inbox_within rt inbox (inbox (cn_stream s)) s'"
    using maintainsD [OF inbox.process_command_I _ assms(5), of inbox "inbox (cn_stream s)"] assms(2,3)
    by (simp add: inbox_within_def driver_inv_next_id)
  then have "accounted s' + inbox (cn_stream s') \<subseteq># accounted s + {#command_sender c#} + inbox (cn_stream s)"
    by (intro subset_mset.add_mono accounted_process_command_le [OF assms(2,1,5)]) (simp add: inbox_within_def)
  then have "accounted s' + inbox (cn_stream s') \<subseteq># M"
    using assms(4) by (metis subset_mset.order_trans union_assoc union_commute)
  then show ?thesis using inv assms(1,3) by (simp add: serving_def served_def)
qed

lemma served_serving: "serving rt inbox M s \<Longrightarrow> served rt inbox M s"
  by (simp add: serving_def)

lemma serving_abandon: "yields (serving rt inbox M) (served rt inbox M) abandon"
proof (rule serving_quietly)
  show "yields (owes rt N) (\<lambda>s. accounted s \<subseteq># N) abandon" for N
    by (rule maintains_yields [OF owes_abandon]) (simp add: owes_def)
  show "yields (\<lambda>s. inbox_within rt inbox B s \<and> cn_next_packet_id s \<noteq> 0) (inbox_within rt inbox B) abandon" for B
    by (rule maintains_yields [OF inbox.abandon_I]) simp
qed

lemma serving_receive:
  assumes "serving rt inbox M s" "f = rt_try_recv rt \<or> (\<exists>d. f = rt_recv_timeout rt d)"
    and "conn_io f s = (x, s1)"
  shows "serving rt inbox M s1" "x = Received c \<Longrightarrow> process_command rt c s1 = Some (r, s') \<Longrightarrow> serving rt inbox M s'"
proof -
  obtain w where f: "f (cn_stream s) = (x, w)" "s1 = s\<lparr>cn_stream := w\<rparr>"
    using assms(3) by (auto simp: conn_io_def split: prod.splits)
  have ok: "transport_ok (rt_transport rt)" "driver_inv s1" "inbox_ok rt inbox" "accounted s + inbox (cn_stream s) \<subseteq># M"
    using assms(1) f(2) by (auto simp: serving_def served_def driver_inv_steps)
  have room: "X \<subseteq># inbox (cn_stream s) \<Longrightarrow> accounted s + X \<subseteq># M" for X
    by (rule subset_mset.order_trans [OF subset_mset.add_left_mono ok(4)])
  have "inbox w \<subseteq># inbox (cn_stream s)"
    using assms(2) f(1) ok(3) no_commandI(7) [of rt "cn_stream s"] no_commandI(8) [of rt _ "cn_stream s"]
    by (auto simp: no_command_def)
  then have "accounted s1 + inbox w \<subseteq># M" using room f(2) by simp
  then show "serving rt inbox M s1" using ok f(2) by (simp add: serving_def served_def)
  assume c: "x = Received c" and run: "process_command rt c s1 = Some (r, s')"
  then have "inbox w + {#command_sender c#} \<subseteq># inbox (cn_stream s)"
    using assms(2) f(1) ok(3) by (auto simp: inbox_ok_def)
  from room [OF this] have "accounted s1 + inbox (cn_stream s1) + {#command_sender c#} \<subseteq># M" using f(2) by simp
  from serving_process_command [OF ok(1-3) this run] show "serving rt inbox M s'" .
qed

lemma serving_drain_commands: "yields (serving rt inbox M) (served rt inbox M) (drain_commands rt)"
proof -
  have "serving rt inbox M s \<Longrightarrow> drain_loop rt n s = Some (r, s') \<Longrightarrow> served rt inbox M s' \<and> (is_ok r \<longrightarrow> serving rt inbox M s')" for n s r s'
  proof (induction n arbitrary: s)
    case (Suc n)
    obtain x s1 where x: "conn_io (rt_try_recv rt) s = (x, s1)" by force
    note step = serving_receive [OF Suc.prems(1) disjI1 [OF refl] x]
    show ?case
    proof (cases x)
      case (Received c)
      then show ?thesis
        using Suc.prems(2) x step(2) [of c] Suc.IH by (auto simp: andM_Some is_ok_def intro: served_serving)
    next
      case AllDropped
      then show ?thesis using Suc.prems(2) x yieldsD [OF serving_abandon step(1)] by simp
    qed (use Suc.prems(2) x step(1) in \<open>auto intro: served_serving\<close>)
  qed (auto intro: served_serving)
  then show ?thesis unfolding yields_def drain_commands_def by blast
qed

lemma serving_wait_command: "yields (serving rt inbox M) (served rt inbox M) (wait_command rt)"
proof (rule yieldsI)
  fix s r s'
  assume I: "serving rt inbox M s" and run: "wait_command rt s = Some (r, s')"
  then obtain d s1 where d: "next_wait_duration rt s = Some (d, s1)"
    by (auto simp: wait_command_def bind_eq_Some_conv)
  obtain w where w: "s1 = s\<lparr>cn_stream := w\<rparr>" "no_command rt inbox (cn_stream s) w"
    using d no_commandI(1) [of rt "cn_stream s"]
    by (auto simp: next_wait_duration_def conn_now_def Let_def split: prod.splits option.splits if_splits)
  then have I1: "serving rt inbox M s1"
    using I subset_mset.order_trans [OF subset_mset.add_left_mono] by (auto simp: serving_def served_def no_command_def driver_inv_steps)
  obtain x s2 where x: "conn_io (rt_recv_timeout rt d) s1 = (x, s2)" by force
  have "rt_recv_timeout rt d = rt_try_recv rt \<or> (\<exists>d'. rt_recv_timeout rt d = rt_recv_timeout rt d')" by blast
  note step = serving_receive [OF I1 this x]
  show "served rt inbox M s' \<and> (is_ok r \<longrightarrow> serving rt inbox M s')"
    using run d x step yieldsD [OF serving_abandon step(1)]
    by (cases x) (auto simp: wait_command_def intro: served_serving)
qed

lemma owes_turn_phase:
  assumes "m \<in> turn_phases rt" "m \<noteq> drain_commands rt" "m \<noteq> wait_command rt"
  shows "yields (owes rt N) (\<lambda>s. accounted s \<subseteq># N) m"
proof -
  have "maintains (owes rt N) (updM drain_cancellations)" "maintains (owes rt N) (updM (expire_operations rt))"
    by (rule maintains_updM, erule owes_drain_cancellations) (rule maintains_updM, erule owes_expire_operations)
  moreover have "maintains (owes rt N) (pureM (read_available rt))" "maintains (owes rt N) (pureM (maintain_keep_alive rt))"
    by (rule maintains_pureM, erule (1) owes_read_available) (rule maintains_pureM, erule (1) owes_maintain_keep_alive)
  moreover have "maintains (owes rt N) m \<Longrightarrow> yields (owes rt N) (\<lambda>s. accounted s \<subseteq># N) m" for m :: "('a, unit) driver"
    by (erule maintains_yields) (simp add: owes_def)
  ultimately show ?thesis
    using assms owes_flush_outbound [of rt N] owes_decode_and_dispatch [of rt N] by (auto simp: turn_phases_def)
qed

lemma serving_turn_phase:
  assumes "m \<in> turn_phases rt"
  shows "yields (serving rt inbox M) (served rt inbox M) m"
proof (cases "m = drain_commands rt \<or> m = wait_command rt")
  case True
  then show ?thesis using serving_drain_commands serving_wait_command by auto
next
  case False
  then show ?thesis
    using owes_turn_phase [OF assms] inbox.turn_phase_yields [OF assms] by (intro serving_quietly) auto
qed

lemma served_fail_pending: "served rt inbox M s \<Longrightarrow> served rt inbox M (fail_pending s)"
  by (simp add: served_def fail_pending_answers(2))

lemma served_phase:
  assumes "serving rt inbox M s" "m \<in> driver_phases rt" "m s = Some (r, s')"
  shows "served rt inbox M s'"
proof (cases "m \<in> turn_phases rt")
  case True
  show ?thesis using yieldsD [OF serving_turn_phase [OF True] assms(1,3)] by blast
next
  case False
  then show ?thesis using assms served_fail_pending by (auto simp: driver_phases_def updM_def serving_def)
qed

lemma served_world:
  "served rt inbox M s \<Longrightarrow> no_command rt inbox (cn_stream s) w \<Longrightarrow> served rt inbox M (s\<lparr>cn_stream := w\<rparr>)"
  using subset_mset.order_trans [OF subset_mset.add_left_mono] by (auto simp: served_def no_command_def)

lemma served_run:
  assumes "serving rt inbox M s" "run rt s = Some (r, s')"
  shows "served rt inbox M s'"
proof -
  from assms(2) obtain s1 where s1: "run_inner rt s = Some (r, s1)"
    and s': "s' = snd (conn_io (tr_shutdown (rt_transport rt)) (if \<not> is_ok r \<and> \<not> cn_terminal_event_sent (fail_pending s1)
         then emit rt (Evt_Disconnected TransportClosed) (fail_pending s1) else fail_pending s1))" (is "_ = snd (conn_io _ ?s2)")
    by (auto simp: run_def bind_eq_Some_conv Let_def)
  have "served rt inbox M s1"
    using yieldsD [OF run_inner_yields [OF serving_turn_phase served_serving] assms(1) s1] by blast
  then have J: "served rt inbox M (fail_pending s1)" by (rule served_fail_pending)
  have "served rt inbox M (emit rt ev (fail_pending s1))" for ev
    unfolding emit_def snd_conn_io by (rule served_world [OF J no_commandI(6) [OF surjective_pairing]])
  with J have "served rt inbox M ?s2" by simp
  then show ?thesis unfolding s' snd_conn_io by (rule served_world) (rule no_commandI(5) [OF surjective_pairing])
qed

text \<open>C5: No caller is answered twice.  When every command of the channel has its own answer channel, then at
  every moment after the handshake each of them has been answered at most once, and one that is still held has
  not been answered; this holds through every phase, when a phase fails, and when \<open>run\<close> returns, whatever the
  broker acknowledges twice, late or not at all.\<close>

theorem nobody_answered_twice:
  assumes "async_connect_with (rt_transport rt) opts w = Some (Ok (client, s0), w')"
    and "transport_ok (rt_transport rt)" "inbox_ok rt inbox" "\<And>x. count (inbox (cn_stream s0)) x \<le> 1"
    and "driver_exec rt s0 s"
  shows "count (answered s) x + count (held s) x \<le> 1
    \<and> (m \<in> driver_phases rt \<longrightarrow> m s = Some (r, s') \<longrightarrow> count (answered s') x + count (held s') x \<le> 1)
    \<and> (run rt s = Some (r, s') \<longrightarrow> count (answered s') x \<le> 1)"
proof -
  let ?M = "inbox (cn_stream s0)"
  have one: "count (answered t) x + count (held t) x \<le> 1" if "served rt inbox ?M t" for t
  proof -
    have "count (accounted t + inbox (cn_stream t)) x \<le> count ?M x"
      using that by (intro mset_subset_eq_count) (simp add: served_def)
    then show ?thesis using assms(4) [of x] by (simp add: accounted_def)
  qed
  from assms(1) obtain connack caps now where "s0 = new_connection opts connack caps now w'" "co_max_packet_size opts \<le> 4294967295"
    by (rule async_connect_with_fresh)
  then have "serving rt inbox ?M s0"
    using assms(2,3) driver_inv_new_connection [of opts connack caps now w']
    by (auto simp: serving_def served_def accounted_def held_def answered_def new_connection_def)
  with assms(5) have I: "serving rt inbox ?M s"
    by (induction rule: driver_exec.induct) (auto dest: yieldsD [OF serving_turn_phase])
  show ?thesis
    using one [OF served_serving [OF I]] one served_phase [OF I] served_run [OF I] by (metis add_leE)
qed

theorem nobody_answered_twice_witness:
  "count (answered (test_queued ([], [], connect_bytes))) 7 + count (held (test_queued ([], [], connect_bytes))) 7 \<le> 1"
proof -
  let ?inbox = "\<lambda>(cs, i, out). mset (map command_sender cs)"
  have exec: "driver_exec test_runtime (test_connection ([test_publish], [], connect_bytes)) (test_queued ([], [], connect_bytes))"
    by (rule driver_exec.step [where m = "drain_commands test_runtime", OF driver_exec.start _ test_drain]) (simp add: turn_phases_def)
  have "inbox_ok test_runtime ?inbox"
    by (auto simp: inbox_ok_def test_runtime_def split: list.splits)
  moreover have "count (?inbox (cn_stream (test_connection ([test_publish], [], connect_bytes)))) x \<le> 1" for x
    by (simp add: test_connection_eq)
  ultimately show ?thesis
    using nobody_answered_twice [OF test_handshake [of "[test_publish]" "[]" "[]", simplified] test_ok(1) _ _ exec] by blast
qed

end
