(* ===== verification/Dial.thy ===== *)
theory Dial
  imports Client Async_Client
begin

text \<open>
  Opening a connection: the address parser of the TLS transport (\<^verbatim>\<open>src/tls.rs\<close>), the three loops that
  try the endpoints of an address in turn (\<^verbatim>\<open>tls.rs\<close>, \<^verbatim>\<open>client.rs\<close>, \<^verbatim>\<open>async_client.rs\<close>), the \<^verbatim>\<open>connect\<close>
  functions built on two of them, and the JSON variants of publishing.  Name resolution, the TCP
  connect of the standard library and the serializer are not code of the crate: they are arguments.
  After a successful connect the world \<^typ>\<open>'w\<close> holds the stream.
\<close>

section \<open>Network operations\<close>

record ('e, 'w) Network =
  net_resolve :: "rstr \<Rightarrow> 'w \<Rightarrow> 'e list io_result \<times> 'w"
  net_connect :: "'e \<Rightarrow> duration \<Rightarrow> 'w \<Rightarrow> unit io_result \<times> 'w"

section \<open>Addresses\<close>

abbreviation colon :: u8 where "colon \<equiv> 0x3A"
abbreviation bracket_open :: u8 where "bracket_open \<equiv> 0x5B"
abbreviation bracket_close :: u8 where "bracket_close \<equiv> 0x5D"

text \<open>\<^verbatim>\<open>str::parse::<u16>\<close>: an optional plus sign, at least one digit, no overflow.\<close>

fun parse_digits :: "nat \<Rightarrow> rstr \<Rightarrow> nat option" where
  "parse_digits acc [] = Some acc"
| "parse_digits acc (c # cs) =
    (if 0x30 \<le> c \<and> c \<le> 0x39 then
       let v = acc * 10 + (unat c - 0x30) in
       if v > 65535 then None else parse_digits v cs
     else None)"

definition parse_u16 :: "rstr \<Rightarrow> u16 option" where
  "parse_u16 s =
    (case s of
       [] \<Rightarrow> None
     | c # cs \<Rightarrow> map_option word_of_nat (parse_digits 0 (if c = 0x2B \<and> cs \<noteq> [] then cs else s)))"

text \<open>\<^verbatim>\<open>s.rsplit_once(c)\<close>: what stands before and after the last separator.\<close>

definition rsplit_once :: "'a \<Rightarrow> 'a list \<Rightarrow> ('a list \<times> 'a list) option" where
  "rsplit_once c s = map_option (\<lambda>(a, b). (rev b, rev a)) (split_once c (rev s))"

definition invalid_address :: "string \<Rightarrow> io_error" where
  "invalid_address message = IoError InvalidInput message"

definition split_address :: "rstr \<Rightarrow> (rstr \<times> rstr) io_result" where
  "split_address addr =
    (case strip_prefix addr [bracket_open] of
       Some bracketed \<Rightarrow>
         (case split_once bracket_close bracketed of
            None \<Rightarrow> Err (invalid_address (''missing closing '' @ [CHR 0x27, CHR '']'', CHR 0x27]))
          | Some (host, rest) \<Rightarrow>
              (case strip_prefix rest [colon] of
                 None \<Rightarrow> Err (invalid_address ''missing port after bracketed host'')
               | Some port \<Rightarrow> Ok (host, port)))
     | None \<Rightarrow>
         (case rsplit_once colon addr of
            None \<Rightarrow> Err (invalid_address ''address must be host:port'')
          | Some (host, port) \<Rightarrow>
              if colon \<in> set host
              then Err (invalid_address ''IPv6 addresses must be enclosed in brackets'')
              else Ok (host, port)))"

definition host_from_address :: "rstr \<Rightarrow> rstr io_result" where
  "host_from_address addr =
    (case split_address addr of
       Inl e \<Rightarrow> Err e
     | Inr (host, port) \<Rightarrow>
         if host = [] then Err (invalid_address ''host must not be empty'')
         else if parse_u16 port = None
         then Err (invalid_address ''port must be an unsigned 16-bit integer'')
         else Ok host)"

section \<open>Trying the endpoints in turn\<close>

primrec connect_tcp_loop ::
  "('e, 'w) Network \<Rightarrow> 'w Transport \<Rightarrow> instant \<Rightarrow> bool \<Rightarrow> io_error option \<Rightarrow> 'e list \<Rightarrow> 'w
     \<Rightarrow> unit io_result \<times> 'w" where
  "connect_tcp_loop net tr deadline attempted last_error [] w =
    (if \<not> attempted
     then (Err (IoError InvalidInput ''address resolved to no socket addresses''), w)
     else (Err (case last_error of Some e \<Rightarrow> e
                | None \<Rightarrow> IoError KindConnectionRefused ''TCP connect failed''), w))"
| "connect_tcp_loop net tr deadline attempted last_error (socket_addr # rest) w =
    (let (now, w) = tr_now tr w in
     if now \<ge> deadline then (Err (IoError TimedOut ''TCP connect timed out''), w)
     else case net_connect net socket_addr (deadline - now) w of
       (Inr _, w) \<Rightarrow> (Ok (), w)
     | (Inl error, w) \<Rightarrow> connect_tcp_loop net tr deadline True (Some error) rest w)"

definition connect_tcp ::
  "('e, 'w) Network \<Rightarrow> 'w Transport \<Rightarrow> rstr \<Rightarrow> instant \<Rightarrow> 'w \<Rightarrow> unit io_result \<times> 'w" where
  "connect_tcp net tr addr deadline w =
    (case net_resolve net addr w of
       (Inl e, w) \<Rightarrow> (Err e, w)
     | (Inr addresses, w) \<Rightarrow> connect_tcp_loop net tr deadline False None addresses w)"

text \<open>\<^verbatim>\<open>tls.rs\<close>\<close>

primrec tls_connect_loop ::
  "('e, 'w) Network \<Rightarrow> 'w Transport \<Rightarrow> instant \<Rightarrow> bool \<Rightarrow> io_error option \<Rightarrow> 'e list \<Rightarrow> 'w
     \<Rightarrow> unit io_result \<times> 'w" where
  "tls_connect_loop net tr deadline attempted last_error [] w =
    (if \<not> attempted then (Err (IoError InvalidInput ''address resolved to no endpoints''), w)
     else (Err (case last_error of Some e \<Rightarrow> e
                | None \<Rightarrow> IoError NotConnected ''unable to connect to TLS endpoint''), w))"
| "tls_connect_loop net tr deadline attempted last_error (address # rest) w =
    (let (now, w) = tr_now tr w;
         remaining = deadline - now
     in if remaining = 0 then (Err (IoError TimedOut ''TLS TCP connection deadline elapsed''), w)
     else case net_connect net address remaining w of
       (Inr _, w) \<Rightarrow> (Ok (), w)
     | (Inl error, w) \<Rightarrow> tls_connect_loop net tr deadline True (Some error) rest w)"

definition connect_tcp_with_deadline ::
  "('e, 'w) Network \<Rightarrow> 'w Transport \<Rightarrow> rstr \<Rightarrow> duration \<Rightarrow> 'w \<Rightarrow> unit io_result \<times> 'w" where
  "connect_tcp_with_deadline net tr addr timeout w =
    (if timeout = 0 then (Err (IoError InvalidInput ''TLS connect timeout must be non-zero''), w)
     else
       let (now, w) = tr_now tr w in
       case instant_checked_add tr now timeout of
         None \<Rightarrow> (Err (IoError InvalidInput ''TLS connect timeout is too large''), w)
       | Some deadline \<Rightarrow>
           (case net_resolve net addr w of
              (Inl e, w) \<Rightarrow> (Err e, w)
            | (Inr addresses, w) \<Rightarrow> tls_connect_loop net tr deadline False None addresses w))"

text \<open>\<^verbatim>\<open>async_client.rs\<close>\<close>

primrec connect_until_loop ::
  "('e, 'w) Network \<Rightarrow> 'w Transport \<Rightarrow> instant \<Rightarrow> bool \<Rightarrow> io_error option \<Rightarrow> 'e list
     \<Rightarrow> ('w, unit) comp" where
  "connect_until_loop net tr deadline attempted last_error [] =
     andM (connect_remaining tr deadline) (\<lambda>_.
     returns (if \<not> attempted
       then Err (Io (IoError InvalidInput ''address resolved to no endpoints''))
       else map_connect_io (Err (case last_error of Some e \<Rightarrow> e
              | None \<Rightarrow> IoError KindConnectionRefused ''TCP connect failed''))))"
| "connect_until_loop net tr deadline attempted last_error (socket_addr # rest) =
     andM (connect_remaining tr deadline) (\<lambda>remaining w.
     case net_connect net socket_addr remaining w of
       (Inr _, w) \<Rightarrow> Some (Ok (), w)
     | (Inl error, w) \<Rightarrow> connect_until_loop net tr deadline True (Some error) rest w)"

definition connect_tcp_until ::
  "('e, 'w) Network \<Rightarrow> 'w Transport \<Rightarrow> rstr \<Rightarrow> instant \<Rightarrow> ('w, unit) comp" where
  "connect_tcp_until net tr addr deadline w =
    (let (addresses, w) = net_resolve net addr w in
     andM (connect_remaining tr deadline) (\<lambda>_.
     andM (returns (from_io addresses)) (\<lambda>addresses.
     connect_until_loop net tr deadline False None addresses)) w)"

section \<open>Connecting by address\<close>

definition client_connect ::
  "('e, 'w) Network \<Rightarrow> 'w Transport \<Rightarrow> rstr \<Rightarrow> ConnectOptions \<Rightarrow> 'w \<Rightarrow> 'w MqttClient result option" where
  "client_connect net tr addr opts w =
    (let (t0, w) = tr_now tr w in
     case options_validate (\<lambda>d. instant_checked_add tr t0 d \<noteq> None) opts of
       Inl e \<Rightarrow> Some (Err e)
     | Inr _ \<Rightarrow>
         let (t1, w) = tr_now tr w in
         case instant_checked_add tr t1 (co_connect_timeout opts) of
           None \<Rightarrow> Some (Err (InvalidOptions ''timeout is too large''))
         | Some deadline \<Rightarrow>
             (case connect_tcp net tr addr deadline w of
                (Inl error, w) \<Rightarrow>
                  Some (Err (if io_kind error = TimedOut then Timeout ''connect'' else Io error))
              | (Inr _, w) \<Rightarrow>
                  let (now, w) = tr_now tr w in
                  if deadline > now
                  then connect_with tr (opts\<lparr>co_connect_timeout := deadline - now\<rparr>) w
                  else Some (Err (Timeout ''connect''))))"

definition async_connect ::
  "('e, 'w) Network \<Rightarrow> 'w Transport \<Rightarrow> rstr \<Rightarrow> ConnectOptions
     \<Rightarrow> ('w, AsyncMqttClient \<times> 'w MqttConnection) comp" where
  "async_connect net tr addr opts =
     andM (nowW tr) (\<lambda>t0.
     andM (returns (options_validate (\<lambda>d. instant_checked_add tr t0 d \<noteq> None) opts)) (\<lambda>_.
     andM (connect_deadline tr (co_connect_timeout opts)) (\<lambda>deadline.
     andM (connect_tcp_until net tr addr deadline) (\<lambda>_.
     connect_with_deadline tr opts deadline))))"

section \<open>JSON\<close>

text \<open>\<open>to_vec\<close> is \<^verbatim>\<open>serde_json::to_vec\<close>; its error is kept as text.\<close>

definition client_publish_json ::
  "('p \<Rightarrow> string + bytes) \<Rightarrow> 'w Transport \<Rightarrow> rstr \<Rightarrow> 'p \<Rightarrow> PublishOptions \<Rightarrow> ('w, unit) client_op" where
  "client_publish_json to_vec tr topic payload opts =
     andM (returns (case to_vec payload of Inl message \<Rightarrow> Err (Serialize message) | Inr bs \<Rightarrow> Ok bs)) (\<lambda>bs.
     client_publish tr topic bs opts)"

definition start_publish_json ::
  "('p \<Rightarrow> string + bytes) \<Rightarrow> 'w Runtime \<Rightarrow> AsyncMqttClient \<Rightarrow> rstr \<Rightarrow> 'p \<Rightarrow> PublishOptions \<Rightarrow> sender
     \<Rightarrow> 'w \<Rightarrow> unit result \<times> 'w" where
  "start_publish_json to_vec rt client topic payload opts result w =
    (case to_vec payload of
       Inl message \<Rightarrow> (Err (Serialize message), w)
     | Inr bs \<Rightarrow> start_publish rt client topic bs opts result w)"

section \<open>What the address parser accepts\<close>

lemma split_once_Some: "split_once c s = Some (a, b) \<longleftrightarrow> s = a @ c # b \<and> c \<notin> set a"
proof (induction s arbitrary: a)
  case (Cons x s)
  show ?case
  proof (cases a)
    case (Cons y a')
    then show ?thesis using Cons.IH [of a'] by (auto simp: map_option_eq_Some split: prod.splits)
  qed (auto)
qed simp

lemma rsplit_once_Some: "rsplit_once c s = Some (a, b) \<longleftrightarrow> s = a @ c # b \<and> c \<notin> set b"
proof -
  have "rsplit_once c s = Some (a, b) \<longleftrightarrow> split_once c (rev s) = Some (rev b, rev a)"
    by (auto simp: rsplit_once_def)
  also have "\<dots> \<longleftrightarrow> s = a @ c # b \<and> c \<notin> set b"
    by (simp add: split_once_Some rev_swap)
  finally show ?thesis .
qed

lemma strip_one: "strip_prefix s [c] = Some r \<longleftrightarrow> s = c # r"
  by (cases s) (auto simp: strip_prefix_def starts_with_def)

lemma strip_one_None: "strip_prefix s [c] = None \<longleftrightarrow> (s = [] \<or> hd s \<noteq> c)"
  by (cases s) (auto simp: strip_prefix_def starts_with_def)

lemma parse_digits_no_colon: "parse_digits acc s = Some v \<Longrightarrow> colon \<notin> set s"
  by (induction s arbitrary: acc) (auto simp: Let_def split: if_splits)

lemma parse_u16_no_colon: "parse_u16 s = Some v \<Longrightarrow> colon \<notin> set s"
proof (cases s)
  case (Cons c cs)
  assume "parse_u16 s = Some v"
  then obtain n where "parse_digits 0 (if c = 0x2B \<and> cs \<noteq> [] then cs else s) = Some n"
    using Cons by (auto simp: parse_u16_def simp del: parse_digits.simps)
  from parse_digits_no_colon [OF this] show ?thesis using Cons by (auto split: if_splits)
qed simp

lemma split_address_Ok:
  "split_address addr = Ok (host, port) \<longleftrightarrow>
     addr = bracket_open # host @ bracket_close # colon # port \<and> bracket_close \<notin> set host
     \<or> addr = host @ colon # port \<and> colon \<notin> set host \<and> colon \<notin> set port \<and> hd addr \<noteq> bracket_open"
proof (cases "strip_prefix addr [bracket_open]")
  case None
  then have "split_address addr = Ok (host, port) \<longleftrightarrow> rsplit_once colon addr = Some (host, port) \<and> colon \<notin> set host"
    by (auto simp: split_address_def split: option.splits)
  moreover have "addr = [] \<or> hd addr \<noteq> bracket_open" using None by (simp add: strip_one_None)
  ultimately show ?thesis by (auto simp: rsplit_once_Some)
next
  case (Some b)
  then have "split_address addr = Ok (host, port) \<longleftrightarrow>
      (\<exists>rest. split_once bracket_close b = Some (host, rest) \<and> strip_prefix rest [colon] = Some port)"
    by (auto simp: split_address_def split: option.splits)
  moreover have "addr = bracket_open # b" using Some by (simp add: strip_one)
  ultimately show ?thesis by (auto simp: strip_one split_once_Some)
qed

text \<open>C32: The address parser of the TLS transport returns a host exactly for \<^verbatim>\<open>host:port\<close> where the host
  is not empty and has no colon, and for \<^verbatim>\<open>[host]:port\<close>, where the port is a number of 16 bits; an
  unbracketed IPv6 address is refused, so the host is never ambiguous.\<close>

theorem host_from_address_spec:
  "host_from_address addr = Ok host \<longleftrightarrow> host \<noteq> [] \<and> (\<exists>port. parse_u16 port \<noteq> None
     \<and> (addr = bracket_open # host @ bracket_close # colon # port \<and> bracket_close \<notin> set host
        \<or> addr = host @ colon # port \<and> colon \<notin> set host \<and> hd addr \<noteq> bracket_open))"
proof -
  have "host_from_address addr = Ok host \<longleftrightarrow> (\<exists>port. split_address addr = Ok (host, port) \<and> host \<noteq> [] \<and> parse_u16 port \<noteq> None)"
    by (auto simp: host_from_address_def split: sum.splits if_splits)
  then show ?thesis by (auto simp: split_address_Ok dest: parse_u16_no_colon)
qed

theorem host_from_address_spec_witness:
  "host_from_address [0x61, colon, 0x31] = Ok [0x61]
   \<and> host_from_address [bracket_open, colon, colon, 0x31, bracket_close, colon, 0x38] = Ok [colon, colon, 0x31]"
proof -
  have "parse_u16 [0x31] \<noteq> None" "parse_u16 [0x38] \<noteq> None" by (simp_all add: parse_u16_def)
  then show ?thesis
    using host_from_address_spec [of "[0x61, colon, 0x31]" "[0x61]"]
      host_from_address_spec [of "[bracket_open, colon, colon, 0x31, bracket_close, colon, 0x38]" "[colon, colon, 0x31]"]
    by fastforce
qed

section \<open>The endpoint that is used\<close>

inductive failed_dials ::
  "('e, 'w) Network \<Rightarrow> 'w Transport \<Rightarrow> instant \<Rightarrow> 'e list \<Rightarrow> 'w \<Rightarrow> 'w \<Rightarrow> bool" for net tr deadline where
  none: "failed_dials net tr deadline [] w w"
| more: "tr_now tr w = (now, w1) \<Longrightarrow> now < deadline \<Longrightarrow> net_connect net e (deadline - now) w1 = (Err error, w2) \<Longrightarrow>
    failed_dials net tr deadline es w2 w3 \<Longrightarrow> failed_dials net tr deadline (e # es) w w3"

inductive_simps failed_dials_Nil [simp]: "failed_dials net tr deadline [] w w'"
inductive_simps failed_dials_Cons: "failed_dials net tr deadline (e # es) w w'"

text \<open>The first endpoint that answers, after those before it have failed, all before the deadline.\<close>

definition dialled :: "('e, 'w) Network \<Rightarrow> 'w Transport \<Rightarrow> instant \<Rightarrow> 'e list \<Rightarrow> 'w \<Rightarrow> 'w \<Rightarrow> bool" where
  "dialled net tr deadline es w w' \<longleftrightarrow> (\<exists>pre e post w1 now w2. es = pre @ e # post
     \<and> failed_dials net tr deadline pre w w1 \<and> tr_now tr w1 = (now, w2) \<and> now < deadline
     \<and> net_connect net e (deadline - now) w2 = (Ok (), w'))"

lemma dialled_Nil [simp]: "\<not> dialled net tr deadline [] w w'"
  by (simp add: dialled_def)

lemma dialled_Cons:
  "dialled net tr deadline (e # es) w w' \<longleftrightarrow>
    (\<exists>now w1. tr_now tr w = (now, w1) \<and> now < deadline
       \<and> (net_connect net e (deadline - now) w1 = (Ok (), w')
          \<or> (\<exists>error w2. net_connect net e (deadline - now) w1 = (Err error, w2) \<and> dialled net tr deadline es w2 w')))"
  (is "?l \<longleftrightarrow> ?r")
proof
  assume ?l
  then obtain pre e' post w1 now w2 where d: "e # es = pre @ e' # post" "failed_dials net tr deadline pre w w1"
    "tr_now tr w1 = (now, w2)" "now < deadline" "net_connect net e' (deadline - now) w2 = (Ok (), w')"
    unfolding dialled_def by blast
  show ?r
  proof (cases pre)
    case Nil
    then show ?thesis using d by auto
  next
    case (Cons p pre')
    with d(1) have es: "es = pre' @ e' # post" and p: "p = e" by simp_all
    from d(2) [unfolded Cons p failed_dials_Cons] obtain t w3 error w4 where "tr_now tr w = (t, w3)" "t < deadline"
      "net_connect net e (deadline - t) w3 = (Err error, w4)" "failed_dials net tr deadline pre' w4 w1" by blast
    moreover from this(4) have "dialled net tr deadline es w4 w'" unfolding dialled_def es using d(3-5) by blast
    ultimately show ?thesis by blast
  qed
next
  assume ?r
  then obtain now w1 where now: "tr_now tr w = (now, w1)" "now < deadline"
    and "net_connect net e (deadline - now) w1 = (Ok (), w')
      \<or> (\<exists>error w2. net_connect net e (deadline - now) w1 = (Err error, w2) \<and> dialled net tr deadline es w2 w')" by blast
  then show ?l
  proof (elim disjE exE conjE)
    assume "net_connect net e (deadline - now) w1 = (Ok (), w')"
    then show ?l unfolding dialled_def using now by (intro exI [of _ "[]"]) auto
  next
    fix error w2
    assume "net_connect net e (deadline - now) w1 = (Err error, w2)" "dialled net tr deadline es w2 w'"
    then show ?l unfolding dialled_def using now failed_dials.more [OF now] by (metis append_Cons)
  qed
qed

lemma connect_tcp_loop_Ok:
  "connect_tcp_loop net tr deadline at le es w = (Ok (), w') \<longleftrightarrow> dialled net tr deadline es w w'"
  by (induction es arbitrary: at le w) (auto simp: dialled_Cons Let_def split: prod.splits sum.splits)

lemma tls_connect_loop_Ok:
  "tls_connect_loop net tr deadline at le es w = (Ok (), w') \<longleftrightarrow> dialled net tr deadline es w w'"
  by (induction es arbitrary: at le w) (auto simp: dialled_Cons Let_def split: prod.splits sum.splits)

lemma connect_until_loop_Ok:
  "connect_until_loop net tr deadline at le es w = Some (Ok (), w') \<longleftrightarrow> dialled net tr deadline es w w'"
proof (induction es arbitrary: at le w)
  case Nil
  then show ?case by (auto simp: andM_Ok returns_def map_connect_io_def split: if_splits)
next
  case (Cons e es)
  obtain now w1 where now: "tr_now tr w = (now, w1)" by force
  obtain x w2 where x: "net_connect net e (deadline - now) w1 = (x, w2)" by force
  show ?case
    using Cons.IH [of True _ w2] now x
    by (cases x) (auto simp: dialled_Cons connect_remaining_def andM_def nowW_def returns_def)
qed

text \<open>C29: Connecting by address uses the first endpoint that answers: the endpoints the address
  resolves to are tried in order, each with the time that is left before the deadline, and only
  after those before it have failed.  A connect succeeds exactly then, with the blocking client, over
  TLS, and with the asynchronous client, which also counts the resolution against the deadline.\<close>

theorem first_endpoint_that_answers:
  "(connect_tcp net tr addr deadline w = (Ok (), w') \<longleftrightarrow>
      (\<exists>es w1. net_resolve net addr w = (Ok es, w1) \<and> dialled net tr deadline es w1 w'))
   \<and> (connect_tcp_with_deadline net tr addr timeout w = (Ok (), w') \<longleftrightarrow>
      (\<exists>now w0 es w1. 0 < timeout \<and> tr_now tr w = (now, w0) \<and> now + timeout \<le> tr_instant_max tr
         \<and> net_resolve net addr w0 = (Ok es, w1) \<and> dialled net tr (now + timeout) es w1 w'))
   \<and> (connect_tcp_until net tr addr deadline w = Some (Ok (), w') \<longleftrightarrow>
      (\<exists>es w1 now w2. net_resolve net addr w = (Ok es, w1) \<and> tr_now tr w1 = (now, w2) \<and> now < deadline
         \<and> dialled net tr deadline es w2 w'))"
proof (intro conjI)
  show "connect_tcp net tr addr deadline w = (Ok (), w') \<longleftrightarrow>
      (\<exists>es w1. net_resolve net addr w = (Ok es, w1) \<and> dialled net tr deadline es w1 w')"
    by (auto simp: connect_tcp_def connect_tcp_loop_Ok split: prod.splits sum.splits)
  show "connect_tcp_with_deadline net tr addr timeout w = (Ok (), w') \<longleftrightarrow>
      (\<exists>now w0 es w1. 0 < timeout \<and> tr_now tr w = (now, w0) \<and> now + timeout \<le> tr_instant_max tr
         \<and> net_resolve net addr w0 = (Ok es, w1) \<and> dialled net tr (now + timeout) es w1 w')"
    by (auto simp: connect_tcp_with_deadline_def instant_checked_add_def tls_connect_loop_Ok split: prod.splits sum.splits)
  show "connect_tcp_until net tr addr deadline w = Some (Ok (), w') \<longleftrightarrow>
      (\<exists>es w1 now w2. net_resolve net addr w = (Ok es, w1) \<and> tr_now tr w1 = (now, w2) \<and> now < deadline
         \<and> dialled net tr deadline es w2 w')"
    by (auto simp: connect_tcp_until_def andM_Ok connect_remaining_def nowW_def returns_def from_io_def
        connect_until_loop_Ok split: prod.splits sum.splits if_splits)
qed

end
