(* ===== verification/Streams.thy ===== *)
theory Streams
  imports Dial
begin

text \<open>
  The two byte streams the crate implements its transport trait for: \<^verbatim>\<open>std::net::TcpStream\<close>
  (\<^verbatim>\<open>src/transport.rs\<close>) and \<^verbatim>\<open>TlsTransport\<close> (\<^verbatim>\<open>src/tls.rs\<close>), with the functions that open the latter.
  The sockets of the operating system and \<^verbatim>\<open>rustls\<close> are not code of the crate: records of their
  operations are arguments.
\<close>

section \<open>The provided methods of the standard library\<close>

text \<open>\<^verbatim>\<open>std::io::Write::write_all\<close> and \<^verbatim>\<open>std::io::Read::read_exact\<close>\<close>

partial_function (option) std_write_all ::
  "(bytes \<Rightarrow> 'w \<Rightarrow> nat io_result \<times> 'w) \<Rightarrow> bytes \<Rightarrow> 'w \<Rightarrow> (unit io_result \<times> 'w) option" where
  "std_write_all wr buf w =
    (if buf = [] then Some (Ok (), w)
     else case wr buf w of
       (Inr n, w') \<Rightarrow>
         if n = 0 then Some (Err (IoError WriteZero ''failed to write whole buffer''), w')
         else std_write_all wr (drop n buf) w'
     | (Inl error, w') \<Rightarrow>
         if io_kind error = Interrupted then std_write_all wr buf w'
         else Some (Err error, w'))"

partial_function (option) std_read_exact ::
  "(nat \<Rightarrow> 'w \<Rightarrow> bytes io_result \<times> 'w) \<Rightarrow> nat \<Rightarrow> bytes \<Rightarrow> 'w \<Rightarrow> (bytes io_result \<times> 'w) option" where
  "std_read_exact rd n acc w =
    (if n = 0 then Some (Ok acc, w)
     else case rd n w of
       (Inr bs, w') \<Rightarrow>
         if bs = [] then Some (Err (IoError UnexpectedEof ''failed to fill whole buffer''), w')
         else std_read_exact rd (n - length bs) (acc @ bs) w'
     | (Inl error, w') \<Rightarrow>
         if io_kind error = Interrupted then std_read_exact rd n acc w'
         else Some (Err error, w'))"

section \<open>TCP\<close>

datatype Shutdown = Shutdown_Read | Shutdown_Write | Shutdown_Both

record 'w TcpStream =
  tcp_write :: "bytes \<Rightarrow> 'w \<Rightarrow> nat io_result \<times> 'w"
  tcp_flush :: "'w \<Rightarrow> unit io_result \<times> 'w"
  tcp_read :: "nat \<Rightarrow> 'w \<Rightarrow> bytes io_result \<times> 'w"
  tcp_set_nonblocking :: "bool \<Rightarrow> 'w \<Rightarrow> unit io_result \<times> 'w"
  tcp_set_read_timeout :: "duration option \<Rightarrow> 'w \<Rightarrow> unit io_result \<times> 'w"
  tcp_set_write_timeout :: "duration option \<Rightarrow> 'w \<Rightarrow> unit io_result \<times> 'w"
  tcp_shutdown :: "Shutdown \<Rightarrow> 'w \<Rightarrow> unit io_result \<times> 'w"

text \<open>The platform's clock, \<^verbatim>\<open>Instant::now()\<close>, with the largest instant it represents.\<close>

record 'w Clock =
  ck_now :: "'w \<Rightarrow> instant \<times> 'w"
  ck_max :: instant

definition tcp_transport :: "'w Clock \<Rightarrow> 'w TcpStream \<Rightarrow> 'w Transport" where
  "tcp_transport ck tcp =
    \<lparr>tr_write = tcp_write tcp, tr_flush = tcp_flush tcp, tr_read = tcp_read tcp,
     tr_set_nonblocking = tcp_set_nonblocking tcp, tr_set_read_timeout = tcp_set_read_timeout tcp,
     tr_set_write_timeout = tcp_set_write_timeout tcp, tr_shutdown = tcp_shutdown tcp Shutdown_Both,
     tr_now = ck_now ck, tr_instant_max = ck_max ck\<rparr>"

text \<open>The implementation overrides the trait's \<^verbatim>\<open>write_all\<close>.\<close>

definition tcp_write_all :: "'w TcpStream \<Rightarrow> bytes \<Rightarrow> 'w \<Rightarrow> (unit io_result \<times> 'w) option" where
  "tcp_write_all tcp buf w = std_write_all (tcp_write tcp) buf w"

definition tcp_read_exact :: "'w TcpStream \<Rightarrow> nat \<Rightarrow> 'w \<Rightarrow> (bytes io_result \<times> 'w) option" where
  "tcp_read_exact tcp n w = std_read_exact (tcp_read tcp) n [] w"

section \<open>TLS\<close>

text \<open>\<^verbatim>\<open>StreamOwned<ClientConnection, TcpStream>\<close>: reads and writes go through TLS, \<^verbatim>\<open>get_ref\<close> is the socket.\<close>

record 'w TlsTransport =
  tls_write :: "bytes \<Rightarrow> 'w \<Rightarrow> nat io_result \<times> 'w"
  tls_flush :: "'w \<Rightarrow> unit io_result \<times> 'w"
  tls_read :: "nat \<Rightarrow> 'w \<Rightarrow> bytes io_result \<times> 'w"
  tls_tcp :: "'w TcpStream"

definition tls_transport :: "'w Clock \<Rightarrow> 'w TlsTransport \<Rightarrow> 'w Transport" where
  "tls_transport ck tls =
    \<lparr>tr_write = tls_write tls, tr_flush = tls_flush tls, tr_read = tls_read tls,
     tr_set_nonblocking = tcp_set_nonblocking (tls_tcp tls),
     tr_set_read_timeout = tcp_set_read_timeout (tls_tcp tls),
     tr_set_write_timeout = tcp_set_write_timeout (tls_tcp tls),
     tr_shutdown = tcp_shutdown (tls_tcp tls) Shutdown_Both,
     tr_now = ck_now ck, tr_instant_max = ck_max ck\<rparr>"

definition tls_write_all :: "'w TlsTransport \<Rightarrow> bytes \<Rightarrow> 'w \<Rightarrow> (unit io_result \<times> 'w) option" where
  "tls_write_all tls buf w = std_write_all (tls_write tls) buf w"

definition tls_read_exact :: "'w TlsTransport \<Rightarrow> nat \<Rightarrow> 'w \<Rightarrow> (bytes io_result \<times> 'w) option" where
  "tls_read_exact tls n w = std_read_exact (tls_read tls) n [] w"

text \<open>
  \<^verbatim>\<open>rustls\<close>: the parser of server names, the client connection for a configuration and a name, the
  stream over a connection and a socket, and the steps of the configuration builder.
\<close>

record ('cert, 'roots, 'prov, 'b0, 'b1, 'b2, 'config, 'name, 'conn, 'w) Rustls =
  rl_server_name :: "rstr \<Rightarrow> string + 'name"
  rl_client_connection :: "'config \<Rightarrow> 'name \<Rightarrow> string + 'conn"
  rl_stream :: "'conn \<Rightarrow> 'w TcpStream \<Rightarrow> 'w TlsTransport"
  rl_server_roots :: "'cert list"
  rl_root_store :: "'cert list \<Rightarrow> 'roots"
  rl_provider :: 'prov
  rl_builder :: "'prov \<Rightarrow> 'b0"
  rl_safe_versions :: "'b0 \<Rightarrow> string + 'b1"
  rl_with_roots :: "'b1 \<Rightarrow> 'roots \<Rightarrow> 'b2"
  rl_no_client_auth :: "'b2 \<Rightarrow> 'config"

definition default_tls_config ::
  "('cert, 'roots, 'prov, 'b0, 'b1, 'b2, 'config, 'name, 'conn, 'w) Rustls \<Rightarrow> string + 'config" where
  "default_tls_config rl =
    (let root_store = rl_root_store rl (rl_server_roots rl) in
     and_then (rl_safe_versions rl (rl_builder rl (rl_provider rl))) (\<lambda>b.
     Ok (rl_no_client_auth rl (rl_with_roots rl b root_store))))"

definition DEFAULT_TLS_CONNECT_TIMEOUT :: duration where
  "DEFAULT_TLS_CONNECT_TIMEOUT = from_secs 10"

text \<open>\<open>tcp\<close> is the socket that connecting leaves in the world; \<open>tr\<close> provides the clock.\<close>

definition connect_with_config_and_timeout ::
  "('cert, 'roots, 'prov, 'b0, 'b1, 'b2, 'config, 'name, 'conn, 'w) Rustls \<Rightarrow> ('e, 'w) Network \<Rightarrow> 'w Transport
     \<Rightarrow> 'w TcpStream \<Rightarrow> rstr \<Rightarrow> 'config \<Rightarrow> duration \<Rightarrow> 'w \<Rightarrow> 'w TlsTransport io_result \<times> 'w" where
  "connect_with_config_and_timeout rl net tr tcp addr config timeout w =
    (case host_from_address addr of
       Inl e \<Rightarrow> (Err e, w)
     | Inr host \<Rightarrow>
         (case rl_server_name rl host of
            Inl e \<Rightarrow> (Err (IoError InvalidInput e), w)
          | Inr server_name \<Rightarrow>
              (case connect_tcp_with_deadline net tr addr timeout w of
                 (Inl e, w) \<Rightarrow> (Err e, w)
               | (Inr _, w) \<Rightarrow>
                   (case rl_client_connection rl config server_name of
                      Inl e \<Rightarrow> (Err (IoError KindOther e), w)
                    | Inr conn \<Rightarrow> (Ok (rl_stream rl conn tcp), w)))))"

definition connect_with_config ::
  "('cert, 'roots, 'prov, 'b0, 'b1, 'b2, 'config, 'name, 'conn, 'w) Rustls \<Rightarrow> ('e, 'w) Network \<Rightarrow> 'w Transport
     \<Rightarrow> 'w TcpStream \<Rightarrow> rstr \<Rightarrow> 'config \<Rightarrow> 'w \<Rightarrow> 'w TlsTransport io_result \<times> 'w" where
  "connect_with_config rl net tr tcp addr config w =
     connect_with_config_and_timeout rl net tr tcp addr config DEFAULT_TLS_CONNECT_TIMEOUT w"

definition connect_with_timeout ::
  "('cert, 'roots, 'prov, 'b0, 'b1, 'b2, 'config, 'name, 'conn, 'w) Rustls \<Rightarrow> ('e, 'w) Network \<Rightarrow> 'w Transport
     \<Rightarrow> 'w TcpStream \<Rightarrow> rstr \<Rightarrow> duration \<Rightarrow> 'w \<Rightarrow> 'w TlsTransport io_result \<times> 'w" where
  "connect_with_timeout rl net tr tcp addr timeout w =
    (case default_tls_config rl of
       Inl e \<Rightarrow> (Err (IoError KindOther e), w)
     | Inr config \<Rightarrow> connect_with_config_and_timeout rl net tr tcp addr config timeout w)"

definition tls_connect ::
  "('cert, 'roots, 'prov, 'b0, 'b1, 'b2, 'config, 'name, 'conn, 'w) Rustls \<Rightarrow> ('e, 'w) Network \<Rightarrow> 'w Transport
     \<Rightarrow> 'w TcpStream \<Rightarrow> rstr \<Rightarrow> 'w \<Rightarrow> 'w TlsTransport io_result \<times> 'w" where
  "tls_connect rl net tr tcp addr w =
     connect_with_timeout rl net tr tcp addr DEFAULT_TLS_CONNECT_TIMEOUT w"

section \<open>Overriding \<^verbatim>\<open>write_all\<close> is harmless\<close>

text \<open>What a caller sees but for the text of an I/O error.\<close>

definition kind_of :: "('a io_result \<times> 'w) option \<Rightarrow> ((ErrorKind + 'a) \<times> 'w) option" where
  "kind_of = map_option (map_prod (map_sum io_kind id) id)"

lemma kind_of_simps [simp]:
  "kind_of None = None" "kind_of (Some (Ok x, w)) = Some (Ok x, w)" "kind_of (Some (Err e, w)) = Some (Err (io_kind e), w)"
  by (simp_all add: kind_of_def)

lemma kind_of_None: "kind_of x = None \<longleftrightarrow> x = None"
  by (simp add: kind_of_def)

lemma std_write_all_default:
  fixes tr :: "'w Transport"
  assumes "std_write_all (tr_write tr) buf w = Some y"
  shows "kind_of (write_all tr buf w) = kind_of (Some y)"
proof -
  have "\<forall>tr. wr = tr_write tr \<longrightarrow> kind_of (write_all tr buf w) = kind_of (Some y)"
    if "std_write_all wr buf w = Some y" for wr buf and w :: 'w and y
    using that
  proof (rule std_write_all.raw_induct [rotated], goal_cases)
    case (1 loop wr buf w y)
    show ?case
    proof (intro allI impI)
      fix tr :: "'w Transport"
      assume wr: "wr = tr_write tr"
      have IH: "loop (tr_write tr) b v = Some y \<Longrightarrow> kind_of (write_all tr b v) = kind_of (Some y)" for b v
        using 1(1) wr by blast
      obtain x w1 where x: "wr buf w = (x, w1)" by force
      show "kind_of (write_all tr buf w) = kind_of (Some y)"
        using 1(2) x wr by (subst write_all.simps, cases x) (auto split: if_splits dest: IH)
    qed
  qed
  then show ?thesis using assms by blast
qed

lemma default_write_all_std:
  fixes tr :: "'w Transport"
  assumes "write_all tr buf w = Some y"
  shows "\<exists>z. std_write_all (tr_write tr) buf w = Some z"
proof -
  have "\<exists>z. std_write_all (tr_write tr) buf w = Some z" if "write_all tr buf w = Some y" for tr :: "'w Transport" and buf w y
    using that
  proof (rule write_all.raw_induct [rotated], goal_cases)
    case (1 loop tr buf w y)
    have IH: "loop tr b v = Some y \<Longrightarrow> \<exists>z. std_write_all (tr_write tr) b v = Some z" for b v
      using 1(1) by blast
    obtain x w1 where x: "tr_write tr buf w = (x, w1)" by force
    show ?case
      using 1(2) x by (subst std_write_all.simps, cases x) (auto split: if_splits dest: IH)
  qed
  then show ?thesis using assms by blast
qed

lemma write_all_std: "kind_of (std_write_all (tr_write tr) buf w) = kind_of (write_all tr buf w)"
proof (cases "write_all tr buf w")
  case None
  then show ?thesis
    using std_write_all_default [of tr buf w] kind_of_None by (cases "std_write_all (tr_write tr) buf w") fastforce+
next
  case (Some y)
  then show ?thesis using default_write_all_std std_write_all_default by metis
qed

text \<open>C31: Both stream types override the trait's \<^verbatim>\<open>write_all\<close> with the one of the standard library.  For
  every buffer the two do the same: they return together or not at all, in the same state of the world, with the same
  success or the same kind of error.\<close>

theorem overridden_write_all:
  "kind_of (tcp_write_all tcp buf w) = kind_of (write_all (tcp_transport ck tcp) buf w)
   \<and> kind_of (tls_write_all tls buf w) = kind_of (write_all (tls_transport ck tls) buf w)"
  using write_all_std [of "tcp_transport ck tcp"] write_all_std [of "tls_transport ck tls"]
  by (simp add: tcp_write_all_def tls_write_all_def tcp_transport_def tls_transport_def)

section \<open>TLS is opened for the host that is dialled\<close>

lemma connect_tcp_with_deadline_Ok:
  "connect_tcp_with_deadline net tr addr timeout w = (Ok (), w') \<longleftrightarrow>
      (\<exists>now w0 es w1. 0 < timeout \<and> tr_now tr w = (now, w0) \<and> now + timeout \<le> tr_instant_max tr
         \<and> net_resolve net addr w0 = (Ok es, w1) \<and> dialled net tr (now + timeout) es w1 w')"
  by (auto simp: connect_tcp_with_deadline_def instant_checked_add_def tls_connect_loop_Ok split: prod.splits sum.splits)

text \<open>C30: A TLS stream is opened only for the host of the address that was dialled: the name the
  certificate is checked against is the host part of that address, the socket is the first endpoint of the
  address that answers within the timeout, and an address without a usable host opens no socket at all.\<close>

theorem tls_checks_the_dialled_host:
  "(connect_with_config_and_timeout rl net tr tcp addr config timeout w = (Ok tls, w') \<longleftrightarrow>
     (\<exists>host name conn. host_from_address addr = Ok host \<and> rl_server_name rl host = Ok name
        \<and> (\<exists>now w0 es w1. 0 < timeout \<and> tr_now tr w = (now, w0) \<and> now + timeout \<le> tr_instant_max tr
             \<and> net_resolve net addr w0 = (Ok es, w1) \<and> dialled net tr (now + timeout) es w1 w')
        \<and> rl_client_connection rl config name = Ok conn \<and> tls = rl_stream rl conn tcp))
   \<and> ((\<forall>host name. host_from_address addr = Ok host \<longrightarrow> rl_server_name rl host \<noteq> Ok name) \<longrightarrow>
      (\<exists>e. connect_with_config_and_timeout rl net tr tcp addr config timeout w = (Err e, w) \<and> io_kind e = InvalidInput))"
proof (intro conjI impI)
  show "connect_with_config_and_timeout rl net tr tcp addr config timeout w = (Ok tls, w') \<longleftrightarrow>
     (\<exists>host name conn. host_from_address addr = Ok host \<and> rl_server_name rl host = Ok name
        \<and> (\<exists>now w0 es w1. 0 < timeout \<and> tr_now tr w = (now, w0) \<and> now + timeout \<le> tr_instant_max tr
             \<and> net_resolve net addr w0 = (Ok es, w1) \<and> dialled net tr (now + timeout) es w1 w')
        \<and> rl_client_connection rl config name = Ok conn \<and> tls = rl_stream rl conn tcp)"
    unfolding connect_tcp_with_deadline_Ok [symmetric]
    by (auto simp: connect_with_config_and_timeout_def split: sum.splits prod.splits)
next
  assume no: "\<forall>host name. host_from_address addr = Ok host \<longrightarrow> rl_server_name rl host \<noteq> Ok name"
  have kind: "host_from_address addr = Err e \<Longrightarrow> io_kind e = InvalidInput" for e
    by (auto simp: host_from_address_def split_address_def invalid_address_def split: sum.splits option.splits if_splits prod.splits)
  show "\<exists>e. connect_with_config_and_timeout rl net tr tcp addr config timeout w = (Err e, w) \<and> io_kind e = InvalidInput"
  proof (cases "host_from_address addr")
    case (Inl e)
    then show ?thesis using kind by (simp add: connect_with_config_and_timeout_def)
  next
    case (Inr host)
    then show ?thesis using no by (cases "rl_server_name rl host") (auto simp: connect_with_config_and_timeout_def)
  qed
qed

text \<open>A network with one endpoint, and a TLS library that accepts every host but the one named \<^verbatim>\<open>b\<close>.\<close>

definition test_tcp :: "unit TcpStream" where
  "test_tcp = \<lparr>tcp_write = \<lambda>bs w. (Ok (length bs), w), tcp_flush = \<lambda>w. (Ok (), w), tcp_read = \<lambda>n w. (Ok [], w),
     tcp_set_nonblocking = \<lambda>b w. (Ok (), w), tcp_set_read_timeout = \<lambda>d w. (Ok (), w),
     tcp_set_write_timeout = \<lambda>d w. (Ok (), w), tcp_shutdown = \<lambda>h w. (Ok (), w)\<rparr>"

definition test_network :: "(unit, unit) Network" where
  "test_network = \<lparr>net_resolve = \<lambda>a w. (Ok [()], w), net_connect = \<lambda>e d w. (Ok (), w)\<rparr>"

definition test_rustls :: "(unit, unit, unit, unit, unit, unit, unit, rstr, rstr, unit) Rustls" where
  "test_rustls = \<lparr>rl_server_name = \<lambda>h. if h = [0x62] then Err ''invalid dns name'' else Ok h, rl_client_connection = \<lambda>c n. Ok n,
     rl_stream = \<lambda>c tcp. \<lparr>tls_write = tcp_write tcp, tls_flush = tcp_flush tcp, tls_read = tcp_read tcp, tls_tcp = tcp\<rparr>,
     rl_server_roots = [()], rl_root_store = \<lambda>_. (), rl_provider = (), rl_builder = \<lambda>_. (), rl_safe_versions = \<lambda>_. Ok (),
     rl_with_roots = \<lambda>_ _. (), rl_no_client_auth = \<lambda>_. ()\<rparr>"

theorem tls_checks_the_dialled_host_witness:
  "\<exists>e tls. connect_with_config_and_timeout test_rustls test_network (tcp_transport \<lparr>ck_now = \<lambda>w. (5, w), ck_max = 100\<rparr> test_tcp)
       test_tcp [0x62, colon, 0x31] () 7 () = (Err e, ()) \<and> io_kind e = InvalidInput
     \<and> connect_with_config_and_timeout test_rustls test_network (tcp_transport \<lparr>ck_now = \<lambda>w. (5, w), ck_max = 100\<rparr> test_tcp)
         test_tcp [0x61, colon, 0x31] () 7 () = (Ok tls, ())"
proof -
  let ?tr = "tcp_transport \<lparr>ck_now = \<lambda>w. (5, w), ck_max = 100\<rparr> test_tcp"
  let ?tls = "rl_stream test_rustls [0x61] test_tcp"
  have host: "host_from_address [0x61, colon, 0x31] = Ok [0x61]" "host_from_address [0x62, colon, 0x31] = Ok [0x62]"
    by (simp_all add: host_from_address_def split_address_def strip_prefix_def starts_with_def rsplit_once_def parse_u16_def)
  have dialled: "dialled test_network ?tr 12 [()] () ()"
    by (simp add: dialled_Cons tcp_transport_def test_network_def)
  have ops: "tr_now ?tr () = (5, ())" "tr_instant_max ?tr = 100" "net_resolve test_network a () = (Ok [()], ())"
    "rl_server_name test_rustls [0x62] = Err ''invalid dns name''" "rl_server_name test_rustls [0x61] = Ok [0x61]"
    "rl_client_connection test_rustls () n = Ok n" for a n
    by (simp_all add: tcp_transport_def test_network_def test_rustls_def)
  have "\<exists>e. connect_with_config_and_timeout test_rustls test_network ?tr test_tcp [0x62, colon, 0x31] () 7 () = (Err e, ())
      \<and> io_kind e = InvalidInput"
    using tls_checks_the_dialled_host [of test_rustls test_network ?tr test_tcp "[0x62, colon, 0x31]" "()" 7 "()"] host ops(4) by auto
  moreover have "connect_with_config_and_timeout test_rustls test_network ?tr test_tcp [0x61, colon, 0x31] () 7 () = (Ok ?tls, ())"
    using tls_checks_the_dialled_host [of test_rustls test_network ?tr test_tcp "[0x61, colon, 0x31]" "()" 7 "()" ?tls "()"]
      host ops dialled by simp
  ultimately show ?thesis by blast
qed

end
