(* ===== verification/Display.thy ===== *)
theory Display
  imports Client Async_Client
begin

text \<open>
  What the crate prints: \<^verbatim>\<open>impl Display for Error\<close> (\<^verbatim>\<open>src/error.rs\<close>), the redacting \<^verbatim>\<open>impl Debug\<close> of
  \<^verbatim>\<open>ConnectOptions\<close> (\<^verbatim>\<open>src/options.rs\<close>) and of \<^verbatim>\<open>ConnectPacket\<close> (\<^verbatim>\<open>src/codec/types.rs\<close>), and the plain
  getters of the options.  The texts of the standard library that the crate only passes on, such as
  the escaping of a string or the text of an I/O error, are arguments.
\<close>

section \<open>Numbers\<close>

text \<open>\<^verbatim>\<open>{}\<close> of an unsigned integer and \<^verbatim>\<open>{:02x}\<close> of a byte.\<close>

definition digit :: "nat \<Rightarrow> char" where
  "digit n = char_of (if n < 10 then 48 + n else 87 + n)"

fun show_nat :: "nat \<Rightarrow> string" where
  "show_nat n = (if n < 10 then [digit n] else show_nat (n div 10) @ [digit (n mod 10)])"

declare show_nat.simps [simp del]

definition show_hex :: "u8 \<Rightarrow> string" where
  "show_hex b = [digit (unat b div 16), digit (unat b mod 16)]"

definition show_bool :: "bool \<Rightarrow> string" where
  "show_bool b = (if b then ''true'' else ''false'')"

section \<open>Errors\<close>

definition error_display :: "(io_error \<Rightarrow> string) \<Rightarrow> error \<Rightarrow> string" where
  "error_display io error =
    (case error of
       InvalidOptions msg \<Rightarrow> ''invalid options: '' @ msg
     | MalformedPacket msg \<Rightarrow> ''malformed packet: '' @ msg
     | InvalidPacketType t \<Rightarrow> ''invalid packet type: '' @ show_nat (unat t)
     | InvalidQoS q \<Rightarrow> ''invalid QoS: '' @ show_nat (unat q)
     | InvalidReasonCode c \<Rightarrow> ''invalid reason code: 0x'' @ show_hex c
     | ConnectionRefused c \<Rightarrow> ''connection refused: 0x'' @ show_hex c
     | ServerDisconnected c \<Rightarrow> ''server disconnected: 0x'' @ show_hex c
     | PacketTooLarge sz mx \<Rightarrow>
         ''packet is '' @ show_nat sz @ '' bytes; configured maximum is '' @ show_nat mx
     | StringTooLong len \<Rightarrow> ''string too long: '' @ show_nat len @ '' bytes''
     | BinaryTooLong len \<Rightarrow> ''binary data too long: '' @ show_nat len @ '' bytes''
     | ConnectionClosed \<Rightarrow> ''connection closed''
     | ClientClosed \<Rightarrow> ''client driver is not running''
     | Timeout operation \<Rightarrow> operation @ '' timed out''
     | KeepAliveTimeout \<Rightarrow> ''broker did not answer PINGREQ''
     | UnexpectedPacket msg \<Rightarrow> ''unexpected packet: '' @ msg
     | AckRejected packet reason_code \<Rightarrow> packet @ '' rejected: 0x'' @ show_hex reason_code
     | QueueFull queue \<Rightarrow> queue @ '' queue is full''
     | Serialize msg \<Rightarrow> ''serialize: '' @ msg
     | Deserialize msg \<Rightarrow> ''deserialize: '' @ msg
     | Io e \<Rightarrow> ''io: '' @ io e)"

section \<open>Debug output without credentials\<close>

text \<open>\<^verbatim>\<open>{:?}\<close> of the field types the crate does not format itself.\<close>

record Debug_Format =
  df_str :: "rstr \<Rightarrow> string"
  df_duration :: "duration \<Rightarrow> string"
  df_properties :: "Properties \<Rightarrow> string"

text \<open>\<^verbatim>\<open>formatter.debug_struct(name).field(..). .. .finish()\<close>\<close>

fun debug_fields :: "(string \<times> string) list \<Rightarrow> string" where
  "debug_fields [] = ''''"
| "debug_fields [(field, v)] = field @ '': '' @ v"
| "debug_fields ((field, v) # rest) = field @ '': '' @ v @ '', '' @ debug_fields rest"

definition debug_struct :: "string \<Rightarrow> (string \<times> string) list \<Rightarrow> string" where
  "debug_struct name fs = name @ '' { '' @ debug_fields fs @ '' }''"

definition ConnectOptions_debug :: "Debug_Format \<Rightarrow> ConnectOptions \<Rightarrow> string" where
  "ConnectOptions_debug f o' = debug_struct ''ConnectOptions''
     [(''client_id'', df_str f (co_client_id o')),
      (''keep_alive_secs'', show_nat (unat (co_keep_alive_secs o'))),
      (''clean_start'', show_bool (co_clean_start o')),
      (''username_set'', show_bool (co_username o' \<noteq> None)),
      (''password_set'', show_bool (co_password o' \<noteq> None)),
      (''connect_timeout'', df_duration f (co_connect_timeout o')),
      (''ack_timeout'', df_duration f (co_ack_timeout o')),
      (''poll_interval'', df_duration f (co_poll_interval o')),
      (''max_packet_size'', show_nat (co_max_packet_size o')),
      (''max_incoming_messages'', show_nat (co_max_incoming_messages o')),
      (''command_capacity'', show_nat (co_command_capacity o')),
      (''event_capacity'', show_nat (co_event_capacity o')),
      (''max_outbound_queue_bytes'', show_nat (co_max_outbound_queue_bytes o'))]"

definition ConnectPacket_debug :: "Debug_Format \<Rightarrow> ConnectPacket \<Rightarrow> string" where
  "ConnectPacket_debug f p = debug_struct ''ConnectPacket''
     [(''protocol_version'', show_nat (unat (cp_protocol_version p))),
      (''clean_start'', show_bool (cp_clean_start p)),
      (''keep_alive'', show_nat (unat (cp_keep_alive p))),
      (''client_id'', df_str f (cp_client_id p)),
      (''username_set'', show_bool (cp_username p \<noteq> None)),
      (''password_set'', show_bool (cp_password p \<noteq> None)),
      (''properties'', df_properties f (cp_properties p))]"

section \<open>Getters\<close>

definition get_client_id :: "ConnectOptions \<Rightarrow> rstr" where
  "get_client_id o' = co_client_id o'"

definition get_keep_alive_secs :: "ConnectOptions \<Rightarrow> u16" where
  "get_keep_alive_secs o' = co_keep_alive_secs o'"

definition get_connect_timeout :: "ConnectOptions \<Rightarrow> duration" where
  "get_connect_timeout o' = co_connect_timeout o'"

definition get_ack_timeout :: "ConnectOptions \<Rightarrow> duration" where
  "get_ack_timeout o' = co_ack_timeout o'"

definition get_max_packet_size :: "ConnectOptions \<Rightarrow> nat" where
  "get_max_packet_size o' = co_max_packet_size o'"

definition get_max_incoming_messages :: "ConnectOptions \<Rightarrow> nat" where
  "get_max_incoming_messages o' = co_max_incoming_messages o'"

definition get_command_capacity :: "ConnectOptions \<Rightarrow> nat" where
  "get_command_capacity o' = co_command_capacity o'"

definition get_event_capacity :: "ConnectOptions \<Rightarrow> nat" where
  "get_event_capacity o' = co_event_capacity o'"

definition get_max_outbound_queue_bytes :: "ConnectOptions \<Rightarrow> nat" where
  "get_max_outbound_queue_bytes o' = co_max_outbound_queue_bytes o'"

definition get_response_topic :: "RequestOptions \<Rightarrow> rstr" where
  "get_response_topic o' = ro_response_topic o'"

definition get_request_qos :: "RequestOptions \<Rightarrow> QoS" where
  "get_request_qos o' = ro_qos o'"

definition get_request_timeout :: "RequestOptions \<Rightarrow> duration" where
  "get_request_timeout o' = ro_timeout o'"

section \<open>Numbers can be read back\<close>

definition is_digit :: "char \<Rightarrow> bool" where
  "is_digit c \<longleftrightarrow> 48 \<le> (of_char c :: nat) \<and> (of_char c :: nat) \<le> 57"

definition digit_value :: "char \<Rightarrow> nat" where
  "digit_value c = (let n = of_char c in if n < 58 then n - 48 else n - 87)"

definition read_nat :: "string \<Rightarrow> nat" where
  "read_nat = foldl (\<lambda>n c. n * 10 + digit_value c) 0"

lemma digit_value_digit: "n < 16 \<Longrightarrow> digit_value (digit n) = n"
  by (simp add: digit_value_def digit_def Let_def)

lemma is_digit_digit: "n < 10 \<Longrightarrow> is_digit (digit n)"
  by (simp add: is_digit_def digit_def)

lemma show_nat_digits: "\<forall>c \<in> set (show_nat n). is_digit c"
  by (induction n rule: show_nat.induct) (subst show_nat.simps, auto simp: is_digit_digit)

lemma read_show_nat: "read_nat (show_nat n) = n"
proof (induction n rule: show_nat.induct)
  case (1 n)
  then show ?case
    by (subst show_nat.simps) (auto simp: read_nat_def digit_value_digit)
qed

lemma show_nat_inj: "show_nat a = show_nat b \<longleftrightarrow> a = b"
  by (metis read_show_nat)

lemma show_hex_inj: "show_hex a = show_hex b \<longleftrightarrow> a = b"
proof
  assume "show_hex a = show_hex b"
  moreover have "unat c div 16 < 16" "unat c mod 16 < 16" for c :: u8 using unat_u8_bound [of c] by auto
  ultimately have "unat a div 16 = unat b div 16" "unat a mod 16 = unat b mod 16"
    unfolding show_hex_def by (metis digit_value_digit list.inject)+
  then have "unat a = unat b" by (metis div_mult_mod_eq)
  then show "a = b" by (simp add: unsigned_word_eqI)
qed simp

lemma show_nat_append:
  assumes "\<not> is_digit c" "\<not> is_digit d"
  shows "show_nat a @ c # s = show_nat b @ d # t \<longleftrightarrow> a = b \<and> c = d \<and> s = t"
proof -
  have take: "takeWhile is_digit (show_nat n @ e # r) = show_nat n" if "\<not> is_digit e" for n e r
    using show_nat_digits [of n] that by (simp add: takeWhile_append2)
  show ?thesis using take assms show_nat_inj by (metis append_same_eq list.inject same_append_eq)
qed

section \<open>What the texts tell\<close>

text \<open>Errors whose text is fixed but for numbers.\<close>

definition fixed_text :: "error \<Rightarrow> bool" where
  "fixed_text error =
    (case error of
       InvalidOptions _ \<Rightarrow> False | MalformedPacket _ \<Rightarrow> False | Timeout _ \<Rightarrow> False | UnexpectedPacket _ \<Rightarrow> False
     | AckRejected _ _ \<Rightarrow> False | QueueFull _ \<Rightarrow> False | Serialize _ \<Rightarrow> False | Deserialize _ \<Rightarrow> False | Io _ \<Rightarrow> False
     | _ \<Rightarrow> True)"

text \<open>The text of an error tells which error it is: two errors without a free text that print the same
  are the same, with the same code, sizes and limit.\<close>

lemma error_text_identifies:
  assumes "fixed_text e" "fixed_text e'" "error_display io e = error_display io e'"
  shows "e = e'"
proof -
  have sp: "\<not> is_digit (CHR '' '')" by (simp add: is_digit_def)
  have u: "unat a = unat b \<longleftrightarrow> a = b" for a b :: u8 by (auto intro: unsigned_word_eqI)
  show ?thesis
    using assms
    by (cases e; cases e')
      (simp_all add: error_display_def fixed_text_def u show_nat_inj show_hex_inj show_nat_append [OF sp sp])
qed

text \<open>C40: Debug output does not leak credentials: the text of the options, and the text of the CONNECT
  packet each client builds from them, are the same for any two pairs of user name and password; they tell
  only that one is set.\<close>

theorem debug_redacts_credentials:
  "ConnectOptions_debug f (with_credentials o' user pass) = ConnectOptions_debug f (with_credentials o' user' pass')
   \<and> map_sum id (ConnectPacket_debug f) (client_connect_packet (with_credentials o' user pass))
      = map_sum id (ConnectPacket_debug f) (client_connect_packet (with_credentials o' user' pass'))
   \<and> map_sum id (ConnectPacket_debug f) (async_connect_packet (with_credentials o' user pass))
      = map_sum id (ConnectPacket_debug f) (async_connect_packet (with_credentials o' user' pass'))"
  by (simp add: ConnectOptions_debug_def ConnectPacket_debug_def with_credentials_def client_connect_packet_def
      async_connect_packet_def Let_def)

end
