(* ===== verification/Responder.thy ===== *)
theory Responder
  imports Streams Display Async_Requests Client_Correct
begin

text \<open>
  The responder of the request/response example (\<^verbatim>\<open>examples/request_reply/src/consumer.rs\<close>), a
  program on top of the blocking client, and the way of a request through the whole system: from the
  asynchronous client's driver to the responder and back.
\<close>

section \<open>Numbers as text\<close>

text \<open>\<^verbatim>\<open>str::parse::<i64>\<close>: an optional sign, at least one digit, no overflow; and \<^verbatim>\<open>to_string\<close>.\<close>

definition i64_ok :: "int \<Rightarrow> bool" where
  "i64_ok v \<longleftrightarrow> - (2 ^ 63) \<le> v \<and> v < 2 ^ 63"

fun parse_i64_digits :: "int \<Rightarrow> int \<Rightarrow> rstr \<Rightarrow> int option" where
  "parse_i64_digits sg acc [] = Some acc"
| "parse_i64_digits sg acc (c # cs) =
    (if 0x30 \<le> c \<and> c \<le> 0x39 then
       let v = acc * 10 + sg * (uint c - 0x30) in
       if i64_ok v then parse_i64_digits sg v cs else None
     else None)"

definition parse_i64 :: "rstr \<Rightarrow> int option" where
  "parse_i64 s =
    (case s of
       [] \<Rightarrow> None
     | c # cs \<Rightarrow>
         if cs \<noteq> [] \<and> c = 0x2B then parse_i64_digits 1 0 cs
         else if cs \<noteq> [] \<and> c = 0x2D then parse_i64_digits (- 1) 0 cs
         else parse_i64_digits 1 0 s)"

definition ascii :: "string \<Rightarrow> rstr" where
  "ascii s = map (\<lambda>c. word_of_nat (of_char c)) s"

definition show_i64 :: "int \<Rightarrow> rstr" where
  "show_i64 v = (if v < 0 then 0x2D # ascii (show_nat (nat (- v))) else ascii (show_nat (nat v)))"

section \<open>The operations\<close>

datatype Operation = Double | Greet | Reverse

text \<open>\<^verbatim>\<open>str::chars\<close>, each character as its bytes.\<close>

function utf8_chars :: "rstr \<Rightarrow> rstr list" where
  "utf8_chars [] = []"
| "utf8_chars (b # bs) = (b # takeWhile utf8_cont bs) # utf8_chars (dropWhile utf8_cont bs)"
  by pat_completeness auto
termination
  by (relation "measure length") (auto simp: less_Suc_eq_le length_dropWhile_le)

text \<open>
  \<^term>\<open>None\<close> is a panic: the payload is not UTF-8, not a number, or its double overflows (overflow
  checks are on, as in a debug build).
\<close>

definition transform :: "Operation \<Rightarrow> bytes \<Rightarrow> bytes option" where
  "transform operation payload =
    (if \<not> utf8_valid payload then None
     else case operation of
       Double \<Rightarrow>
         Option.bind (parse_i64 payload) (\<lambda>v. if i64_ok (v * 2) then Some (show_i64 (v * 2)) else None)
     | Greet \<Rightarrow> Some (ascii ''Hello, '' @ payload @ ascii ''!'')
     | Reverse \<Rightarrow> Some (concat (rev (utf8_chars payload))))"

text \<open>What the responder makes of a request: topic, payload and options of its answer.\<close>

definition respond :: "Operation \<Rightarrow> PublishPacket \<Rightarrow> (rstr \<times> bytes \<times> PublishOptions) option" where
  "respond operation request =
     Option.bind (response_topic (pub_properties request)) (\<lambda>topic.
     Option.bind (correlation_data (pub_properties request)) (\<lambda>corr.
     Option.bind (transform operation (pub_payload request)) (\<lambda>response.
     Some (topic, response, with_properties PublishOptions_default
       (with_correlation_data Properties_new corr)))))"

section \<open>Serving one request\<close>

text \<open>\<^verbatim>\<open>.expect(..)\<close>: an error is a panic.\<close>

definition expect :: "('s, 'a) comp \<Rightarrow> 's \<Rightarrow> ('a \<times> 's) option" where
  "expect m s = Option.bind (m s) (\<lambda>(r, s). case r of Inl _ \<Rightarrow> None | Inr x \<Rightarrow> Some (x, s))"

text \<open>\<open>credentials\<close> are the environment's, \<open>ready\<close> is whether the main thread still listens.\<close>

definition serve_once ::
  "('e, 'w) Network \<Rightarrow> 'w Transport \<Rightarrow> (rstr \<times> rstr) option \<Rightarrow> bool \<Rightarrow> rstr \<Rightarrow> nat \<Rightarrow> rstr \<Rightarrow> Operation \<Rightarrow> 'w
     \<Rightarrow> 'w MqttClient option" where
  "serve_once net tr credentials ready addr index topic operation w =
    (let options = ConnectOptions_new (ascii (''example-responder-'' @ show_nat index));
         options = (case credentials of Some (user, pass) \<Rightarrow> with_credentials options user pass | None \<Rightarrow> options)
     in Option.bind (client_connect net tr addr options w) (\<lambda>r.
        case r of Inl _ \<Rightarrow> None | Inr client \<Rightarrow>
          Option.bind (expect (client_subscribe tr topic AtLeastOnce) client) (\<lambda>(_, client).
          if \<not> ready then None
          else Option.bind (expect (client_recv tr) client) (\<lambda>(message, client).
          Option.bind message (\<lambda>request.
          Option.bind (respond operation request) (\<lambda>(response_topic, response, opts).
          Option.bind (expect (client_publish tr response_topic response opts) client) (\<lambda>(_, client).
          map_option snd (expect (client_disconnect tr) client))))))))"

section \<open>What the operations compute\<close>

lemma parse_i64_digits_snoc:
  "parse_i64_digits sg acc (cs @ [c]) = Option.bind (parse_i64_digits sg acc cs) (\<lambda>v. parse_i64_digits sg v [c])"
  by (induction cs arbitrary: acc) (simp_all add: Let_def)

lemma parse_i64_digit:
  assumes "n < 10" "i64_ok (acc * 10 + sg * int n)"
  shows "parse_i64_digits sg acc (ascii [digit n]) = Some (acc * 10 + sg * int n)"
proof -
  have "n \<in> {0, 1, 2, 3, 4, 5, 6, 7, 8, 9}" using assms(1) by auto
  then have "0x30 \<le> (word_of_nat (of_char (digit n)) :: u8)" "(word_of_nat (of_char (digit n)) :: u8) \<le> 0x39"
    "uint (word_of_nat (of_char (digit n)) :: u8) = 0x30 + int n"
    by (elim insertE; simp add: digit_def)+
  then show ?thesis using assms(2) by (simp add: ascii_def Let_def)
qed

lemma parse_show_nat:
  assumes "i64_ok (sg * int n)" "sg = 1 \<or> sg = - 1"
  shows "parse_i64_digits sg 0 (ascii (show_nat n)) = Some (sg * int n)"
  using assms
proof (induction n rule: show_nat.induct)
  case (1 n)
  show ?case
  proof (cases "n < 10")
    case True
    then show ?thesis using parse_i64_digit [of n 0 sg] "1.prems" by (simp add: show_nat.simps [of n])
  next
    case False
    have split: "sg * int (n div 10) * 10 + sg * int (n mod 10) = sg * int n"
      by (simp add: algebra_simps flip: of_nat_add of_nat_mult distrib_left) (simp add: zdiv_int zmod_int mult.assoc flip: distrib_left)
    have "i64_ok (sg * int (n div 10))" using "1.prems" by (auto simp: i64_ok_def)
    with "1.IH" [OF False] "1.prems" have "parse_i64_digits sg 0 (ascii (show_nat (n div 10))) = Some (sg * int (n div 10))" by simp
    then show ?thesis
      using False parse_i64_digit [of "n mod 10" "sg * int (n div 10)" sg] "1.prems" split
        parse_i64_digits_snoc [of sg 0 "ascii (show_nat (n div 10))"]
      by (simp add: show_nat.simps [of n] ascii_def)
  qed
qed

lemma show_nat_first:
  obtains n' cs where "n' < 10" "show_nat n = digit n' # cs"
proof (induction n arbitrary: thesis rule: show_nat.induct)
  case (1 n)
  show ?case
  proof (cases "n < 10")
    case False
    obtain m cs where "m < 10" "show_nat (n div 10) = digit m # cs" using "1.IH" [OF False] by blast
    then show ?thesis using False "1.prems" [of m "cs @ [digit (n mod 10)]"] by (simp add: show_nat.simps [of n])
  qed (use "1.prems" in \<open>simp add: show_nat.simps [of n]\<close>)
qed

lemma parse_show_i64:
  assumes "i64_ok v"
  shows "parse_i64 (show_i64 v) = Some v"
proof (cases "v < 0")
  case True
  obtain k cs where "show_nat (nat (- v)) = digit k # cs" by (rule show_nat_first)
  then have "ascii (show_nat (nat (- v))) \<noteq> []" by (simp add: ascii_def)
  then show ?thesis
    using parse_show_nat [of "- 1" "nat (- v)"] assms True by (simp add: parse_i64_def show_i64_def)
next
  case False
  obtain k cs where k: "k < 10" "show_nat (nat v) = digit k # cs" by (rule show_nat_first)
  have "k \<in> {0, 1, 2, 3, 4, 5, 6, 7, 8, 9}" using k(1) by auto
  then have "(word_of_nat (of_char (digit k)) :: u8) \<noteq> 0x2B" "(word_of_nat (of_char (digit k)) :: u8) \<noteq> 0x2D"
    by (elim insertE; simp add: digit_def)+
  then show ?thesis
    using parse_show_nat [of 1 "nat v"] assms False k(2) by (auto simp: parse_i64_def show_i64_def ascii_def)
qed

lemma show_i64_ascii: "\<forall>c \<in> set (show_i64 v). c < 0x80"
proof -
  have "(word_of_nat (of_char c) :: u8) < 0x80" if "is_digit c" for c
  proof -
    have "of_char c < (256 :: nat)" "of_char c < (128 :: nat)" using that by (simp_all add: is_digit_def)
    then show ?thesis by (simp add: word_less_nat_alt unat_of_nat take_bit_eq_mod)
  qed
  then show ?thesis using show_nat_digits by (auto simp: show_i64_def ascii_def)
qed

text \<open>The responder doubles every number whose double is one.\<close>

lemma transform_double:
  assumes "i64_ok v" "i64_ok (v * 2)"
  shows "transform Double (show_i64 v) = Some (show_i64 (v * 2))"
  using assms utf8_valid_ascii [OF show_i64_ascii] by (simp add: transform_def parse_show_i64)

section \<open>The way of a request\<close>

lemma request_command_properties:
  "response_topic (rq_properties (request_command uuid topic payload o')) = Some (ro_response_topic o')"
  "correlation_data (rq_properties (request_command uuid topic payload o'))
     = Some (rq_correlation_data (request_command uuid topic payload o'))"
  by (simp_all add: request_command_def Let_def props_setters)

text \<open>A publish of QoS 0 that succeeds has encoded its packet and written it.\<close>

lemma client_publish_qos0:
  assumes "client_publish tr topic payload opts c = Some (Ok (), c')" "po_qos opts = AtMostOnce"
  obtains bs w where "PublishPacket_encode \<lparr>pub_topic = topic, pub_packet_id = None, pub_payload = payload,
       pub_qos = AtMostOnce, pub_retain = po_retain opts, pub_dup = False, pub_properties = po_properties opts\<rparr> = Ok bs"
    "write_all tr bs (cl_stream c) = Some (Ok (), w)"
proof -
  from assms obtain bs c1 where enc: "PublishPacket_encode \<lparr>pub_topic = topic, pub_packet_id = None, pub_payload = payload,
       pub_qos = AtMostOnce, pub_retain = po_retain opts, pub_dup = False, pub_properties = po_properties opts\<rparr> = Ok bs"
    and sent: "send_encoded tr bs ''publish'' c = Some (Ok (), c1)"
    by (auto simp: client_publish_def andM_Ok returns_def ensure_connected_def split: if_splits)
  from sent obtain w where "write_all tr bs (cl_stream c) = Some (Ok (), w)"
    by (auto simp: send_encoded_def andM_Ok or_disconnect_def map_write_result_def split: if_splits option.splits sum.splits)
  with enc show thesis by (rule that)
qed

text \<open>The packet \<^verbatim>\<open>publish_request\<close> sends for a command, and the one the responder's client sends.\<close>

definition request_packet :: "RequestCommand \<Rightarrow> u16 option \<Rightarrow> PublishPacket" where
  "request_packet cmd i = \<lparr>pub_topic = rq_topic cmd, pub_packet_id = i, pub_payload = rq_payload cmd, pub_qos = rq_qos cmd,
      pub_retain = False, pub_dup = False, pub_properties = rq_properties cmd\<rparr>"

definition response_packet :: "RequestCommand \<Rightarrow> bytes \<Rightarrow> PublishPacket" where
  "response_packet cmd r = \<lparr>pub_topic = rq_response_topic cmd, pub_packet_id = None, pub_payload = r, pub_qos = AtMostOnce,
      pub_retain = False, pub_dup = False, pub_properties = with_correlation_data Properties_new (rq_correlation_data cmd)\<rparr>"

lemma whole_publish:
  assumes "PublishPacket_encode p = Ok bs" "publish_body_len p < 2 ^ 32" "publish_utf8 p"
  shows "\<exists>h n. decode_fixed_header bs = Ok (h, n) \<and> Packet_decode h (drop n bs) = Ok (Pkt_Publish p)"
proof -
  have "publish_body_len p < 2 ^ 32 \<and> publish_utf8 p" using assms by simp
  from publish_packet.encode_decode [OF this assms(1), of "[]"] obtain h n where
    h: "decode_fixed_header bs = Ok (h, n)" "length bs = n + unat (remaining_length h)"
    "Packet_decode h (take (unat (remaining_length h)) (drop n bs)) = Ok (Pkt_Publish p)"
    by auto
  from h(2) have "take (unat (remaining_length h)) (drop n bs) = drop n bs" by simp
  with h show ?thesis by auto
qed

lemma respond_request:
  assumes "cmd = request_command uuid topic payload o'"
  shows "respond operation (request_packet cmd i) = map_option (\<lambda>r. (rq_response_topic cmd, r,
      with_properties PublishOptions_default (with_correlation_data Properties_new (rq_correlation_data cmd)))) (transform operation payload)"
proof -
  have "rq_payload cmd = payload" "ro_response_topic o' = rq_response_topic cmd"
    by (simp_all add: assms request_command_def Let_def)
  then show ?thesis
    using request_command_properties [of uuid topic payload o', folded assms]
    by (cases "transform operation payload") (simp_all add: respond_def request_packet_def)
qed

text \<open>The entry of a request in the driver's table, and the frame in which it is queued.\<close>

definition request_entry :: "RequestCommand \<Rightarrow> instant \<Rightarrow> sender \<Rightarrow> PendingRequest" where
  "request_entry cmd d res = \<lparr>pr_topic = rq_topic cmd, pr_payload = rq_payload cmd, pr_response_topic = rq_response_topic cmd,
     pr_qos = rq_qos cmd, pr_properties = rq_properties cmd, pr_deadline = d, pr_result = res, pr_publish_packet_id = None,
     pr_published = False\<rparr>"

definition request_frame :: "RequestCommand \<Rightarrow> bytes \<Rightarrow> OutboundFrame" where
  "request_frame cmd bs = \<lparr>of_bytes = bs, of_offset = 0, of_action = Act_None,
     of_request_correlation = Some (rq_correlation_data cmd)\<rparr>"

lemma queue_request_queues:
  assumes "queue_request rt corr i bs s = Some (Ok (), s')" "map_of (cn_pending_requests s) corr = Some q"
  shows "cn_outbound s' = cn_outbound s @ [\<lparr>of_bytes = bs, of_offset = 0, of_action = Act_None, of_request_correlation = Some corr\<rparr>]
    \<and> map_of (cn_pending_requests s') corr = Some (q\<lparr>pr_published := True, pr_publish_packet_id := i\<rparr>)"
proof -
  from assms(1) obtain s1 where m: "(case i of Some i \<Rightarrow> insertM rt i (Ack_RequestPublish corr) ''request publish acknowledgement''
       | None \<Rightarrow> returns (Ok ())) s = Some (Ok (), s1)"
    and rest: "(case enqueue bs Act_None (Some corr) s1 of
       (Inl e, s) \<Rightarrow> Some (Err e, case i of Some i \<Rightarrow> remove_pending_ack i s | None \<Rightarrow> s)
     | (Inr _, s) \<Rightarrow> Some (Ok (), s\<lparr>cn_pending_requests := AList.map_entry corr
           (\<lambda>p. p\<lparr>pr_published := True, pr_publish_packet_id := i\<rparr>) (cn_pending_requests s)\<rparr>)) = Some (Ok (), s')"
    by (auto simp: queue_request_def andM_Ok)
  have s1: "cn_outbound s1 = cn_outbound s" "cn_pending_requests s1 = cn_pending_requests s"
    using m by (auto simp: returns_def insertM_def insert_pending_ack_def conn_now_def bind_eq_Some_conv
        split: if_splits option.splits prod.splits sum.splits)
  obtain y s2 where y: "enqueue bs Act_None (Some corr) s1 = (y, s2)" by force
  from enqueue_tables [OF this] rest y s1 assms(2) show ?thesis
    by (cases y) (auto simp: map_of_map_entry)
qed

lemma admit_request_queues:
  assumes "driver_inv s" "map_of (cn_response_subscriptions s) (rq_response_topic cmd) = Some Ready"
    and "admit_request rt cmd res d s = Some (Ok (), s')"
  shows "\<exists>i bs. PublishPacket_encode (request_packet cmd i) = Ok bs \<and> cn_outbound s' = cn_outbound s @ [request_frame cmd bs]
    \<and> map_of (cn_pending_requests s') (rq_correlation_data cmd)
        = Some ((request_entry cmd d res)\<lparr>pr_published := True, pr_publish_packet_id := i\<rparr>)"
proof -
  let ?s = "s\<lparr>cn_pending_requests := AList.update (rq_correlation_data cmd) (request_entry cmd d res) (cn_pending_requests s)\<rparr>"
  have run: "publish_request rt (rq_correlation_data cmd) ?s = Some (Ok (), s')"
    using assms(2,3) by (simp add: admit_request_def request_entry_def Let_def)
  have entry: "map_of (cn_pending_requests ?s) (rq_correlation_data cmd) = Some (request_entry cmd d res)"
    by (simp add: update_conv)
  obtain x s1 where x: "publish_id (rq_qos cmd) ?s = (x, s1)" by force
  have s1: "cn_outbound s1 = cn_outbound s \<and> cn_pending_requests s1 = cn_pending_requests ?s"
  proof (cases "rq_qos cmd")
    case AtLeastOnce
    have "cn_next_packet_id ?s \<noteq> 0" using driver_inv_next_id [OF assms(1)] by simp
    from publish_id_Ok(1) [OF this x [unfolded AtLeastOnce]] obtain k where "s1 = ?s\<lparr>cn_next_packet_id := k\<rparr>" ..
    then show ?thesis by simp
  qed (use x in \<open>auto simp: publish_id_def\<close>)
  from run entry x obtain i bs where "x = Ok i" and bs: "PublishPacket_encode (request_packet cmd i) = Ok bs"
    and "queue_request rt (rq_correlation_data cmd) i bs s1 = Some (Ok (), s')"
    by (auto simp: publish_request_def request_entry_def request_packet_def andM_Ok pureM_def returns_def split: if_splits)
  from queue_request_queues [OF this(3)] entry s1 bs show ?thesis by (auto simp: request_frame_def)
qed

lemma response_completes:
  assumes "map_of (cn_pending_requests s) (rq_correlation_data cmd) = Some q" "pr_response_topic q = rq_response_topic cmd"
  shows "\<exists>s'. dispatch_packet rt (Pkt_Publish (response_packet cmd r)) s = Some (Ok (), s')
    \<and> cn_sent s' = cn_sent s @ [(pr_result q, Res_Request (Ok (response_packet cmd r)))]
    \<and> cn_pending_requests s' = AList.delete (rq_correlation_data cmd) (cn_pending_requests s)"
proof -
  have "correlation_data (with_correlation_data Properties_new (rq_correlation_data cmd)) = Some (rq_correlation_data cmd)"
    by (simp add: with_correlation_data_def props_setters)
  then have "answers (response_packet cmd r) (rq_correlation_data cmd) q s"
    using assms by (simp add: answers_def response_packet_def correlation_data_def)
  from try_complete_request_outcome [OF this] obtain s' where "try_complete_request (response_packet cmd r) s = (True, s')"
    "cn_sent s' = cn_sent s @ [(pr_result q, Res_Request (Ok (response_packet cmd r)))]"
    "cn_pending_requests s' = AList.delete (rq_correlation_data cmd) (cn_pending_requests s)" by blast
  then show ?thesis
    by (intro exI [of _ s']) (simp add: dispatch_packet_def dispatch_publish_def andM_def returns_def response_packet_def)
qed

lemma response_is_written:
  assumes "client_publish tr (rq_response_topic cmd) r
      (with_properties PublishOptions_default (with_correlation_data Properties_new (rq_correlation_data cmd))) c = Some (Ok (), c')"
    and "publish_body_len (response_packet cmd r) < 2 ^ 32" "utf8_valid (rq_response_topic cmd)"
  shows "\<exists>bs w h n. write_all tr bs (cl_stream c) = Some (Ok (), w) \<and> decode_fixed_header bs = Ok (h, n)
    \<and> Packet_decode h (drop n bs) = Ok (Pkt_Publish (response_packet cmd r))"
proof -
  obtain bs w where bs: "PublishPacket_encode (response_packet cmd r) = Ok bs" "write_all tr bs (cl_stream c) = Some (Ok (), w)"
    by (rule client_publish_qos0 [OF assms(1)])
      (auto simp: response_packet_def with_properties_def PublishOptions_default_def)
  have "publish_utf8 (response_packet cmd r)"
    using assms(3) by (simp add: publish_utf8_def response_packet_def with_correlation_data_def set_correlation_data_def
        replace_single_def Properties_new_def entries_utf8_def value_utf8_def)
  from whole_publish [OF bs(1) assms(2) this] bs(2) show ?thesis by blast
qed

text \<open>The size of a request is bounded by that of one with a packet identifier; its texts do not depend on it.\<close>

lemma request_packet_wf:
  assumes "publish_body_len (request_packet cmd (Some 0)) < 2 ^ 32" "publish_utf8 (request_packet cmd None)"
  shows "publish_body_len (request_packet cmd i) < 2 ^ 32" "publish_utf8 (request_packet cmd i)"
  using assms by (auto simp: publish_body_len_def publish_utf8_def request_packet_def split: option.splits)

text \<open>C15: A request makes the whole way.  Once the driver has admitted a request of the asynchronous client whose
  response topic is subscribed, it has queued a PUBLISH that the responder decodes to the topic, payload and
  properties of the request; the responder answers on the response topic of the request, with its correlation
  data, and panics only when its operation is not defined on the payload; and the answer it publishes, when the
  driver gets it while the request is still in its table, completes exactly that request with the payload the
  operation computed, on the channel of its caller, and takes it out of the table.\<close>

theorem request_makes_the_whole_way:
  assumes "cmd = request_command uuid topic payload o'"
    and "driver_inv s0" "map_of (cn_response_subscriptions s0) (rq_response_topic cmd) = Some Ready"
    and "admit_request rt cmd res d s0 = Some (Ok (), s1)"
    and "publish_body_len (request_packet cmd (Some 0)) < 2 ^ 32" "publish_utf8 (request_packet cmd None)"
      "utf8_valid (rq_response_topic cmd)"
  shows "\<exists>i bs q. cn_outbound s1 = cn_outbound s0 @ [request_frame cmd bs]
    \<and> map_of (cn_pending_requests s1) (rq_correlation_data cmd) = Some q
    \<and> (\<exists>h n. decode_fixed_header bs = Ok (h, n) \<and> Packet_decode h (drop n bs) = Ok (Pkt_Publish (request_packet cmd i)))
    \<and> (respond operation (request_packet cmd i) = None \<longleftrightarrow> transform operation payload = None)
    \<and> (respond operation (request_packet cmd i) = Some (t, r, opts) \<longrightarrow> publish_body_len (response_packet cmd r) < 2 ^ 32 \<longrightarrow>
       client_publish tr t r opts c = Some (Ok (), c') \<longrightarrow>
        transform operation payload = Some r
        \<and> (\<exists>bs' w h n. write_all tr bs' (cl_stream c) = Some (Ok (), w) \<and> decode_fixed_header bs' = Ok (h, n)
            \<and> Packet_decode h (drop n bs') = Ok (Pkt_Publish (response_packet cmd r)))
        \<and> (map_of (cn_pending_requests s) (rq_correlation_data cmd) = Some q \<longrightarrow>
            (\<exists>s'. dispatch_packet rt (Pkt_Publish (response_packet cmd r)) s = Some (Ok (), s')
              \<and> cn_sent s' = cn_sent s @ [(res, Res_Request (Ok (response_packet cmd r)))]
              \<and> cn_pending_requests s' = AList.delete (rq_correlation_data cmd) (cn_pending_requests s))))"
proof -
  obtain i bs q where bs: "PublishPacket_encode (request_packet cmd i) = Ok bs"
      "cn_outbound s1 = cn_outbound s0 @ [request_frame cmd bs]" "map_of (cn_pending_requests s1) (rq_correlation_data cmd) = Some q"
    and q: "pr_response_topic q = rq_response_topic cmd" "pr_result q = res"
    using admit_request_queues [OF assms(2-4)] by (fastforce simp: request_entry_def)
  note answer = respond_request [OF assms(1), of operation i]
  have written: "transform operation payload = Some r \<and> (\<exists>bs' w h n. write_all tr bs' (cl_stream c) = Some (Ok (), w)
      \<and> decode_fixed_header bs' = Ok (h, n) \<and> Packet_decode h (drop n bs') = Ok (Pkt_Publish (response_packet cmd r)))"
    if "respond operation (request_packet cmd i) = Some (t, r, opts)" "publish_body_len (response_packet cmd r) < 2 ^ 32"
      "client_publish tr t r opts c = Some (Ok (), c')"
    using that answer response_is_written [OF _ that(2) assms(7)] by auto
  show ?thesis
    using bs(2,3) whole_publish [OF bs(1) request_packet_wf [OF assms(5,6)]] answer written
      response_completes [of s cmd q rt r] q
    by (intro exI [of _ i] exI [of _ bs] exI [of _ q]) simp
qed

definition test_command :: RequestCommand where
  "test_command = request_command [] [0x61] [0x32, 0x31] (request_with_correlation_data (RequestOptions_new [0x72]) [9])"

lemma test_command_eq:
  "test_command = \<lparr>rq_topic = [0x61], rq_payload = [0x32, 0x31], rq_response_topic = [0x72], rq_correlation_data = [9],
     rq_qos = AtLeastOnce, rq_timeout = from_secs 30,
     rq_properties = \<lparr>entries = [(ResponseTopic, Str [0x72]), (CorrelationData, Binary [9])]\<rparr>\<rparr>"
  by (simp add: test_command_def request_command_def request_with_correlation_data_def RequestOptions_new_def
      set_response_topic_def set_correlation_data_def replace_single_def Properties_new_def Let_def)

lemma test_transform: "transform Double [0x32, 0x31] = Some [0x34, 0x32]"
  by (simp add: transform_def parse_i64_def i64_ok_def show_i64_def show_nat.simps ascii_def digit_def)

text \<open>A driver with the response subscription in place.\<close>

definition test_ready :: "test_world MqttConnection" where
  "test_ready = (test_connection ([], [], []))\<lparr>cn_response_subscriptions := [([0x72], Ready)]\<rparr>"

lemma test_ready_reserve: "reserve_packet_id (test_ready\<lparr>cn_pending_requests := x\<rparr>)
    = (Ok 1, test_ready\<lparr>cn_pending_requests := x, cn_next_packet_id := 2\<rparr>)"
  unfolding reserve_packet_id_def
  by (subst numeral_eq_Suc, subst reserve_loop.simps) (simp add: test_ready_def test_connection_eq bump_packet_id_def)

lemma test_admitted: "\<exists>s. admit_request test_runtime test_command 8 (5 + from_secs 30) test_ready = Some (Ok (), s)"
proof -
  obtain bs where bs: "PublishPacket_encode (request_packet test_command (Some 1)) = Ok bs" "length bs < 100"
    by (simp add: request_packet_def test_command_eq PublishPacket_encode_def check_publish_id_def publish_flags_def
        encode_fixed_header_def eval_defs)
  have "cn_pending_acks test_ready = []" "cn_peer_receive_maximum test_ready = 65535"
    by (simp_all add: test_ready_def test_connection_eq)
  moreover have "\<exists>s. queue_request test_runtime [9] (Some 1) bs (test_ready\<lparr>cn_pending_requests := x, cn_next_packet_id := 2\<rparr>)
      = Some (Ok (), s)" for x
    using bs(2) by (simp add: queue_request_def insertM_def insert_pending_ack_def test_ready_def test_connection_eq conn_now_def
        instant_checked_add_def from_secs_def enqueue_def enqueue_with_action_def checked_add_def usize_max_def andM_def)
  moreover have "cn_pending_requests test_ready = []" "map_of (cn_response_subscriptions test_ready) [0x72] = Some Ready"
    by (simp_all add: test_ready_def test_connection_eq)
  ultimately show ?thesis
    using bs(1) by (simp add: admit_request_def publish_request_def test_command_eq request_packet_def publish_id_def
        test_ready_reserve outgoing_qos1_count_def andM_def pureM_def returns_def Let_def)
qed

lemma test_response_published:
  "\<exists>c. client_publish scripted [0x72] [0x34, 0x32]
      (with_properties PublishOptions_default (with_correlation_data Properties_new [9])) (test_client [] 8) = Some (Ok (), c)"
  by (simp add: client_publish_def client_eval ensure_connected_def validate_publish_def ServerCapabilities_default_def
    with_properties_def PublishOptions_default_def Properties_new_def with_correlation_data_def set_correlation_data_def
    replace_single_def PublishPacket_encode_def check_publish_id_def publish_flags_def encode_fixed_header_def eval_defs
    send_encoded_scripted test_client_def)

theorem request_makes_the_whole_way_witness:
  "\<exists>s q s'. admit_request test_runtime test_command 8 (5 + from_secs 30) test_ready = Some (Ok (), s)
     \<and> map_of (cn_pending_requests s) [9] = Some q \<and> transform Double [0x32, 0x31] = Some [0x34, 0x32]
     \<and> dispatch_packet test_runtime (Pkt_Publish (response_packet test_command [0x34, 0x32])) s = Some (Ok (), s')
     \<and> cn_sent s' = cn_sent s @ [(8, Res_Request (Ok (response_packet test_command [0x34, 0x32])))]"
proof -
  obtain s where s: "admit_request test_runtime test_command 8 (5 + from_secs 30) test_ready = Some (Ok (), s)"
    using test_admitted by blast
  obtain c where c: "client_publish scripted [0x72] [0x34, 0x32]
      (with_properties PublishOptions_default (with_correlation_data Properties_new [9])) (test_client [] 8) = Some (Ok (), c)"
    using test_response_published by blast
  have "driver_inv (test_connection ([], [], []))" using driver_reach_limits [OF test_reach test_ok(1)] by blast
  then have inv: "driver_inv test_ready" by (simp add: test_ready_def driver_inv_def queued_bytes_def)
  have ready: "map_of (cn_response_subscriptions test_ready) (rq_response_topic test_command) = Some Ready"
    "rq_correlation_data test_command = [9]"
    by (simp_all add: test_ready_def test_command_eq)
  have sizes: "publish_body_len (request_packet test_command (Some 0)) < 2 ^ 32" "publish_utf8 (request_packet test_command None)"
    "utf8_valid (rq_response_topic test_command)" "publish_body_len (response_packet test_command [0x34, 0x32]) < 2 ^ 32"
    by (simp_all add: publish_body_len_def publish_utf8_def request_packet_def response_packet_def test_command_eq eval_defs
        with_correlation_data_def set_correlation_data_def replace_single_def Properties_new_def entries_utf8_def value_utf8_def)
  have responded: "respond Double (request_packet test_command i) = Some ([0x72], [0x34, 0x32],
      with_properties PublishOptions_default (with_correlation_data Properties_new [9]))" for i
    using test_transform
    by (simp add: respond_def request_packet_def test_command_eq response_topic_def correlation_data_def get_string_def get_binary_def)
  from request_makes_the_whole_way [OF test_command_def inv ready(1) s sizes(1-3), of Double "[0x72]" "[0x34, 0x32]" _ scripted
        "test_client [] 8" c s] responded sizes(4) c ready(2) s test_transform
  show ?thesis by auto
qed

end
